(* ===== verification/Prelude.thy ===== *)
theory Prelude
  imports Main "HOL-Library.Word" "HOL-Library.AList" "HOL-Library.Sublist" "HOL-Library.List_Lexorder"
begin

text \<open>
  The vocabulary every component shares.

  \<^item> Rust's \<open>Result<T, E>\<close> is the sum \<open>'e + 'a\<close> (\<open>Inl\<close> the error, \<open>Inr\<close> the value); the
    question-mark operator is \<open>rbind\<close>.
  \<^item> Rust's \<open>str\<close> is the list of its Unicode scalar values, as \<open>str::chars\<close> yields them; \<open>lit\<close>
    turns an ASCII literal into one and \<open>utf8\<close> gives the bytes \<open>str::as_bytes\<close> sees.
  \<^item> A UUID is a 128-bit word: the unsigned order of words is the byte order of \<open>Uuid\<close>.
  \<^item> \<open>SystemTime\<close> is an integer; \<open>SystemTime::now()\<close> is an explicit argument \<open>now\<close>.
  \<^item> A \<open>HashMap\<close> is an association list read by \<open>map_of\<close> and written by \<open>AList.update\<close>.
    Iteration order of a hash map is unspecified, so every statement about an iteration is
    proved for any order of the list.
\<close>

named_theorems result_simps \<open>unfolding of result-typed code\<close>
named_theorems role_simps \<open>evaluation of role constants\<close>

section \<open>Results\<close>

type_synonym ('e, 'a) result = "'e + 'a"

definition rbind :: "('e, 'a) result \<Rightarrow> ('a \<Rightarrow> ('e, 'b) result) \<Rightarrow> ('e, 'b) result" where
  "rbind r f = (case r of Inl e \<Rightarrow> Inl e | Inr x \<Rightarrow> f x)"

definition map_err :: "('e \<Rightarrow> 'f) \<Rightarrow> ('e, 'a) result \<Rightarrow> ('f, 'a) result" where
  "map_err h r = (case r of Inl e \<Rightarrow> Inl (h e) | Inr x \<Rightarrow> Inr x)"

definition ok_or :: "'e \<Rightarrow> 'a option \<Rightarrow> ('e, 'a) result" where
  "ok_or e x = (case x of None \<Rightarrow> Inl e | Some v \<Rightarrow> Inr v)"

definition guard :: "'e \<Rightarrow> bool \<Rightarrow> ('e, unit) result" where
  "guard e b = (if b then Inr () else Inl e)"

definition is_ok :: "('e, 'a) result \<Rightarrow> bool" where
  "is_ok r = (case r of Inl _ \<Rightarrow> False | Inr _ \<Rightarrow> True)"

lemma rbind_simps [simp]: "rbind (Inl e) f = Inl e" "rbind (Inr x) f = f x"
  by (simp_all add: rbind_def)

lemma map_err_simps [simp]: "map_err h (Inl e) = Inl (h e)" "map_err h (Inr x) = Inr x"
  by (simp_all add: map_err_def)

lemma ok_or_simps [simp]: "ok_or e None = Inl e" "ok_or e (Some v) = Inr v"
  by (simp_all add: ok_or_def)

lemma guard_simps [simp]: "guard e True = Inr ()" "guard e False = Inl e"
  by (simp_all add: guard_def)

lemma is_ok_simps [simp]: "is_ok (Inl e) = False" "is_ok (Inr x) = True"
  by (simp_all add: is_ok_def)

lemma rbind_eq_Inr [result_simps]: "rbind r f = Inr y \<longleftrightarrow> (\<exists>x. r = Inr x \<and> f x = Inr y)"
  by (cases r) auto

lemma rbind_eq_Inl [result_simps]:
  "rbind r f = Inl e \<longleftrightarrow> r = Inl e \<or> (\<exists>x. r = Inr x \<and> f x = Inl e)"
  by (cases r) auto

lemma map_err_eq_Inr [result_simps]: "map_err h r = Inr y \<longleftrightarrow> r = Inr y"
  by (cases r) auto

lemma map_err_eq_Inl [result_simps]: "map_err h r = Inl e \<longleftrightarrow> (\<exists>d. r = Inl d \<and> e = h d)"
  by (cases r) auto

lemma ok_or_eq_Inr [result_simps]: "ok_or e x = Inr v \<longleftrightarrow> x = Some v"
  by (cases x) auto

lemma ok_or_eq_Inl [result_simps]: "ok_or e x = Inl d \<longleftrightarrow> x = None \<and> d = e"
  by (cases x) auto

lemma guard_eq_Inr [result_simps]: "guard e b = Inr u \<longleftrightarrow> b"
  by (cases b) auto

lemma guard_eq_Inl [result_simps]: "guard e b = Inl d \<longleftrightarrow> \<not> b \<and> d = e"
  by (cases b) auto

lemma is_ok_iff: "is_ok r \<longleftrightarrow> (\<exists>x. r = Inr x)"
  by (cases r) auto

definition is_some_and :: "'a option \<Rightarrow> ('a \<Rightarrow> bool) \<Rightarrow> bool" where
  "is_some_and x p = (case x of None \<Rightarrow> False | Some v \<Rightarrow> p v)"

lemma is_some_and_simps [simp]: "is_some_and None p = False" "is_some_and (Some v) p = p v"
  by (simp_all add: is_some_and_def)

lemma is_some_and_iff: "is_some_and x p \<longleftrightarrow> (\<exists>v. x = Some v \<and> p v)"
  by (cases x) auto

section \<open>Identifiers and time\<close>

type_synonym uuid = "128 word"
type_synonym system_time = int
type_synonym u64 = "64 word"
type_synonym u32 = "32 word"
type_synonym byte = "8 word"

lemma unat_u64: "unat (w :: u64) < 2 ^ 64"
proof -
  have "unat w < 2 ^ LENGTH(64)" by (rule unsigned_less)
  then show ?thesis by simp
qed

datatype user_id = UserId (user_uuid: uuid)
datatype group_id = GroupId (group_uuid: uuid)
datatype memory_id = MemoryId (memory_uuid: uuid)
datatype goal_id = GoalId (goal_uuid: uuid)
datatype goal_handle = GoalHandle (goal_handle_uuid: uuid)

section \<open>Text\<close>

type_synonym str = "nat list"

definition lit :: "string \<Rightarrow> str" where
  "lit s = map of_char s"

lemma lit_Nil [simp]: "lit [] = []"
  by (simp add: lit_def)

lemma lit_Cons [simp]: "lit (c # s) = of_char c # lit s"
  by (simp add: lit_def)

lemma lit_eq_iff [simp]: "lit s = lit t \<longleftrightarrow> s = t"
  by (auto simp: lit_def inj_map_eq_map [OF inj_of_char])

definition is_ascii_lowercase :: "nat \<Rightarrow> bool" where
  "is_ascii_lowercase c \<longleftrightarrow> 97 \<le> c \<and> c \<le> 122"

definition is_ascii_uppercase :: "nat \<Rightarrow> bool" where
  "is_ascii_uppercase c \<longleftrightarrow> 65 \<le> c \<and> c \<le> 90"

definition is_ascii_digit :: "nat \<Rightarrow> bool" where
  "is_ascii_digit c \<longleftrightarrow> 48 \<le> c \<and> c \<le> 57"

definition is_ascii_alphabetic :: "nat \<Rightarrow> bool" where
  "is_ascii_alphabetic c \<longleftrightarrow> is_ascii_lowercase c \<or> is_ascii_uppercase c"

definition is_ascii_alphanumeric :: "nat \<Rightarrow> bool" where
  "is_ascii_alphanumeric c \<longleftrightarrow> is_ascii_alphabetic c \<or> is_ascii_digit c"

definition to_ascii_lower :: "nat \<Rightarrow> nat" where
  "to_ascii_lower c = (if is_ascii_uppercase c then c + 32 else c)"

definition to_ascii_lowercase :: "str \<Rightarrow> str" where
  "to_ascii_lowercase s = map to_ascii_lower s"

text \<open>\<open>char::is_control\<close> is the Unicode category Cc.\<close>

definition is_control :: "nat \<Rightarrow> bool" where
  "is_control c \<longleftrightarrow> c \<le> 31 \<or> (127 \<le> c \<and> c \<le> 159)"

text \<open>\<open>char::is_whitespace\<close> is the Unicode property White\_Space.\<close>

definition is_whitespace :: "nat \<Rightarrow> bool" where
  "is_whitespace c \<longleftrightarrow> (9 \<le> c \<and> c \<le> 13) \<or> c = 32 \<or> c = 133 \<or> c = 160 \<or> c = 5760 \<or>
     (8192 \<le> c \<and> c \<le> 8202) \<or> c = 8232 \<or> c = 8233 \<or> c = 8239 \<or> c = 8287 \<or> c = 12288"

lemmas ascii_defs = is_ascii_lowercase_def is_ascii_uppercase_def is_ascii_digit_def
  is_ascii_alphabetic_def is_ascii_alphanumeric_def

text \<open>\<open>str::trim\<close>: whitespace removed at both ends.\<close>

definition trim :: "str \<Rightarrow> str" where
  "trim s = rev (dropWhile is_whitespace (rev (dropWhile is_whitespace s)))"

lemma trim_Nil [simp]: "trim [] = []"
  by (simp add: trim_def)

lemma trim_ends:
  assumes "trim s \<noteq> []"
  shows "\<not> is_whitespace (hd (trim s))" and "\<not> is_whitespace (last (trim s))"
proof -
  let ?u = "dropWhile is_whitespace s"
  let ?v = "dropWhile is_whitespace (rev ?u)"
  from assms have v: "?v \<noteq> []" by (simp add: trim_def)
  then show "\<not> is_whitespace (last (trim s))"
    unfolding trim_def by (simp add: last_rev hd_dropWhile)
  from v have u: "?u \<noteq> []" by (metis dropWhile.simps(1) rev.simps(1))
  have suf: "suffix ?v (rev ?u)" by (rule suffix_dropWhile)
  then obtain zs where "rev ?u = zs @ ?v" by (auto simp: suffix_def)
  then have "?u = rev ?v @ rev zs"
    by (metis rev_append rev_rev_ident)
  with v have "hd ?u = hd (rev ?v)" by (metis hd_append2 rev_is_Nil_conv)
  with u show "\<not> is_whitespace (hd (trim s))"
    unfolding trim_def by (metis hd_dropWhile)
qed

lemma dropWhile_hd_id: "xs \<noteq> [] \<Longrightarrow> \<not> p (hd xs) \<Longrightarrow> dropWhile p xs = xs"
  by (cases xs) auto

lemma trim_trim [simp]: "trim (trim s) = trim s"
proof (cases "trim s = []")
  case True
  then show ?thesis by simp
next
  case False
  have "dropWhile is_whitespace (trim s) = trim s"
    using False trim_ends(1) [OF False] by (rule dropWhile_hd_id)
  moreover have "dropWhile is_whitespace (rev (trim s)) = rev (trim s)"
    using False trim_ends(2) [OF False] by (intro dropWhile_hd_id) (simp_all add: hd_rev)
  ultimately show ?thesis by (simp add: trim_def [of "trim s"])
qed

lemma trim_length: "length (trim s) \<le> length s"
  unfolding trim_def
  by (metis length_dropWhile_le length_rev order_trans)

text \<open>UTF-8: the bytes of a string and their number, which is \<open>str::len\<close>.\<close>

definition utf8_char :: "nat \<Rightarrow> byte list" where
  "utf8_char c =
     (if c < 128 then [of_nat c]
      else if c < 2048 then [of_nat (192 + c div 64), of_nat (128 + c mod 64)]
      else if c < 65536 then [of_nat (224 + c div 4096), of_nat (128 + c div 64 mod 64), of_nat (128 + c mod 64)]
      else [of_nat (240 + c div 262144), of_nat (128 + c div 4096 mod 64), of_nat (128 + c div 64 mod 64), of_nat (128 + c mod 64)])"

definition utf8 :: "str \<Rightarrow> byte list" where
  "utf8 s = concat (map utf8_char s)"

definition str_len :: "str \<Rightarrow> nat" where
  "str_len s = length (utf8 s)"

lemma utf8_Nil [simp]: "utf8 [] = []"
  by (simp add: utf8_def)

lemma utf8_Cons [simp]: "utf8 (c # s) = utf8_char c @ utf8 s"
  by (simp add: utf8_def)

lemma utf8_append [simp]: "utf8 (s @ t) = utf8 s @ utf8 t"
  by (simp add: utf8_def)

lemma utf8_char_len: "0 < length (utf8_char c)" "length (utf8_char c) \<le> 4"
  by (simp_all add: utf8_char_def)

lemma str_len_ge: "length s \<le> str_len s"
proof (induction s)
  case Nil
  then show ?case by (simp add: str_len_def)
next
  case (Cons c s)
  then have "length s \<le> length (utf8 s)" by (simp add: str_len_def)
  with utf8_char_len(1) [of c] have "Suc (length s) \<le> length (utf8_char c) + length (utf8 s)"
    by linarith
  then show ?case by (simp add: str_len_def)
qed

lemma str_len_ascii: "\<forall>c \<in> set s. c < 128 \<Longrightarrow> str_len s = length s"
  by (induction s) (auto simp: str_len_def utf8_char_def)

lemma utf8_ascii_decode: "\<forall>c \<in> set s. c < 128 \<Longrightarrow> map unat (utf8 s) = s"
  by (induction s) (simp_all add: utf8_char_def unat_of_nat)

lemma utf8_ascii_inj:
  "\<forall>c \<in> set s. c < 128 \<Longrightarrow> \<forall>c \<in> set t. c < 128 \<Longrightarrow> utf8 s = utf8 t \<Longrightarrow> s = t"
  by (metis utf8_ascii_decode)

text \<open>\<open>str::split_once\<close> on a single character: the parts before and after its first occurrence.\<close>

fun split_once :: "nat \<Rightarrow> str \<Rightarrow> (str \<times> str) option" where
  "split_once d [] = None"
| "split_once d (c # s) =
     (if c = d then Some ([], s)
      else map_option (\<lambda>(a, b). (c # a, b)) (split_once d s))"

lemma split_once_None: "split_once d s = None \<longleftrightarrow> d \<notin> set s"
  by (induction s) auto

lemma split_once_Some: "split_once d s = Some (a, b) \<longleftrightarrow> s = a @ d # b \<and> d \<notin> set a"
proof (induction s arbitrary: a)
  case Nil
  then show ?case by simp
next
  case (Cons c s)
  then show ?case by (cases a) auto
qed

definition strip_prefix :: "str \<Rightarrow> str \<Rightarrow> str option" where
  "strip_prefix p s = (if take (length p) s = p then Some (drop (length p) s) else None)"

lemma strip_prefix_Some: "strip_prefix p s = Some r \<longleftrightarrow> s = p @ r"
  by (auto simp: strip_prefix_def) (metis append_take_drop_id)

lemma strip_prefix_None: "strip_prefix p s = None \<longleftrightarrow> \<not> prefix p s"
  by (auto simp: strip_prefix_def prefix_def) (metis append_take_drop_id)

section \<open>Hash maps\<close>

type_synonym ('k, 'v) hashmap = "('k \<times> 'v) list"

definition hm_ok :: "('k, 'v) hashmap \<Rightarrow> bool" where
  "hm_ok m \<longleftrightarrow> distinct (map fst m)"

lemma hm_ok_Nil [simp]: "hm_ok []"
  by (simp add: hm_ok_def)

lemma hm_ok_single [simp]: "hm_ok [(k, v)]"
  by (simp add: hm_ok_def)

lemma hm_ok_update [simp]: "hm_ok m \<Longrightarrow> hm_ok (AList.update k v m)"
  by (simp add: hm_ok_def distinct_update)

lemma hm_get_update [simp]: "map_of (AList.update k v m) k' = (if k' = k then Some v else map_of m k')"
  by (simp add: update_conv')

lemma hm_mem_iff: "hm_ok m \<Longrightarrow> (k, v) \<in> set m \<longleftrightarrow> map_of m k = Some v"
  by (simp add: hm_ok_def)

section \<open>JSON values\<close>

text \<open>
  \<open>serde_json::Value\<close>: an object is the association list of its entries, at most one per key; a
  number is an integer or the bits of a double.
\<close>

datatype json_number = NumInt int | NumFloat u64

datatype json =
    JNull
  | JBool bool
  | JNumber json_number
  | JString str
  | JArray "json list"
  | JObject "(str \<times> json) list"

fun json_as_str :: "json \<Rightarrow> str option" where
  "json_as_str (JString s) = Some s"
| "json_as_str _ = None"

fun json_as_array :: "json \<Rightarrow> json list option" where
  "json_as_array (JArray xs) = Some xs"
| "json_as_array _ = None"

fun json_as_object :: "json \<Rightarrow> (str \<times> json) list option" where
  "json_as_object (JObject kvs) = Some kvs"
| "json_as_object _ = None"

fun json_get :: "json \<Rightarrow> str \<Rightarrow> json option" where
  "json_get (JObject kvs) k = map_of kvs k"
| "json_get _ k = None"

section \<open>Ordered maps\<close>

text \<open>
  A \<open>BTreeMap<String, V>\<close> is the association list of its entries in key order; \<open>String\<close>s are
  ordered by their bytes.
\<close>

definition str_less :: "str \<Rightarrow> str \<Rightarrow> bool" where
  "str_less a b \<longleftrightarrow> utf8 a < utf8 b"

fun bt_insert :: "str \<Rightarrow> 'v \<Rightarrow> (str \<times> 'v) list \<Rightarrow> (str \<times> 'v) list" where
  "bt_insert k v [] = [(k, v)]"
| "bt_insert k v ((k', v') # m) =
     (if k = k' then (k, v) # m
      else if str_less k k' then (k, v) # (k', v') # m
      else (k', v') # bt_insert k v m)"

definition bt_sorted :: "(str \<times> 'v) list \<Rightarrow> bool" where
  "bt_sorted m \<longleftrightarrow> sorted_wrt (\<lambda>a b. str_less (fst a) (fst b)) m"

lemma str_less_irrefl [simp]: "\<not> str_less a a"
  by (simp add: str_less_def)

lemma str_less_trans: "str_less a b \<Longrightarrow> str_less b c \<Longrightarrow> str_less a c"
  by (simp add: str_less_def)

lemma bt_sorted_simps [simp]:
  "bt_sorted []" "bt_sorted (x # m) \<longleftrightarrow> (\<forall>y \<in> set m. str_less (fst x) (fst y)) \<and> bt_sorted m"
  by (simp_all add: bt_sorted_def)

lemma bt_sorted_distinct: "bt_sorted m \<Longrightarrow> distinct (map fst m)"
  by (induction m) force+

lemma map_of_bt_insert [simp]: "map_of (bt_insert k v m) = (map_of m)(k \<mapsto> v)"
  by (induction k v m rule: bt_insert.induct) auto

lemma set_bt_insert: "k \<notin> fst ` set m \<Longrightarrow> set (bt_insert k v m) = insert (k, v) (set m)"
  by (induction k v m rule: bt_insert.induct) auto

lemma length_bt_insert: "k \<notin> fst ` set m \<Longrightarrow> length (bt_insert k v m) = Suc (length m)"
  by (induction k v m rule: bt_insert.induct) auto

lemma bt_sorted_insert:
  "bt_sorted m \<Longrightarrow> k \<notin> fst ` set m \<Longrightarrow> (\<And>k'. k' \<in> fst ` set m \<Longrightarrow> utf8 k' \<noteq> utf8 k) \<Longrightarrow> bt_sorted (bt_insert k v m)"
proof (induction k v m rule: bt_insert.induct)
  case (2 k v k' v' m)
  show ?case
  proof (cases "str_less k k'")
    case True
    then show ?thesis using 2(2,3) by (auto dest: str_less_trans)
  next
    case False
    moreover have "utf8 k' \<noteq> utf8 k" using 2(4) [of k'] by simp
    ultimately have lt: "str_less k' k" by (simp add: str_less_def)
    have "bt_sorted (bt_insert k v m)"
      using 2(2,3,4) False by (intro 2(1)) auto
    moreover have "set (bt_insert k v m) = insert (k, v) (set m)" using 2(3) by (simp add: set_bt_insert)
    ultimately show ?thesis using False lt 2(2,3) by simp
  qed
qed simp

section \<open>Decimal digits\<close>

text \<open>\<open>Display\<close> of an unsigned integer, and the zero padding of a width.\<close>

fun display_nat :: "nat \<Rightarrow> str" where
  "display_nat n = (if n < 10 then [48 + n] else display_nat (n div 10) @ [48 + n mod 10])"

declare display_nat.simps [simp del]

definition zero_pad :: "nat \<Rightarrow> str \<Rightarrow> str" where
  "zero_pad width s = replicate (width - length s) 48 @ s"

definition digits_value :: "str \<Rightarrow> nat" where
  "digits_value s = foldl (\<lambda>acc d. acc * 10 + (d - 48)) 0 s"

lemma digits_value_snoc: "digits_value (s @ [d]) = digits_value s * 10 + (d - 48)"
  by (simp add: digits_value_def)

lemma digits_value_display [simp]: "digits_value (display_nat n) = n"
proof (induction n rule: display_nat.induct)
  case (1 n)
  then show ?case
    by (subst display_nat.simps) (simp add: digits_value_snoc digits_value_def [of "[_]"])
qed

lemma display_nat_digits: "c \<in> set (display_nat n) \<Longrightarrow> is_ascii_digit c"
proof (induction n rule: display_nat.induct)
  case (1 n)
  then show ?case
    by (subst (asm) (2) display_nat.simps) (auto simp: is_ascii_digit_def split: if_splits)
qed

lemma length_display_nat: "n < 10 ^ Suc w \<Longrightarrow> length (display_nat n) \<le> Suc w"
proof (induction w arbitrary: n)
  case 0
  then show ?case by (simp add: display_nat.simps)
next
  case (Suc w)
  show ?case
  proof (cases "n < 10")
    case False
    have "n div 10 < 10 ^ Suc w" using Suc.prems by (simp add: less_mult_imp_div_less)
    from Suc.IH [OF this] False show ?thesis by (subst display_nat.simps) simp
  qed (simp add: display_nat.simps)
qed

lemma digits_value_zeros: "digits_value (replicate k 48 @ s) = digits_value s"
  by (induction k) (simp_all add: digits_value_def)

lemma digits_value_pad [simp]: "digits_value (zero_pad w s) = digits_value s"
  by (simp add: zero_pad_def digits_value_zeros)

lemma length_zero_pad: "length s \<le> w \<Longrightarrow> length (zero_pad w s) = w"
  by (simp add: zero_pad_def)

lemma digits_value_Cons: "digits_value (d # s) = (d - 48) * 10 ^ length s + digits_value s"
proof (induction s rule: rev_induct)
  case Nil
  then show ?case by (simp add: digits_value_def)
next
  case (snoc x s)
  have "digits_value (d # s @ [x]) = digits_value (d # s) * 10 + (x - 48)"
    using digits_value_snoc [of "d # s" x] by simp
  then show ?case using snoc by (simp add: digits_value_snoc algebra_simps)
qed

lemma digits_value_bound: "\<forall>c \<in> set s. is_ascii_digit c \<Longrightarrow> digits_value s < 10 ^ length s"
proof (induction s)
  case Nil
  then show ?case by (simp add: digits_value_def)
next
  case (Cons d s)
  then have d: "d - 48 \<le> 9" "digits_value s < 10 ^ length s" by (auto simp: is_ascii_digit_def)
  have "(d - 48) * 10 ^ length s \<le> 9 * 10 ^ length s" using d(1) by (rule mult_right_mono) simp
  with d(2) have "(d - 48) * 10 ^ length s + digits_value s < 10 * 10 ^ length s" by linarith
  then show ?case by (simp add: digits_value_Cons)
qed

text \<open>Numbers written with the same number of digits are ordered as their digit strings.\<close>

lemma digits_order:
  assumes "length s = length t" "\<forall>c \<in> set s. is_ascii_digit c" "\<forall>c \<in> set t. is_ascii_digit c"
  shows "digits_value s < digits_value t \<longleftrightarrow> s < t"
  using assms
proof (induction s t rule: list_induct2)
  case Nil
  then show ?case by simp
next
  case (Cons x s y t)
  have b: "digits_value s < 10 ^ length t" "digits_value t < 10 ^ length t"
    using digits_value_bound [of s] digits_value_bound [of t] Cons by simp_all
  have xy: "48 \<le> x" "48 \<le> y" using Cons by (auto simp: is_ascii_digit_def)
  consider "x = y" | "x < y" | "y < x" by linarith
  then show ?case
  proof cases
    case 1
    then show ?thesis using Cons by (simp add: digits_value_Cons)
  next
    case 2
    then have "Suc (x - 48) \<le> y - 48" using xy by simp
    then have "Suc (x - 48) * 10 ^ length t \<le> (y - 48) * 10 ^ length t" by (rule mult_right_mono) simp
    then show ?thesis using 2 b Cons.hyps by (simp add: digits_value_Cons)
  next
    case 3
    then have "Suc (y - 48) \<le> x - 48" using xy by simp
    then have "Suc (y - 48) * 10 ^ length t \<le> (x - 48) * 10 ^ length t" by (rule mult_right_mono) simp
    then show ?thesis using 3 b Cons.hyps by (simp add: digits_value_Cons)
  qed
qed

lemma digits_unique:
  assumes "length s = length t" "\<forall>c \<in> set s. is_ascii_digit c" "\<forall>c \<in> set t. is_ascii_digit c"
    and "digits_value s = digits_value t"
  shows "s = t"
  using digits_order [OF assms(1-3)] digits_order [OF assms(1) [symmetric] assms(3,2)] assms(4)
  by (metis less_irrefl linorder_neqE)

section \<open>Bounded text\<close>

datatype trimmed_len_violation = Blank | TooLong nat nat

definition check_trimmed_len :: "str \<Rightarrow> nat \<Rightarrow> (trimmed_len_violation, str) result" where
  "check_trimmed_len value limit =
     (let v = trim value in
      if v = [] then Inl Blank
      else if length v > limit then Inl (TooLong limit (length v))
      else Inr v)"

fun violation_reason :: "trimmed_len_violation \<Rightarrow> str \<Rightarrow> str" where
  "violation_reason Blank field = field @ lit '' must not be blank; it is empty after trimming whitespace''"
| "violation_reason (TooLong limit got) field =
     field @ lit '' must be at most '' @ display_nat limit @ lit '' chars after trimming; got '' @ display_nat got"

fun join_with :: "str \<Rightarrow> str list \<Rightarrow> str" where
  "join_with sep [] = []"
| "join_with sep [s] = s"
| "join_with sep (s # t # ss) = s @ sep @ join_with sep (t # ss)"

end
