(* ===== verification/Access.thy ===== *)
theory Access
  imports Prelude "HOL-Library.Product_Lexorder" "HOL-Library.Multiset"
begin

text \<open>
  Owner identifiers (\<open>crates/core/src/owner.rs\<close>) and the owner-role vocabulary
  (\<open>crates/core/src/access.rs\<close>): access kinds and ceilings, roles with their meet, join and
  domination order, the role map \<open>OwnerRoles\<close> of one subject, forwarding roles and the stored
  membership relations. The locale \<open>role_order\<close> states the lattice contract roles are used
  under; \<open>kind_authority\<close> is the contract of everything that answers "may this caller read or
  write this kind on this owner", interpreted here for \<open>OwnerRoles\<close> and later for the owner
  scope and the authorization context.
\<close>

section \<open>Owner identifiers\<close>

datatype owner_id = OwnerId (owner_uuid: uuid)

instantiation owner_id :: linorder
begin

definition less_eq_owner_id :: "owner_id \<Rightarrow> owner_id \<Rightarrow> bool" where
  "less_eq_owner_id a b \<longleftrightarrow> owner_uuid a \<le> owner_uuid b"

definition less_owner_id :: "owner_id \<Rightarrow> owner_id \<Rightarrow> bool" where
  "less_owner_id a b \<longleftrightarrow> owner_uuid a < owner_uuid b"

instance
  by standard (auto simp: less_eq_owner_id_def less_owner_id_def intro: owner_id.expand)

end

definition as_user :: "owner_id \<Rightarrow> user_id" where
  "as_user o' = UserId (owner_uuid o')"

definition as_group :: "owner_id \<Rightarrow> group_id" where
  "as_group o' = GroupId (owner_uuid o')"

definition owner_of_user :: "user_id \<Rightarrow> owner_id" where
  "owner_of_user u = OwnerId (user_uuid u)"

definition owner_of_group :: "group_id \<Rightarrow> owner_id" where
  "owner_of_group g = OwnerId (group_uuid g)"

text \<open>
  \<open>OwnerId::from_str\<close>: only a 36-byte spelling reaches the uuid crate's parser, which is the
  parameter \<open>try_parse\<close>.
\<close>

datatype owner_id_parse_error = OwnerIdParseError

definition owner_id_from_str :: "(str \<Rightarrow> uuid option) \<Rightarrow> str \<Rightarrow> (owner_id_parse_error, owner_id) result" where
  "owner_id_from_str try_parse raw =
     (if str_len raw \<noteq> 36 then Inl OwnerIdParseError
      else (case try_parse raw of None \<Rightarrow> Inl OwnerIdParseError | Some u \<Rightarrow> Inr (OwnerId u)))"

lemma owner_user_conv [simp]: "owner_of_user (as_user o') = o'" "as_user (owner_of_user u) = u"
  by (simp_all add: owner_of_user_def as_user_def)

lemma owner_of_user_eq_iff [simp]: "owner_of_user u = owner_of_user v \<longleftrightarrow> u = v"
  by (cases u; cases v) (simp add: owner_of_user_def)

section \<open>Kinds, ceilings and roles\<close>

datatype access_kind = KFact | KAbstraction | KPerspective | KGoal

fun kind_rank :: "access_kind \<Rightarrow> nat" where
  "kind_rank KFact = 1"
| "kind_rank KAbstraction = 2"
| "kind_rank KPerspective = 3"
| "kind_rank KGoal = 4"

definition all_kinds :: "access_kind list" where
  "all_kinds = [KFact, KAbstraction, KPerspective, KGoal]"

datatype access_ceiling = CNone | CFact | CAbstraction | CPerspective | CGoal

fun ceiling_rank :: "access_ceiling \<Rightarrow> nat" where
  "ceiling_rank CNone = 0"
| "ceiling_rank CFact = 1"
| "ceiling_rank CAbstraction = 2"
| "ceiling_rank CPerspective = 3"
| "ceiling_rank CGoal = 4"

definition ceiling_allows :: "access_ceiling \<Rightarrow> access_kind \<Rightarrow> bool" where
  "ceiling_allows c k \<longleftrightarrow> kind_rank k \<le> ceiling_rank c"

fun ceiling_top :: "access_ceiling \<Rightarrow> access_kind option" where
  "ceiling_top CNone = None"
| "ceiling_top CFact = Some KFact"
| "ceiling_top CAbstraction = Some KAbstraction"
| "ceiling_top CPerspective = Some KPerspective"
| "ceiling_top CGoal = Some KGoal"

datatype access_error =
    WriteExceedsRead
  | DerivedOwnerOverride
  | Resolution str
  | SubjectIsGroup user_id

record role =
  role_read :: access_ceiling
  role_write :: access_ceiling
  role_manage :: bool

definition role_new :: "access_ceiling \<Rightarrow> access_ceiling \<Rightarrow> bool \<Rightarrow> (access_error, role) result" where
  "role_new rd wr mg =
     (if ceiling_rank wr > ceiling_rank rd then Inl WriteExceedsRead
      else Inr \<lparr>role_read = rd, role_write = wr, role_manage = mg\<rparr>)"

definition role_personal :: role where
  "role_personal = \<lparr>role_read = CGoal, role_write = CGoal, role_manage = False\<rparr>"

definition role_viewer :: role where
  "role_viewer = \<lparr>role_read = CGoal, role_write = CNone, role_manage = False\<rparr>"

definition role_ingest :: role where
  "role_ingest = \<lparr>role_read = CFact, role_write = CFact, role_manage = False\<rparr>"

definition role_editor :: role where
  "role_editor = \<lparr>role_read = CGoal, role_write = CPerspective, role_manage = False\<rparr>"

definition role_admin :: role where
  "role_admin = \<lparr>role_read = CGoal, role_write = CGoal, role_manage = True\<rparr>"

definition role_may_read :: "role \<Rightarrow> access_kind \<Rightarrow> bool" where
  "role_may_read r k = ceiling_allows (role_read r) k"

definition role_may_write :: "role \<Rightarrow> access_kind \<Rightarrow> bool" where
  "role_may_write r k = ceiling_allows (role_write r) k"

definition role_administers :: "role \<Rightarrow> bool" where
  "role_administers r = role_may_write r KGoal"

definition role_meet :: "role \<Rightarrow> role \<Rightarrow> role" where
  "role_meet a b =
     \<lparr>role_read = (if ceiling_rank (role_read a) \<le> ceiling_rank (role_read b) then role_read a else role_read b),
      role_write = (if ceiling_rank (role_write a) \<le> ceiling_rank (role_write b) then role_write a else role_write b),
      role_manage = (role_manage a \<and> role_manage b)\<rparr>"

definition role_join :: "role \<Rightarrow> role \<Rightarrow> role" where
  "role_join a b =
     \<lparr>role_read = (if ceiling_rank (role_read a) \<ge> ceiling_rank (role_read b) then role_read a else role_read b),
      role_write = (if ceiling_rank (role_write a) \<ge> ceiling_rank (role_write b) then role_write a else role_write b),
      role_manage = (role_manage a \<or> role_manage b)\<rparr>"

definition role_dominates :: "role \<Rightarrow> role \<Rightarrow> bool" where
  "role_dominates a req \<longleftrightarrow>
     ceiling_rank (role_read (role_meet a req)) = ceiling_rank (role_read req) \<and>
     ceiling_rank (role_write (role_meet a req)) = ceiling_rank (role_write req) \<and>
     (\<not> role_manage req \<or> role_manage a)"

text \<open>The type invariant \<open>Role::new\<close> establishes: writing a kind implies reading it.\<close>

definition role_ok :: "role \<Rightarrow> bool" where
  "role_ok r \<longleftrightarrow> ceiling_rank (role_write r) \<le> ceiling_rank (role_read r)"

lemmas role_consts = role_personal_def role_viewer_def role_ingest_def role_editor_def role_admin_def

declare role_consts [role_simps] role_may_read_def [role_simps] role_may_write_def [role_simps]
  ceiling_allows_def [role_simps] role_administers_def [role_simps]

lemma ceiling_rank_inj [simp]: "ceiling_rank a = ceiling_rank b \<longleftrightarrow> a = b"
  by (cases a; cases b) simp_all

lemma kind_rank_inj [simp]: "kind_rank a = kind_rank b \<longleftrightarrow> a = b"
  by (cases a; cases b) simp_all

lemma kind_rank_bounds: "1 \<le> kind_rank k" "kind_rank k \<le> 4"
  by (cases k; simp)+

lemma ceiling_top_allows: "ceiling_top c = Some k \<Longrightarrow> ceiling_allows c j \<longleftrightarrow> kind_rank j \<le> kind_rank k"
  by (cases c) (auto simp: ceiling_allows_def)

lemma ceiling_top_None: "ceiling_top c = None \<longleftrightarrow> (\<forall>k. \<not> ceiling_allows c k)"
proof (cases "c = CNone")
  case True
  then show ?thesis using kind_rank_bounds(1) by (auto simp: ceiling_allows_def not_le Suc_le_eq)
next
  case False
  then have "ceiling_top c \<noteq> None" and "ceiling_allows c KFact"
    by (cases c; simp add: ceiling_allows_def)+
  then show ?thesis by blast
qed

lemma ceiling_le_iff: "ceiling_rank a \<le> ceiling_rank b \<longleftrightarrow> (\<forall>k. ceiling_allows a k \<longrightarrow> ceiling_allows b k)"
proof
  assume "\<forall>k. ceiling_allows a k \<longrightarrow> ceiling_allows b k"
  then show "ceiling_rank a \<le> ceiling_rank b"
    by (cases a) (auto simp: ceiling_allows_def dest: spec [of _ KFact] spec [of _ KAbstraction]
        spec [of _ KPerspective] spec [of _ KGoal])
qed (auto simp: ceiling_allows_def)

lemma role_ok_iff: "role_ok r \<longleftrightarrow> (\<forall>k. role_may_write r k \<longrightarrow> role_may_read r k)"
  by (simp add: role_ok_def role_may_read_def role_may_write_def ceiling_le_iff)

lemma role_ok_consts [simp]:
  "role_ok role_personal" "role_ok role_viewer" "role_ok role_ingest" "role_ok role_editor" "role_ok role_admin"
  by (simp_all add: role_ok_def role_consts)

lemma role_new_ok: "role_new rd wr mg = Inr r \<Longrightarrow> role_ok r"
  by (auto simp: role_new_def role_ok_def split: if_splits)

lemma role_ok_meet [simp]: "role_ok a \<Longrightarrow> role_ok b \<Longrightarrow> role_ok (role_meet a b)"
  by (auto simp: role_ok_def role_meet_def)

lemma role_ok_join [simp]: "role_ok a \<Longrightarrow> role_ok b \<Longrightarrow> role_ok (role_join a b)"
  by (auto simp: role_ok_def role_join_def)

lemma role_meet_manage [simp]: "role_manage (role_meet a b) \<longleftrightarrow> role_manage a \<and> role_manage b"
  by (simp add: role_meet_def)

lemma role_join_manage [simp]: "role_manage (role_join a b) \<longleftrightarrow> role_manage a \<or> role_manage b"
  by (simp add: role_join_def)

lemma role_may_meet [simp]:
  "role_may_read (role_meet a b) k \<longleftrightarrow> role_may_read a k \<and> role_may_read b k"
  "role_may_write (role_meet a b) k \<longleftrightarrow> role_may_write a k \<and> role_may_write b k"
  by (auto simp: role_meet_def role_may_read_def role_may_write_def ceiling_allows_def)

lemma role_may_join [simp]:
  "role_may_read (role_join a b) k \<longleftrightarrow> role_may_read a k \<or> role_may_read b k"
  "role_may_write (role_join a b) k \<longleftrightarrow> role_may_write a k \<or> role_may_write b k"
  by (auto simp: role_join_def role_may_read_def role_may_write_def ceiling_allows_def)

lemma role_dominates_iff:
  "role_dominates a b \<longleftrightarrow>
     (\<forall>k. role_may_read b k \<longrightarrow> role_may_read a k) \<and>
     (\<forall>k. role_may_write b k \<longrightarrow> role_may_write a k) \<and> (role_manage b \<longrightarrow> role_manage a)"
  by (auto simp: role_dominates_def role_meet_def role_may_read_def role_may_write_def
      simp flip: ceiling_le_iff)

lemma ceiling_eqI: "(\<And>k. ceiling_allows a k = ceiling_allows b k) \<Longrightarrow> a = b"
  by (metis ceiling_le_iff ceiling_rank_inj order_antisym)

lemma role_ext:
  assumes "\<And>k. role_may_read a k = role_may_read b k"
    and "\<And>k. role_may_write a k = role_may_write b k"
    and "role_manage a = role_manage b"
  shows "a = (b :: role)"
  using assms by (intro role.equality) (auto simp: role_may_read_def role_may_write_def intro: ceiling_eqI)

section \<open>The lattice contract of roles\<close>

locale role_order =
  fixes dominates :: "'r \<Rightarrow> 'r \<Rightarrow> bool" and meet :: "'r \<Rightarrow> 'r \<Rightarrow> 'r" and join :: "'r \<Rightarrow> 'r \<Rightarrow> 'r"
  assumes meet_comm: "meet a b = meet b a"
    and meet_assoc: "meet (meet a b) c = meet a (meet b c)"
    and join_comm: "join a b = join b a"
    and join_assoc: "join (join a b) c = join a (join b c)"
    and meet_join: "meet a (join a b) = a"
    and join_meet: "join a (meet a b) = a"
    and dominates_meet: "dominates a b \<longleftrightarrow> meet a b = b"
begin

lemma meet_idem: "meet a a = a"
  by (metis meet_join join_meet)

lemma join_idem: "join a a = a"
  by (metis meet_join join_meet)

lemma dominates_refl: "dominates a a"
  by (simp add: dominates_meet meet_idem)

lemma dominates_trans: "dominates a b \<Longrightarrow> dominates b c \<Longrightarrow> dominates a c"
  by (metis dominates_meet meet_assoc)

lemma dominates_antisym: "dominates a b \<Longrightarrow> dominates b a \<Longrightarrow> a = b"
  by (metis dominates_meet meet_comm)

lemma meet_lower: "dominates a (meet a b)" "dominates b (meet a b)"
  by (metis dominates_meet meet_assoc meet_idem, metis dominates_meet meet_assoc meet_comm meet_idem)

lemma meet_greatest: "dominates a c \<Longrightarrow> dominates b c \<Longrightarrow> dominates (meet a b) c"
  by (metis dominates_meet meet_assoc)

lemma dominates_join: "dominates a b \<longleftrightarrow> join a b = a"
  by (metis dominates_meet join_comm join_meet meet_comm meet_join)

lemma join_upper: "dominates (join a b) a" "dominates (join a b) b"
  by (metis dominates_meet meet_comm meet_join, metis dominates_meet join_comm meet_comm meet_join)

lemma join_least: "dominates c a \<Longrightarrow> dominates c b \<Longrightarrow> dominates c (join a b)"
  by (metis dominates_join join_assoc)

lemma dominates_eq: "dominates a b \<and> dominates b a \<longleftrightarrow> a = b"
  using dominates_antisym dominates_refl by auto

lemma meet_glb: "dominates a c \<and> dominates b c \<longleftrightarrow> dominates (meet a b) c"
proof
  assume c: "dominates (meet a b) c"
  show "dominates a c \<and> dominates b c"
    using dominates_trans [OF meet_lower(1) c] dominates_trans [OF meet_lower(2) c] by (rule conjI)
qed (simp add: meet_greatest)

lemma join_lub: "dominates c a \<and> dominates c b \<longleftrightarrow> dominates c (join a b)"
proof
  assume c: "dominates c (join a b)"
  show "dominates c a \<and> dominates c b"
    using dominates_trans [OF c join_upper(1)] dominates_trans [OF c join_upper(2)] by (rule conjI)
qed (simp add: join_least)

lemma capped_by_dominated: "dominates a c \<Longrightarrow> meet a c = c"
  by (simp add: dominates_meet)

end

interpretation roles: role_order role_dominates role_meet role_join
proof unfold_locales
  fix a b c :: role
  show "role_meet a b = role_meet b a" by (rule role_ext) auto
  show "role_meet (role_meet a b) c = role_meet a (role_meet b c)" by (rule role_ext) auto
  show "role_join a b = role_join b a" by (rule role_ext) auto
  show "role_join (role_join a b) c = role_join a (role_join b c)" by (rule role_ext) auto
  show "role_meet a (role_join a b) = a" by (rule role_ext) auto
  show "role_join a (role_meet a b) = a" by (rule role_ext) auto
  show "role_dominates a b \<longleftrightarrow> role_meet a b = b"
  proof
    assume "role_meet a b = b"
    then have "\<And>k. role_may_read (role_meet a b) k = role_may_read b k"
      and "\<And>k. role_may_write (role_meet a b) k = role_may_write b k"
      and "role_manage (role_meet a b) = role_manage b" by simp_all
    then show "role_dominates a b" unfolding role_dominates_iff by auto
  qed (rule role_ext, auto simp: role_dominates_iff)
qed

section \<open>Kind authority\<close>

locale kind_authority =
  fixes ok :: "'c \<Rightarrow> bool"
    and may_rd :: "'c \<Rightarrow> owner_id \<Rightarrow> access_kind \<Rightarrow> bool"
    and may_wr :: "'c \<Rightarrow> owner_id \<Rightarrow> access_kind \<Rightarrow> bool"
  assumes write_reads: "ok c \<Longrightarrow> may_wr c w k \<Longrightarrow> may_rd c w k"
    and read_down: "may_rd c w k \<Longrightarrow> kind_rank j \<le> kind_rank k \<Longrightarrow> may_rd c w j"
    and write_down: "may_wr c w k \<Longrightarrow> kind_rank j \<le> kind_rank k \<Longrightarrow> may_wr c w j"
begin

lemma read_fact: "may_rd c w k \<Longrightarrow> may_rd c w KFact"
  by (erule read_down) (cases k; simp)

lemma write_reads_fact: "ok c \<Longrightarrow> may_wr c w k \<Longrightarrow> may_rd c w KFact"
  by (blast intro: write_reads read_fact)

lemma unreadable_is_closed: "ok c \<Longrightarrow> \<not> may_rd c w KFact \<Longrightarrow> \<not> may_rd c w k \<and> \<not> may_wr c w k"
  by (blast dest: read_fact write_reads_fact)

end

section \<open>The role map of one subject\<close>

record owner_roles =
  or_subject :: user_id
  or_roles :: "(owner_id, role) hashmap"

definition without_access :: "user_id \<Rightarrow> owner_roles" where
  "without_access s = \<lparr>or_subject = s, or_roles = []\<rparr>"

fun for_subject_loop ::
  "owner_id \<Rightarrow> (owner_id, role) hashmap \<Rightarrow> (owner_id \<times> role) list \<Rightarrow> (access_error, (owner_id, role) hashmap) result" where
  "for_subject_loop own m [] = Inr m"
| "for_subject_loop own m ((w, r) # gs) =
     (if w = own then Inl DerivedOwnerOverride
      else for_subject_loop own
        (AList.update w (case map_of m w of None \<Rightarrow> r | Some held \<Rightarrow> role_join held r) m) gs)"

definition for_subject :: "user_id \<Rightarrow> (owner_id \<times> role) list \<Rightarrow> (access_error, owner_roles) result" where
  "for_subject s group_roles =
     rbind (for_subject_loop (owner_of_user s) [(owner_of_user s, role_personal)] group_roles)
       (\<lambda>m. Inr \<lparr>or_subject = s, or_roles = m\<rparr>)"

definition with_group_role :: "owner_roles \<Rightarrow> group_id \<Rightarrow> role \<Rightarrow> owner_roles" where
  "with_group_role R g r =
     (let w = owner_of_group g in
      if w \<noteq> owner_of_user (or_subject R) then R\<lparr>or_roles := AList.update w r (or_roles R)\<rparr> else R)"

definition scoped_to :: "user_id \<Rightarrow> owner_id \<Rightarrow> role \<Rightarrow> owner_roles" where
  "scoped_to s w r = \<lparr>or_subject = s, or_roles = [(w, r)]\<rparr>"

definition empty_for_subject :: "user_id \<Rightarrow> owner_roles" where
  "empty_for_subject s = \<lparr>or_subject = s, or_roles = [(owner_of_user s, role_personal)]\<rparr>"

definition is_own :: "owner_roles \<Rightarrow> owner_id \<Rightarrow> bool" where
  "is_own R w \<longleftrightarrow> w = owner_of_user (or_subject R)"

definition role_for :: "owner_roles \<Rightarrow> owner_id \<Rightarrow> role option" where
  "role_for R w = map_of (or_roles R) w"

definition roles_may_read :: "owner_roles \<Rightarrow> owner_id \<Rightarrow> access_kind \<Rightarrow> bool" where
  "roles_may_read R w k = is_some_and (role_for R w) (\<lambda>r. role_may_read r k)"

definition roles_may_write :: "owner_roles \<Rightarrow> owner_id \<Rightarrow> access_kind \<Rightarrow> bool" where
  "roles_may_write R w k = is_some_and (role_for R w) (\<lambda>r. role_may_write r k)"

definition roles_may_manage :: "owner_roles \<Rightarrow> owner_id \<Rightarrow> bool" where
  "roles_may_manage R w \<longleftrightarrow> \<not> is_own R w \<and> is_some_and (role_for R w) role_manage"

definition ordered_owners :: "owner_roles \<Rightarrow> (role \<Rightarrow> bool) \<Rightarrow> owner_id list" where
  "ordered_owners R keep =
     sort_key (\<lambda>w. (\<not> is_own R w, w)) (map fst (filter (\<lambda>(w, r). keep r) (or_roles R)))"

definition roles_readable_owners :: "owner_roles \<Rightarrow> access_kind \<Rightarrow> owner_id list" where
  "roles_readable_owners R k = ordered_owners R (\<lambda>r. role_may_read r k)"

definition roles_writable_owners :: "owner_roles \<Rightarrow> access_kind \<Rightarrow> owner_id list" where
  "roles_writable_owners R k = ordered_owners R (\<lambda>r. role_may_write r k)"

text \<open>
  The invariant of a role map: one entry per owner, every role well formed, and the subject's
  own id never managing.
\<close>

definition owner_roles_ok :: "owner_roles \<Rightarrow> bool" where
  "owner_roles_ok R \<longleftrightarrow> hm_ok (or_roles R) \<and> (\<forall>w r. role_for R w = Some r \<longrightarrow> role_ok r) \<and>
     (\<forall>r. role_for R (owner_of_user (or_subject R)) = Some r \<longrightarrow> \<not> role_manage r)"

section \<open>Forwarding roles, relations and the default group probe\<close>

datatype forwarder_role = FViewer | FIngest | FEditor

fun forwarder_role_role :: "forwarder_role \<Rightarrow> role" where
  "forwarder_role_role FViewer = role_viewer"
| "forwarder_role_role FIngest = role_ingest"
| "forwarder_role_role FEditor = role_editor"

definition default_resolve_group_role ::
  "(user_id \<Rightarrow> (access_error, owner_roles) result) \<Rightarrow> user_id \<Rightarrow> group_id \<Rightarrow> (access_error, role option) result" where
  "default_resolve_group_role resolve_roles s g =
     rbind (resolve_roles s) (\<lambda>R. Inr (role_for R (owner_of_group g)))"

datatype relation = RAdmin | REditor | RViewer | RIngest

fun relation_role :: "relation \<Rightarrow> role" where
  "relation_role RAdmin = role_admin"
| "relation_role REditor = role_editor"
| "relation_role RViewer = role_viewer"
| "relation_role RIngest = role_ingest"

fun relation_as_str :: "relation \<Rightarrow> str" where
  "relation_as_str RAdmin = lit ''admin''"
| "relation_as_str REditor = lit ''editor''"
| "relation_as_str RViewer = lit ''viewer''"
| "relation_as_str RIngest = lit ''ingest''"

datatype relation_parse_error = RelationParseError

definition relation_from_str :: "str \<Rightarrow> (relation_parse_error, relation) result" where
  "relation_from_str raw =
     (let s = to_ascii_lowercase raw in
      if s = lit ''admin'' then Inr RAdmin
      else if s = lit ''editor'' then Inr REditor
      else if s = lit ''viewer'' then Inr RViewer
      else if s = lit ''ingest'' then Inr RIngest
      else Inl RelationParseError)"

datatype entity_id = EMemory memory_id | EGoal goal_id

fun entity_uuid :: "entity_id \<Rightarrow> uuid" where
  "entity_uuid (EMemory m) = memory_uuid m"
| "entity_uuid (EGoal g) = goal_uuid g"

section \<open>Lemmas on role maps\<close>

lemma owner_roles_okD:
  assumes "owner_roles_ok R"
  shows "hm_ok (or_roles R)" and "role_for R w = Some r \<Longrightarrow> role_ok r"
    and "role_for R (owner_of_user (or_subject R)) = Some r \<Longrightarrow> \<not> role_manage r"
  using assms unfolding owner_roles_ok_def by blast+

lemma role_for_scoped_to [simp]: "role_for (scoped_to s w r) v = (if v = w then Some r else None)"
  by (simp add: role_for_def scoped_to_def)

lemma or_subject_scoped_to [simp]: "or_subject (scoped_to s w r) = s"
  by (simp add: scoped_to_def)

lemma without_access_simps [simp]: "or_subject (without_access s) = s" "role_for (without_access s) w = None"
  by (simp_all add: without_access_def role_for_def)

lemma or_subject_with_group_role [simp]: "or_subject (with_group_role R g r) = or_subject R"
  by (simp add: with_group_role_def Let_def)

lemma role_for_with_group_role [simp]:
  "role_for (with_group_role R g r) w =
     (if w = owner_of_group g \<and> w \<noteq> owner_of_user (or_subject R) then Some r else role_for R w)"
  by (auto simp: with_group_role_def role_for_def Let_def)

lemma owner_roles_ok_without_access [simp]: "owner_roles_ok (without_access s)"
  by (simp add: owner_roles_ok_def) (simp add: without_access_def)

lemma owner_roles_ok_scoped_to:
  "role_ok r \<Longrightarrow> (w = owner_of_user s \<Longrightarrow> \<not> role_manage r) \<Longrightarrow> owner_roles_ok (scoped_to s w r)"
  by (auto simp: owner_roles_ok_def) (simp add: scoped_to_def)

lemma owner_roles_ok_with_group_role [simp]:
  "owner_roles_ok R \<Longrightarrow> role_ok r \<Longrightarrow> owner_roles_ok (with_group_role R g r)"
  by (auto simp: owner_roles_ok_def) (simp add: with_group_role_def Let_def)

lemma owner_roles_ok_empty_for_subject [simp]: "owner_roles_ok (empty_for_subject s)"
  by (simp add: owner_roles_ok_def empty_for_subject_def role_for_def) (simp add: role_consts)

lemma role_down:
  "role_may_read r k \<Longrightarrow> kind_rank j \<le> kind_rank k \<Longrightarrow> role_may_read r j"
  "role_may_write r k \<Longrightarrow> kind_rank j \<le> kind_rank k \<Longrightarrow> role_may_write r j"
  by (simp_all add: role_may_read_def role_may_write_def ceiling_allows_def)

interpretation owner_roles_kind: kind_authority owner_roles_ok roles_may_read roles_may_write
proof unfold_locales
  fix R w k
  assume "owner_roles_ok R" and "roles_may_write R w k"
  then show "roles_may_read R w k"
    by (auto simp: roles_may_read_def roles_may_write_def is_some_and_iff role_ok_iff dest: owner_roles_okD(2))
qed (auto simp: roles_may_read_def roles_may_write_def is_some_and_iff intro: role_down)

lemma for_subject_loop_error:
  "for_subject_loop own m gs = Inl e \<longleftrightarrow> own \<in> fst ` set gs \<and> e = DerivedOwnerOverride"
  by (induction own m gs rule: for_subject_loop.induct) auto

lemma for_subject_loop_keeps:
  "for_subject_loop own m gs = Inr m' \<Longrightarrow> hm_ok m \<Longrightarrow> hm_ok m' \<and> map_of m' own = map_of m own"
  by (induction own m gs rule: for_subject_loop.induct) (auto split: if_splits)

lemma for_subject_loop_reach:
  "for_subject_loop own m gs = Inr m' \<Longrightarrow> w \<noteq> own \<Longrightarrow>
     (map_of m' w = None \<longleftrightarrow> map_of m w = None \<and> w \<notin> fst ` set gs)"
  by (induction own m gs rule: for_subject_loop.induct) (auto split: if_splits)

lemma for_subject_loop_joins:
  assumes "\<And>a b. p (role_join a b) \<longleftrightarrow> p a \<or> p b"
  shows "for_subject_loop own m gs = Inr m' \<Longrightarrow> w \<noteq> own \<Longrightarrow>
     is_some_and (map_of m' w) p \<longleftrightarrow> is_some_and (map_of m w) p \<or> (\<exists>r. (w, r) \<in> set gs \<and> p r)"
  by (induction own m gs rule: for_subject_loop.induct)
    (auto simp: assms is_some_and_iff split: if_splits option.splits)

lemma for_subject_loop_ok:
  "for_subject_loop own m gs = Inr m' \<Longrightarrow> (\<And>w r. (w, r) \<in> set gs \<Longrightarrow> role_ok r) \<Longrightarrow>
     (\<And>w r. map_of m w = Some r \<Longrightarrow> role_ok r) \<Longrightarrow> map_of m' w = Some r \<Longrightarrow> role_ok r"
proof (induction own m gs rule: for_subject_loop.induct)
  case (2 own m v q gs)
  show ?case
  proof (rule "2.IH" [OF _ _ _ _ "2.prems"(4)])
    show "v \<noteq> own" and "for_subject_loop own (AList.update v (case map_of m v of None \<Rightarrow> q | Some held \<Rightarrow> role_join held q) m) gs = Inr m'"
      using "2.prems"(1) by (auto split: if_splits)
    fix u t
    show "(u, t) \<in> set gs \<Longrightarrow> role_ok t" using "2.prems"(2) [of u t] by simp
    assume "map_of (AList.update v (case map_of m v of None \<Rightarrow> q | Some held \<Rightarrow> role_join held q) m) u = Some t"
    then show "role_ok t"
      using "2.prems"(2) [of v q] "2.prems"(3) [of u t] "2.prems"(3) [of v]
      by (cases "map_of m v") (auto split: if_splits)
  qed
qed simp

lemma for_subject_ok:
  assumes "for_subject s gs = Inr R" and "\<And>w r. (w, r) \<in> set gs \<Longrightarrow> role_ok r"
  shows "owner_roles_ok R" and "or_subject R = s" and "role_for R (owner_of_user s) = Some role_personal"
proof -
  obtain m where loop: "for_subject_loop (owner_of_user s) [(owner_of_user s, role_personal)] gs = Inr m"
    and R: "R = \<lparr>or_subject = s, or_roles = m\<rparr>"
    using assms(1) by (auto simp: for_subject_def result_simps)
  from for_subject_loop_keeps [OF loop] have keep: "hm_ok m" "map_of m (owner_of_user s) = Some role_personal"
    by simp_all
  show "or_subject R = s" and "role_for R (owner_of_user s) = Some role_personal"
    using R keep by (simp_all add: role_for_def)
  have "role_ok r" if "map_of m w = Some r" for w r
    by (rule for_subject_loop_ok [OF loop assms(2) _ that]) (simp_all split: if_splits)
  then show "owner_roles_ok R"
    using R keep by (simp add: owner_roles_ok_def role_for_def) (simp add: role_personal_def)
qed

lemma set_ordered_owners:
  "hm_ok (or_roles R) \<Longrightarrow> w \<in> set (ordered_owners R keep) \<longleftrightarrow> is_some_and (role_for R w) keep"
  by (force simp: ordered_owners_def is_some_and_iff role_for_def hm_mem_iff [symmetric])

lemma distinct_ordered_owners: "hm_ok (or_roles R) \<Longrightarrow> distinct (ordered_owners R keep)"
  by (auto simp: ordered_owners_def hm_ok_def distinct_map_filter)

lemma ordered_owners_sorted: "sorted (map (\<lambda>w. (\<not> is_own R w, w)) (ordered_owners R keep))"
  by (simp add: ordered_owners_def)

text \<open>Two lists that enumerate one finite set in the order of one injective key are equal.\<close>

lemma sorted_key_unique:
  fixes f :: "'a \<Rightarrow> 'b::linorder"
  assumes "sorted (map f xs)" "sorted (map f ys)" "distinct xs" "distinct ys" "set xs = set ys" "inj f"
  shows "xs = ys"
proof -
  have "distinct (map f xs)" "distinct (map f ys)" "set (map f xs) = set (map f ys)"
    using assms by (simp_all add: distinct_map inj_on_subset [OF _ subset_UNIV])
  then have "map f xs = map f ys"
    using assms(1,2) by (simp add: sorted_distinct_set_unique)
  then show ?thesis using assms(6) by (simp add: inj_map_eq_map)
qed

lemma ordered_owners_eq:
  assumes ok: "hm_ok (or_roles R)"
  defines "own \<equiv> owner_of_user (or_subject R)"
  shows "ordered_owners R keep =
    (if is_some_and (role_for R own) keep then [own] else []) @
    sorted_list_of_set {w. w \<noteq> own \<and> is_some_and (role_for R w) keep}"
proof (rule sorted_key_unique)
  let ?S = "{w. w \<noteq> own \<and> is_some_and (role_for R w) keep}"
  have "?S \<subseteq> set (ordered_owners R keep)" using ok by (auto simp: set_ordered_owners)
  then have fin: "finite ?S" by (rule finite_subset) simp
  let ?ys = "(if is_some_and (role_for R own) keep then [own] else []) @ sorted_list_of_set ?S"
  show "sorted (map (\<lambda>w. (\<not> is_own R w, w)) (ordered_owners R keep))"
    by (rule ordered_owners_sorted)
  have "sorted (map (\<lambda>w. (\<not> is_own R w, w)) (sorted_list_of_set ?S))"
    using fin unfolding sorted_map
    by (intro sorted_wrt_mono_rel [OF _ sorted_sorted_list_of_set]) (auto simp: is_own_def own_def)
  then show "sorted (map (\<lambda>w. (\<not> is_own R w, w)) ?ys)"
    using fin by (auto simp: is_own_def own_def)
  show "set (ordered_owners R keep) = set ?ys"
    using fin ok by (auto simp: set_ordered_owners)
  show "distinct ?ys" using fin by simp
qed (use ok in \<open>simp_all add: distinct_ordered_owners inj_on_def\<close>)

section \<open>Properties\<close>

text \<open>
  Roles form a lattice under \<open>dominates\<close>: it is antisymmetric, \<open>meet\<close> is the greatest role
  both dominate, \<open>join\<close> the least role that dominates both, and on permissions \<open>meet\<close> is
  intersection and \<open>join\<close> union, the \<open>manage\<close> flag included.
\<close>

theorem role_lattice:
  "(role_dominates a b \<and> role_dominates b a \<longleftrightarrow> a = b) \<and>
   (role_dominates a c \<and> role_dominates b c \<longleftrightarrow> role_dominates (role_meet a b) c) \<and>
   (role_dominates c a \<and> role_dominates c b \<longleftrightarrow> role_dominates c (role_join a b)) \<and>
   {k. role_may_read (role_meet a b) k} = {k. role_may_read a k} \<inter> {k. role_may_read b k} \<and>
   {k. role_may_write (role_meet a b) k} = {k. role_may_write a k} \<inter> {k. role_may_write b k} \<and>
   {k. role_may_read (role_join a b) k} = {k. role_may_read a k} \<union> {k. role_may_read b k} \<and>
   {k. role_may_write (role_join a b) k} = {k. role_may_write a k} \<union> {k. role_may_write b k} \<and>
   (role_manage (role_meet a b) \<longleftrightarrow> role_manage a \<and> role_manage b) \<and>
   (role_manage (role_join a b) \<longleftrightarrow> role_manage a \<or> role_manage b)"
  using roles.dominates_eq [of a b] roles.meet_glb [of a c b] roles.join_lub [of c a b] by auto

text \<open>
  \<open>OwnerRoles::for_subject\<close> refuses exactly the answers that name the subject's own id.
  Otherwise it returns a well-formed map in which the subject holds the personal role on its own
  id, an owner has an entry iff the answer names it, and several relations on one owner give
  exactly the union of their permissions, whatever the order of the answer.
\<close>

theorem for_subject_joins:
  assumes "\<forall>(w, r) \<in> set gs. role_ok r"
  shows "if owner_of_user s \<in> fst ` set gs then for_subject s gs = Inl DerivedOwnerOverride
    else (\<exists>R. for_subject s gs = Inr R \<and> owner_roles_ok R \<and> or_subject R = s \<and>
      role_for R (owner_of_user s) = Some role_personal \<and>
      (\<forall>w. w \<noteq> owner_of_user s \<longrightarrow>
        (role_for R w \<noteq> None \<longleftrightarrow> w \<in> fst ` set gs) \<and>
        (roles_may_manage R w \<longleftrightarrow> (\<exists>r. (w, r) \<in> set gs \<and> role_manage r)) \<and>
        (\<forall>k. roles_may_read R w k \<longleftrightarrow> (\<exists>r. (w, r) \<in> set gs \<and> role_may_read r k)) \<and>
        (\<forall>k. roles_may_write R w k \<longleftrightarrow> (\<exists>r. (w, r) \<in> set gs \<and> role_may_write r k))))"
proof (cases "owner_of_user s \<in> fst ` set gs")
  case True
  then show ?thesis by (simp add: for_subject_def rbind_eq_Inl for_subject_loop_error)
next
  case False
  let ?m0 = "[(owner_of_user s, role_personal)]"
  have "for_subject_loop (owner_of_user s) ?m0 gs \<noteq> Inl e" for e
    using False by (simp add: for_subject_loop_error)
  then obtain m where loop: "for_subject_loop (owner_of_user s) ?m0 gs = Inr m"
    by (cases "for_subject_loop (owner_of_user s) ?m0 gs") auto
  define R where "R = \<lparr>or_subject = s, or_roles = m\<rparr>"
  have res: "for_subject s gs = Inr R" by (simp add: for_subject_def loop R_def)
  have ok: "owner_roles_ok R" "or_subject R = s" "role_for R (owner_of_user s) = Some role_personal"
    using for_subject_ok [OF res] assms by blast+
  have "role_for R w \<noteq> None \<longleftrightarrow> w \<in> fst ` set gs" if "w \<noteq> owner_of_user s" for w
    using for_subject_loop_reach [OF loop that] that by (simp add: role_for_def R_def del: not_None_eq)
  moreover have "roles_may_manage R w \<longleftrightarrow> (\<exists>r. (w, r) \<in> set gs \<and> role_manage r)" if "w \<noteq> owner_of_user s" for w
    using for_subject_loop_joins [of role_manage, OF role_join_manage loop that] that
    by (simp add: roles_may_manage_def is_own_def role_for_def R_def)
  moreover have "roles_may_read R w k \<longleftrightarrow> (\<exists>r. (w, r) \<in> set gs \<and> role_may_read r k)" if "w \<noteq> owner_of_user s" for w k
    using for_subject_loop_joins [of "\<lambda>r. role_may_read r k", OF role_may_join(1) loop that] that
    by (simp add: roles_may_read_def role_for_def R_def)
  moreover have "roles_may_write R w k \<longleftrightarrow> (\<exists>r. (w, r) \<in> set gs \<and> role_may_write r k)" if "w \<noteq> owner_of_user s" for w k
    using for_subject_loop_joins [of "\<lambda>r. role_may_write r k", OF role_may_join(2) loop that] that
    by (simp add: roles_may_write_def role_for_def R_def)
  ultimately show ?thesis
    unfolding if_not_P [OF False] using res ok by (intro exI [of _ R]) simp
qed

theorem for_subject_joins_witness:
  "\<exists>R. for_subject (UserId 1) [(OwnerId 2, role_ingest), (OwnerId 2, role_viewer)] = Inr R \<and>
     roles_may_read R (OwnerId 2) KGoal \<and> roles_may_write R (OwnerId 2) KFact \<and>
     \<not> roles_may_write R (OwnerId 2) KGoal \<and> \<not> roles_may_manage R (OwnerId 2)"
proof -
  let ?gs = "[(OwnerId 2, role_ingest), (OwnerId 2, role_viewer)]"
  have "\<forall>(w, r) \<in> set ?gs. role_ok r" by simp
  note th = for_subject_joins [OF this, of "UserId 1"]
  have "owner_of_user (UserId 1) \<notin> fst ` set ?gs" by (simp add: owner_of_user_def)
  note th = th [unfolded if_not_P [OF this]]
  then obtain R where "for_subject (UserId 1) ?gs = Inr R"
    and world: "\<forall>w. w \<noteq> owner_of_user (UserId 1) \<longrightarrow>
        (role_for R w \<noteq> None \<longleftrightarrow> w \<in> fst ` set ?gs) \<and>
        (roles_may_manage R w \<longleftrightarrow> (\<exists>r. (w, r) \<in> set ?gs \<and> role_manage r)) \<and>
        (\<forall>k. roles_may_read R w k \<longleftrightarrow> (\<exists>r. (w, r) \<in> set ?gs \<and> role_may_read r k)) \<and>
        (\<forall>k. roles_may_write R w k \<longleftrightarrow> (\<exists>r. (w, r) \<in> set ?gs \<and> role_may_write r k))"
    by (elim exE conjE) (rule that)
  moreover have "OwnerId 2 \<noteq> owner_of_user (UserId 1)" by (simp add: owner_of_user_def)
  note all = world [THEN spec, THEN mp, OF this, THEN conjunct2]
  note mg = all [THEN conjunct1] and rd = all [THEN conjunct2, THEN conjunct1, THEN spec]
    and wr = all [THEN conjunct2, THEN conjunct2, THEN spec]
  have "roles_may_read R (OwnerId 2) KGoal"
    unfolding rd by (rule exI [of _ role_viewer]) (simp add: role_simps)
  moreover have "roles_may_write R (OwnerId 2) KFact"
    unfolding wr by (rule exI [of _ role_ingest]) (simp add: role_simps)
  moreover have "\<not> roles_may_write R (OwnerId 2) KGoal"
    unfolding wr by (auto simp: role_may_write_def ceiling_allows_def) (simp_all add: role_consts)
  moreover have "\<not> roles_may_manage R (OwnerId 2)"
    unfolding mg by auto (simp_all add: role_consts)
  ultimately show ?thesis by blast
qed

text \<open>
  The readable owners of a role map, for each kind, are exactly the owners that may be read:
  the subject's own id first, the others in ascending order, each once. The list therefore does
  not depend on the iteration order of the hash map.
\<close>

theorem readable_owners_exact:
  assumes "owner_roles_ok R"
  shows "roles_readable_owners R k =
      (if roles_may_read R (owner_of_user (or_subject R)) k then [owner_of_user (or_subject R)] else []) @
      sorted_list_of_set {w. w \<noteq> owner_of_user (or_subject R) \<and> roles_may_read R w k} \<and>
    roles_writable_owners R k =
      (if roles_may_write R (owner_of_user (or_subject R)) k then [owner_of_user (or_subject R)] else []) @
      sorted_list_of_set {w. w \<noteq> owner_of_user (or_subject R) \<and> roles_may_write R w k} \<and>
    set (roles_writable_owners R k) \<subseteq> set (roles_readable_owners R k)"
proof (intro conjI)
  note hm = owner_roles_okD(1) [OF assms]
  show "set (roles_writable_owners R k) \<subseteq> set (roles_readable_owners R k)"
    using owner_roles_kind.write_reads [OF assms]
    by (auto simp: roles_readable_owners_def roles_writable_owners_def set_ordered_owners [OF hm]
        roles_may_read_def roles_may_write_def)
qed (unfold roles_readable_owners_def roles_writable_owners_def roles_may_read_def roles_may_write_def,
    (rule ordered_owners_eq [OF owner_roles_okD(1) [OF assms]])+)

theorem readable_owners_exact_witness:
  "roles_readable_owners \<lparr>or_subject = UserId 9, or_roles = [(OwnerId 3, role_viewer), (OwnerId 9, role_personal)]\<rparr> KGoal =
     OwnerId 9 # sorted_list_of_set {OwnerId 3}"
proof -
  let ?R = "\<lparr>or_subject = UserId 9, or_roles = [(OwnerId 3, role_viewer), (OwnerId 9, role_personal)]\<rparr>"
  have ok: "owner_roles_ok ?R"
    by (auto simp: owner_roles_ok_def hm_ok_def role_for_def owner_of_user_def role_personal_def split: if_splits)
      (simp_all add: role_ok_def role_consts)
  have "{w. w \<noteq> OwnerId 9 \<and> roles_may_read ?R w KGoal} = {OwnerId 3}"
    by (auto simp: roles_may_read_def role_for_def is_some_and_iff role_simps split: if_splits)
  then show ?thesis
    using readable_owners_exact [OF ok, of KGoal]
    by (simp add: owner_of_user_def roles_may_read_def role_for_def role_simps)
qed

end
