(* ===== verification/ScopeKey.thy ===== *)
theory ScopeKey
  imports Prelude "HOL-Library.List_Lexorder"
begin

text \<open>
  Tool-scope keys (\<open>crates/core/src/authz/scope_key.rs\<close>) and the provider-safe tool names they
  are made of (\<open>crates/core/src/mcp/names.rs\<close>): the grammar of a name, the one parser, the one
  printer and the order of the canonical spellings.
\<close>

section \<open>Provider-safe names\<close>

definition safe_char :: "nat \<Rightarrow> bool" where
  "safe_char c \<longleftrightarrow> is_ascii_alphanumeric c \<or> c = 95 \<or> c = 45 \<or> c = 46"

fun provider_safe_from :: "bool \<Rightarrow> str \<Rightarrow> str" where
  "provider_safe_from previous_dot [] = []"
| "provider_safe_from previous_dot (ch # s) =
     (let mapped = (if safe_char ch then ch else 95) in
      if mapped = 46 then
        (if previous_dot then 95 # provider_safe_from False s else mapped # provider_safe_from True s)
      else mapped # provider_safe_from False s)"

definition provider_safe_tool_name :: "str \<Rightarrow> str" where
  "provider_safe_tool_name canonical = provider_safe_from False canonical"

definition tool_name_matches :: "str \<Rightarrow> str \<Rightarrow> bool" where
  "tool_name_matches canonical request_name \<longleftrightarrow>
     canonical = request_name \<or> provider_safe_tool_name canonical = request_name"

section \<open>Keys\<close>

definition RESOURCE_PREFIX :: str where
  "RESOURCE_PREFIX = lit ''resource''"

definition SEPARATOR :: nat where
  "SEPARATOR = 58"

datatype scope_key_part = PTool | PAction | PResource

datatype scope_key_error =
    Empty scope_key_part
  | Delimiter scope_key_part
  | NotProviderSafe scope_key_part
  | TooManyParts
  | ReservedToolName

definition validate_name :: "scope_key_part \<Rightarrow> str \<Rightarrow> (scope_key_error, unit) result" where
  "validate_name part s =
     (if s = [] then Inl (Empty part)
      else if SEPARATOR \<in> set s then Inl (Delimiter part)
      else if provider_safe_tool_name s \<noteq> s then Inl (NotProviderSafe part)
      else Inr ())"

datatype tool_name = ToolName (tool_str: str)
datatype action_name = ActionName (action_str: str)
datatype resource_key = ResourceKey (resource_name: str)

definition tool_name_parse :: "str \<Rightarrow> (scope_key_error, tool_name) result" where
  "tool_name_parse s = rbind (validate_name PTool s) (\<lambda>_. Inr (ToolName s))"

definition action_name_parse :: "str \<Rightarrow> (scope_key_error, action_name) result" where
  "action_name_parse s = rbind (validate_name PAction s) (\<lambda>_. Inr (ActionName s))"

definition resource_key_parse :: "str \<Rightarrow> (scope_key_error, resource_key) result" where
  "resource_key_parse s = rbind (validate_name PResource s) (\<lambda>_. Inr (ResourceKey s))"

definition resource_key_display :: "resource_key \<Rightarrow> str" where
  "resource_key_display r = RESOURCE_PREFIX @ [SEPARATOR] @ resource_name r"

datatype scope_key =
    KeyTool tool_name
  | KeyAction tool_name action_name
  | KeyResource resource_key

definition scope_key_action :: "tool_name \<Rightarrow> action_name \<Rightarrow> (scope_key_error, scope_key) result" where
  "scope_key_action t a =
     (if tool_str t = RESOURCE_PREFIX then Inl ReservedToolName else Inr (KeyAction t a))"

definition scope_key_parse :: "str \<Rightarrow> (scope_key_error, scope_key) result" where
  "scope_key_parse s =
     (case Option.bind (strip_prefix RESOURCE_PREFIX s) (strip_prefix [SEPARATOR]) of
        Some name \<Rightarrow> rbind (resource_key_parse name) (\<lambda>r. Inr (KeyResource r))
      | None \<Rightarrow>
        (case split_once SEPARATOR s of
           None \<Rightarrow> rbind (tool_name_parse s) (\<lambda>t. Inr (KeyTool t))
         | Some (tool, act) \<Rightarrow>
             if SEPARATOR \<in> set act then Inl TooManyParts
             else rbind (tool_name_parse tool) (\<lambda>t. rbind (action_name_parse act) (scope_key_action t))))"

fun scope_key_parts :: "scope_key \<Rightarrow> str list" where
  "scope_key_parts (KeyTool t) = [tool_str t, [], []]"
| "scope_key_parts (KeyAction t a) = [tool_str t, lit '':'', action_str a]"
| "scope_key_parts (KeyResource r) = [lit ''resource:'', resource_name r, []]"

definition scope_key_display :: "scope_key \<Rightarrow> str" where
  "scope_key_display k = concat (scope_key_parts k)"

definition canonical_bytes :: "scope_key \<Rightarrow> byte list" where
  "canonical_bytes k = concat (map utf8 (scope_key_parts k))"

datatype ordering = OLess | OEqual | OGreater

fun bytes_cmp :: "byte list \<Rightarrow> byte list \<Rightarrow> ordering" where
  "bytes_cmp [] [] = OEqual"
| "bytes_cmp [] (_ # _) = OLess"
| "bytes_cmp (_ # _) [] = OGreater"
| "bytes_cmp (x # xs) (y # ys) = (if x < y then OLess else if y < x then OGreater else bytes_cmp xs ys)"

definition scope_key_cmp :: "scope_key \<Rightarrow> scope_key \<Rightarrow> ordering" where
  "scope_key_cmp a b = bytes_cmp (canonical_bytes a) (canonical_bytes b)"

text \<open>The invariant the parsers establish: what a value of each type can hold.\<close>

definition name_ok :: "str \<Rightarrow> bool" where
  "name_ok s \<longleftrightarrow> s \<noteq> [] \<and> SEPARATOR \<notin> set s \<and> provider_safe_tool_name s = s"

fun scope_key_ok :: "scope_key \<Rightarrow> bool" where
  "scope_key_ok (KeyTool t) = name_ok (tool_str t)"
| "scope_key_ok (KeyAction t a) = (name_ok (tool_str t) \<and> name_ok (action_str a) \<and> tool_str t \<noteq> RESOURCE_PREFIX)"
| "scope_key_ok (KeyResource r) = name_ok (resource_name r)"

section \<open>The grammar of names\<close>

lemma safe_char_ascii: "safe_char c \<Longrightarrow> c < 128"
  by (auto simp: safe_char_def ascii_defs)

lemma safe_char_45_95 [simp]: "safe_char 95" "safe_char 46" "\<not> safe_char SEPARATOR"
  by (simp_all add: safe_char_def ascii_defs SEPARATOR_def)

text \<open>No two dots in a row, given whether a dot precedes.\<close>

fun no_dot_pair :: "bool \<Rightarrow> str \<Rightarrow> bool" where
  "no_dot_pair d [] = True"
| "no_dot_pair d (c # s) = (\<not> (d \<and> c = 46) \<and> no_dot_pair (c = 46) s)"

lemma provider_safe_from_output:
  "(\<forall>c \<in> set (provider_safe_from d s). safe_char c) \<and> no_dot_pair d (provider_safe_from d s)"
  by (induction s arbitrary: d) (simp_all add: Let_def)

lemma length_provider_safe_from [simp]: "length (provider_safe_from d s) = length s"
  by (induction s arbitrary: d) (simp_all add: Let_def)

lemma provider_safe_from_fixed:
  "provider_safe_from d s = s \<longleftrightarrow> (\<forall>c \<in> set s. safe_char c) \<and> no_dot_pair d s"
  by (induction s arbitrary: d) (auto simp: Let_def)

lemma no_dot_pair_iff: "no_dot_pair d s \<longleftrightarrow> \<not> (d \<and> prefix [46] s) \<and> \<not> sublist [46, 46] s"
proof (induction s arbitrary: d)
  case (Cons c s)
  have "sublist [46, 46] (c # s) \<longleftrightarrow> (c = 46 \<and> prefix [46] s) \<or> sublist [46, 46] s"
    by (simp add: sublist_Cons_right)
  then show ?case unfolding no_dot_pair.simps Cons.IH by auto
qed simp

lemma name_ok_iff:
  "name_ok s \<longleftrightarrow> s \<noteq> [] \<and> (\<forall>c \<in> set s. safe_char c) \<and> \<not> sublist [46, 46] s"
  by (auto simp: name_ok_def provider_safe_tool_name_def provider_safe_from_fixed no_dot_pair_iff)

lemma validate_name_ok: "validate_name p s = Inr u \<longleftrightarrow> name_ok s"
  by (auto simp: validate_name_def name_ok_def)

lemma name_ok_nonsep: "name_ok s \<Longrightarrow> SEPARATOR \<notin> set s"
  by (simp add: name_ok_def)

lemmas name_parse_defs = tool_name_parse_def action_name_parse_def resource_key_parse_def

lemma name_parse_ok [result_simps]:
  "tool_name_parse s = Inr t \<longleftrightarrow> name_ok s \<and> t = ToolName s"
  "action_name_parse s = Inr a \<longleftrightarrow> name_ok s \<and> a = ActionName s"
  "resource_key_parse s = Inr r \<longleftrightarrow> name_ok s \<and> r = ResourceKey s"
  by (auto simp: name_parse_defs rbind_eq_Inr validate_name_ok)

lemma resource_prefix_split:
  "Option.bind (strip_prefix RESOURCE_PREFIX s) (strip_prefix [SEPARATOR]) = Some name \<longleftrightarrow>
     s = RESOURCE_PREFIX @ SEPARATOR # name"
  by (auto simp: bind_eq_Some_conv strip_prefix_Some)

lemma RESOURCE_PREFIX_nonsep: "SEPARATOR \<notin> set RESOURCE_PREFIX"
  by (simp add: RESOURCE_PREFIX_def SEPARATOR_def)

lemma scope_key_display_simps [simp]:
  "scope_key_display (KeyTool t) = tool_str t"
  "scope_key_display (KeyAction t a) = tool_str t @ SEPARATOR # action_str a"
  "scope_key_display (KeyResource r) = RESOURCE_PREFIX @ SEPARATOR # resource_name r"
  by (simp_all add: scope_key_display_def SEPARATOR_def RESOURCE_PREFIX_def)

lemma canonical_bytes_display: "canonical_bytes k = utf8 (scope_key_display k)"
  by (cases k) (simp_all add: canonical_bytes_def scope_key_display_def)

lemma sep_split_unique:
  assumes "a @ (d::nat) # b = a' @ d # b'" and "d \<notin> set a" and "d \<notin> set a'"
  shows "a = a' \<and> b = b'"
proof -
  have "split_once d (a @ d # b) = Some (a, b)" "split_once d (a @ d # b) = Some (a', b')"
    using assms by (simp_all add: split_once_Some)
  then show ?thesis by simp
qed

lemma parse_no_resource:
  assumes "\<And>name. s \<noteq> RESOURCE_PREFIX @ SEPARATOR # name"
  shows "scope_key_parse s =
    (case split_once SEPARATOR s of
       None \<Rightarrow> rbind (tool_name_parse s) (\<lambda>t. Inr (KeyTool t))
     | Some (tool, act) \<Rightarrow>
         if SEPARATOR \<in> set act then Inl TooManyParts
         else rbind (tool_name_parse tool) (\<lambda>t. rbind (action_name_parse act) (scope_key_action t)))"
proof -
  have "Option.bind (strip_prefix RESOURCE_PREFIX s) (strip_prefix [SEPARATOR]) = None"
    using assms resource_prefix_split by (cases "Option.bind (strip_prefix RESOURCE_PREFIX s) (strip_prefix [SEPARATOR])") auto
  then show ?thesis by (simp add: scope_key_parse_def)
qed

lemma parse_resource:
  "scope_key_parse (RESOURCE_PREFIX @ SEPARATOR # name) = rbind (resource_key_parse name) (\<lambda>r. Inr (KeyResource r))"
  using resource_prefix_split [of "RESOURCE_PREFIX @ SEPARATOR # name" name] by (simp add: scope_key_parse_def)

lemma parse_sound:
  assumes "scope_key_parse s = Inr k"
  shows "scope_key_ok k \<and> scope_key_display k = s"
proof (cases "\<exists>name. s = RESOURCE_PREFIX @ SEPARATOR # name")
  case True
  then show ?thesis using assms by (auto simp: parse_resource result_simps)
next
  case False
  then show ?thesis
    using assms
    by (auto simp: parse_no_resource scope_key_action_def split_once_Some result_simps
        split: option.splits if_splits)
qed

lemma parse_complete:
  assumes "scope_key_ok k"
  shows "scope_key_parse (scope_key_display k) = Inr k"
proof (cases k)
  case (KeyTool t)
  then have t: "name_ok (tool_str t)" "SEPARATOR \<notin> set (tool_str t)" using assms by (auto dest: name_ok_nonsep)
  then have "split_once SEPARATOR (tool_str t) = None" by (simp add: split_once_None)
  moreover have "tool_str t \<noteq> RESOURCE_PREFIX @ SEPARATOR # name" for name using t(2) by (metis in_set_conv_decomp)
  ultimately show ?thesis using KeyTool t(1) by (simp add: parse_no_resource rbind_eq_Inr name_parse_ok)
next
  case (KeyAction t a)
  then have ok: "name_ok (tool_str t)" "name_ok (action_str a)" "tool_str t \<noteq> RESOURCE_PREFIX"
    and sep: "SEPARATOR \<notin> set (tool_str t)" "SEPARATOR \<notin> set (action_str a)"
    using assms by (auto dest: name_ok_nonsep)
  have "tool_str t @ SEPARATOR # action_str a \<noteq> RESOURCE_PREFIX @ SEPARATOR # name" for name
    using sep_split_unique [OF _ sep(1) RESOURCE_PREFIX_nonsep] ok(3) by blast
  moreover have "split_once SEPARATOR (tool_str t @ SEPARATOR # action_str a) = Some (tool_str t, action_str a)"
    using sep by (simp add: split_once_Some)
  ultimately show ?thesis
    using KeyAction ok sep by (simp add: parse_no_resource rbind_eq_Inr name_parse_ok scope_key_action_def)
next
  case (KeyResource r)
  then show ?thesis using assms by (simp add: parse_resource rbind_eq_Inr name_parse_ok)
qed

section \<open>The order of keys\<close>

lemma bytes_cmp_lex: "bytes_cmp xs ys = (if xs < ys then OLess else if xs = ys then OEqual else OGreater)"
  by (induction xs ys rule: bytes_cmp.induct) auto

lemma name_ok_ascii: "name_ok s \<Longrightarrow> \<forall>c \<in> set s. c < 128"
  by (auto simp: name_ok_iff intro: safe_char_ascii)

lemma RESOURCE_PREFIX_ascii: "\<forall>c \<in> set RESOURCE_PREFIX. c < 128"
  by (simp add: RESOURCE_PREFIX_def)

lemma scope_key_display_ascii: "scope_key_ok k \<Longrightarrow> \<forall>c \<in> set (scope_key_display k). c < 128"
  using RESOURCE_PREFIX_ascii by (cases k) (auto simp: SEPARATOR_def dest: name_ok_ascii)

lemma scope_key_display_inj:
  "scope_key_ok a \<Longrightarrow> scope_key_ok b \<Longrightarrow> scope_key_display a = scope_key_display b \<Longrightarrow> a = b"
  by (metis parse_complete sum.inject(2))

section \<open>Properties\<close>

text \<open>
  \<open>provider_safe_tool_name\<close> maps every name into the safe grammar (letters, digits,
  \<open>_\<close>, \<open>-\<close>, single dots), keeps its length, fixes exactly the names already in the grammar, and
  is idempotent.
\<close>

theorem provider_safe_tool_name_normalises:
  "length (provider_safe_tool_name s) = length s \<and>
   (provider_safe_tool_name s = s \<longleftrightarrow> list_all safe_char s \<and> \<not> sublist [46, 46] s) \<and>
   provider_safe_tool_name (provider_safe_tool_name s) = provider_safe_tool_name s"
proof (intro conjI)
  show "length (provider_safe_tool_name s) = length s"
    by (simp add: provider_safe_tool_name_def)
  show "provider_safe_tool_name s = s \<longleftrightarrow> list_all safe_char s \<and> \<not> sublist [46, 46] s"
    by (simp add: provider_safe_tool_name_def provider_safe_from_fixed no_dot_pair_iff list_all_iff)
  show "provider_safe_tool_name (provider_safe_tool_name s) = provider_safe_tool_name s"
    using provider_safe_from_output [of False s]
    by (simp add: provider_safe_tool_name_def provider_safe_from_fixed)
qed

text \<open>
  C36. \<open>ScopeKey::parse\<close> and \<open>Display\<close> are inverse: parsing accepts a text exactly when it is the
  canonical spelling of a well-formed key, and returns that key. So no two keys share a spelling,
  and a tool or action can never spell a resource key.
\<close>

theorem scope_key_parse_display:
  "scope_key_parse s = Inr k \<longleftrightarrow> scope_key_ok k \<and> scope_key_display k = s"
  using parse_sound parse_complete by blast

text \<open>
  The refusals of \<open>ScopeKey::parse\<close>: the reserved-name error is unreachable from text,
  because \<open>resource:\<close> is always read as a resource key; a delimiter error only comes from the
  name of a resource key; too many parts is exactly two separators outside a resource key.
\<close>

theorem scope_key_parse_refusals:
  "scope_key_parse s \<noteq> Inl ReservedToolName \<and>
   (scope_key_parse s = Inl (Delimiter p) \<longleftrightarrow>
      p = PResource \<and> (\<exists>name. s = RESOURCE_PREFIX @ SEPARATOR # name \<and> SEPARATOR \<in> set name)) \<and>
   (scope_key_parse s = Inl TooManyParts \<longleftrightarrow>
      \<not> prefix (RESOURCE_PREFIX @ [SEPARATOR]) s \<and> 2 \<le> count_list s SEPARATOR)"
proof (cases "\<exists>name. s = RESOURCE_PREFIX @ SEPARATOR # name")
  case True
  then obtain name where s: "s = RESOURCE_PREFIX @ SEPARATOR # name" by blast
  show ?thesis
    by (auto simp: s parse_resource rbind_eq_Inl resource_key_parse_def validate_name_def split: if_splits)
next
  case False
  then have np: "\<not> prefix (RESOURCE_PREFIX @ [SEPARATOR]) s" by (auto simp: prefix_def)
  show ?thesis
  proof (cases "split_once SEPARATOR s")
    case None
    then have "SEPARATOR \<notin> set s" by (simp add: split_once_None)
    then show ?thesis
      using False np None
      by (auto simp: parse_no_resource rbind_eq_Inl tool_name_parse_def validate_name_def count_list_0_iff)
  next
    case (Some ab)
    then obtain a b where ab: "split_once SEPARATOR s = Some (a, b)" "s = a @ SEPARATOR # b" "SEPARATOR \<notin> set a"
      by (cases ab) (auto simp: split_once_Some)
    have "a \<noteq> RESOURCE_PREFIX" using False ab(2) by blast
    moreover have "2 \<le> count_list s SEPARATOR \<longleftrightarrow> SEPARATOR \<in> set b"
      using ab(2,3) count_list_0_iff [of b SEPARATOR] count_list_0_iff [of a SEPARATOR] by (cases "count_list b SEPARATOR") auto
    ultimately show ?thesis
      using False np ab
      by (auto simp: parse_no_resource rbind_eq_Inl tool_name_parse_def action_name_parse_def
          rbind_eq_Inr validate_name_def scope_key_action_def split: if_splits)
  qed
qed

text \<open>
  The order of keys is the byte order of their canonical spellings, and it is consistent with
  equality: two well-formed keys compare equal only when they are the same key.
\<close>

theorem scope_key_cmp_canonical:
  assumes "scope_key_ok a" and "scope_key_ok b"
  shows "(scope_key_cmp a b = OEqual \<longleftrightarrow> a = b) \<and>
    (scope_key_cmp a b = OLess \<longleftrightarrow> utf8 (scope_key_display a) < utf8 (scope_key_display b)) \<and>
    (scope_key_cmp a b = OLess \<longleftrightarrow> scope_key_cmp b a = OGreater)"
proof -
  have "utf8 (scope_key_display a) = utf8 (scope_key_display b) \<longleftrightarrow> a = b"
    using utf8_ascii_inj [OF scope_key_display_ascii [OF assms(1)] scope_key_display_ascii [OF assms(2)]]
      scope_key_display_inj [OF assms] by blast
  then show ?thesis
    by (auto simp: scope_key_cmp_def bytes_cmp_lex canonical_bytes_display)
qed

theorem scope_key_cmp_canonical_witness:
  "scope_key_cmp (KeyTool (ToolName (lit ''a''))) (KeyAction (ToolName (lit ''a'')) (ActionName (lit ''b''))) \<noteq> OEqual"
proof -
  have "scope_key_ok (KeyTool (ToolName (lit ''a'')))"
    and "scope_key_ok (KeyAction (ToolName (lit ''a'')) (ActionName (lit ''b'')))"
    by (simp_all add: name_ok_iff safe_char_def ascii_defs RESOURCE_PREFIX_def sublist_Cons_right)
  from scope_key_cmp_canonical [OF this] show ?thesis by simp
qed

end
