(* ===== verification/Capability.thy ===== *)
theory Capability
  imports ScopeKey "HOL-Library.Multiset"
begin

text \<open>
  What a caller may reach and what a deployment serves: tool effects and key declarations
  (\<open>crates/core/src/mcp/manifest.rs\<close>, \<open>crates/core/src/mcp/tool.rs\<close>), the caller's \<open>ToolScope\<close>,
  the deployment's \<open>ServedSurface\<close> and their pair \<open>CapabilitySet\<close> (\<open>crates/core/src/authz.rs\<close>),
  and the tool descriptors that turn names into keys and decide what is listed. The static
  resources of the core contract are an argument of the enumerations.
\<close>

section \<open>Tool effects\<close>

datatype replay = Idempotent | NonIdempotent

datatype tool_effect = ReadOnly | Additive replay | Destructive replay

fun effect_is_read_only :: "tool_effect \<Rightarrow> bool" where
  "effect_is_read_only ReadOnly = True"
| "effect_is_read_only _ = False"

fun effect_is_destructive :: "tool_effect \<Rightarrow> bool" where
  "effect_is_destructive (Destructive _) = True"
| "effect_is_destructive _ = False"

fun effect_replay :: "tool_effect \<Rightarrow> replay" where
  "effect_replay ReadOnly = Idempotent"
| "effect_replay (Additive r) = r"
| "effect_replay (Destructive r) = r"

fun effect_strength :: "tool_effect \<Rightarrow> nat" where
  "effect_strength ReadOnly = 0"
| "effect_strength (Additive _) = 1"
| "effect_strength (Destructive _) = 2"

definition effect_join :: "tool_effect \<Rightarrow> tool_effect \<Rightarrow> tool_effect" where
  "effect_join a b =
     (let rp = (if effect_replay a = Idempotent \<and> effect_replay b = Idempotent then Idempotent else NonIdempotent);
          strongest = (if effect_strength a \<ge> effect_strength b then a else b)
      in case strongest of
           ReadOnly \<Rightarrow> ReadOnly
         | Additive _ \<Rightarrow> Additive rp
         | Destructive _ \<Rightarrow> Destructive rp)"

fun effect_strongest :: "tool_effect list \<Rightarrow> tool_effect option" where
  "effect_strongest [] = None"
| "effect_strongest (e # es) = Some (foldl effect_join e es)"

record mcp_tool_annotations =
  an_read_only :: "bool option"
  an_destructive :: "bool option"
  an_idempotent :: "bool option"
  an_open_world :: "bool option"

definition annotations_host :: "tool_effect \<Rightarrow> mcp_tool_annotations" where
  "annotations_host e =
     (let (d, i) = (case e of
          ReadOnly \<Rightarrow> (None, None)
        | Additive r \<Rightarrow> (Some False, Some (r = Idempotent))
        | Destructive r \<Rightarrow> (Some True, Some (r = Idempotent)))
      in \<lparr>an_read_only = Some (effect_is_read_only e), an_destructive = d, an_idempotent = i, an_open_world = None\<rparr>)"

definition annotations_registered :: "tool_effect \<Rightarrow> mcp_tool_annotations" where
  "annotations_registered e = (annotations_host e)\<lparr>an_open_world := Some False\<rparr>"

section \<open>Declarations\<close>

datatype mcp_tool_audience = Shared | OwnerOnly

record key_declaration =
  kd_effect :: "tool_effect option"
  kd_audience :: mcp_tool_audience

definition declaration_shared :: "tool_effect option \<Rightarrow> key_declaration" where
  "declaration_shared e = \<lparr>kd_effect = e, kd_audience = Shared\<rparr>"

definition UNDECLARED :: key_declaration where
  "UNDECLARED = declaration_shared None"

definition declared_is_read :: "key_declaration \<Rightarrow> bool" where
  "declared_is_read d = is_some_and (kd_effect d) effect_is_read_only"

definition declared_is_open_read :: "key_declaration \<Rightarrow> bool" where
  "declared_is_open_read d \<longleftrightarrow> declared_is_read d \<and> kd_audience d = Shared"

section \<open>Caller scope and served surface\<close>

datatype tool_scope = ScopeAll | ScopePalette "scope_key list"

fun scope_allows :: "tool_scope \<Rightarrow> scope_key \<Rightarrow> bool" where
  "scope_allows ScopeAll key = True"
| "scope_allows (ScopePalette allowed) key = (key \<in> set allowed)"

fun scope_holds :: "tool_scope \<Rightarrow> (scope_key \<Rightarrow> bool) \<Rightarrow> bool" where
  "scope_holds ScopeAll p = True"
| "scope_holds (ScopePalette allowed) p = list_ex p allowed"

definition scope_allows_action :: "tool_scope \<Rightarrow> tool_name \<Rightarrow> action_name \<Rightarrow> bool" where
  "scope_allows_action sc t a =
     scope_holds sc (\<lambda>entry. case entry of KeyAction held act \<Rightarrow> held = t \<and> act = a | _ \<Rightarrow> False)"

definition scope_covers_command :: "tool_scope \<Rightarrow> tool_name \<Rightarrow> action_name option \<Rightarrow> bool" where
  "scope_covers_command sc t act =
     (case act of Some a \<Rightarrow> scope_allows_action sc t a | None \<Rightarrow> scope_allows sc (KeyTool t))"

definition scope_allows_group_advertisement :: "tool_scope \<Rightarrow> tool_name \<Rightarrow> bool" where
  "scope_allows_group_advertisement sc t =
     scope_holds sc (\<lambda>entry. case entry of KeyAction held _ \<Rightarrow> held = t | _ \<Rightarrow> False)"

definition scope_allows_tool_advertisement :: "tool_scope \<Rightarrow> tool_name \<Rightarrow> bool \<Rightarrow> bool" where
  "scope_allows_tool_advertisement sc t has_actions =
     (if has_actions then scope_allows_group_advertisement sc t else scope_allows sc (KeyTool t))"

definition intersect_keys :: "scope_key list \<Rightarrow> scope_key list \<Rightarrow> scope_key list" where
  "intersect_keys left right = filter (\<lambda>key. key \<in> set right) left"

fun scope_intersect :: "tool_scope \<Rightarrow> tool_scope \<Rightarrow> tool_scope" where
  "scope_intersect ScopeAll sc = sc"
| "scope_intersect sc ScopeAll = sc"
| "scope_intersect (ScopePalette l) (ScopePalette r) = ScopePalette (intersect_keys l r)"

datatype served_surface = ServeAll | ServePalette "scope_key list"

definition surface_admits :: "served_surface \<Rightarrow> scope_key \<Rightarrow> key_declaration \<Rightarrow> bool" where
  "surface_admits sf key d \<longleftrightarrow>
     declared_is_read d \<or> (case sf of ServeAll \<Rightarrow> True | ServePalette keys \<Rightarrow> key \<in> set keys)"

definition surface_admits_action :: "served_surface \<Rightarrow> tool_name \<Rightarrow> action_name \<Rightarrow> key_declaration \<Rightarrow> bool" where
  "surface_admits_action sf t a d =
     (case scope_key_action t a of Inl _ \<Rightarrow> False | Inr key \<Rightarrow> surface_admits sf key d)"

fun surface_intersect :: "served_surface \<Rightarrow> served_surface \<Rightarrow> served_surface" where
  "surface_intersect ServeAll sf = sf"
| "surface_intersect sf ServeAll = sf"
| "surface_intersect (ServePalette l) (ServePalette r) = ServePalette (intersect_keys l r)"

record capability_set =
  cs_tool_scope :: tool_scope
  cs_served_surface :: served_surface

definition capability_all :: capability_set where
  "capability_all = \<lparr>cs_tool_scope = ScopeAll, cs_served_surface = ServeAll\<rparr>"

definition caps_admit :: "capability_set \<Rightarrow> scope_key \<Rightarrow> key_declaration \<Rightarrow> bool" where
  "caps_admit c key d \<longleftrightarrow> scope_allows (cs_tool_scope c) key \<and> surface_admits (cs_served_surface c) key d"

definition caps_admit_action :: "capability_set \<Rightarrow> tool_name \<Rightarrow> action_name \<Rightarrow> key_declaration \<Rightarrow> bool" where
  "caps_admit_action c t a d \<longleftrightarrow>
     scope_allows_action (cs_tool_scope c) t a \<and> surface_admits_action (cs_served_surface c) t a d"

section \<open>Tool descriptors\<close>

text \<open>
  The fields of \<open>McpToolDescriptor\<close> and of its action specs that its methods read; descriptions,
  schemas and the call handle are carried data.
\<close>

record mcp_action_arg_spec =
  as_action :: str
  as_title :: str
  as_allowed_fields :: "str list"
  as_required_fields :: "str list"
  as_effect :: tool_effect
  as_audience :: mcp_tool_audience

record mcp_argv_action_spec =
  av_action :: str
  av_title :: str
  av_prefix :: "str list"
  av_effect :: tool_effect
  av_audience :: mcp_tool_audience

record mcp_tool_descriptor =
  d_name :: str
  d_title :: str
  d_action_arg_specs :: "mcp_action_arg_spec list"
  d_argv_action_specs :: "mcp_argv_action_spec list"
  d_effect :: "tool_effect option"
  d_audience :: mcp_tool_audience

definition d_is_flat :: "mcp_tool_descriptor \<Rightarrow> bool" where
  "d_is_flat D \<longleftrightarrow> d_action_arg_specs D = [] \<and> d_argv_action_specs D = []"

definition d_actions :: "mcp_tool_descriptor \<Rightarrow> (str \<times> tool_effect) list" where
  "d_actions D =
     map (\<lambda>s. (as_action s, as_effect s)) (d_action_arg_specs D) @
     map (\<lambda>s. (av_action s, av_effect s)) (d_argv_action_specs D)"

definition d_whole_effect :: "mcp_tool_descriptor \<Rightarrow> tool_effect option" where
  "d_whole_effect D = (if d_is_flat D then d_effect D else effect_strongest (map snd (d_actions D)))"

definition d_annotations :: "mcp_tool_descriptor \<Rightarrow> mcp_tool_annotations option" where
  "d_annotations D = map_option annotations_registered (d_whole_effect D)"

definition d_title_of :: "mcp_tool_descriptor \<Rightarrow> scope_key \<Rightarrow> str option" where
  "d_title_of D key =
     (case key of
        KeyTool t \<Rightarrow> if tool_str t = d_name D then Some (d_title D) else None
      | KeyAction t a \<Rightarrow>
          if tool_str t = d_name D then
            map_option snd (find (\<lambda>(declared, _). declared = action_str a)
              (map (\<lambda>s. (as_action s, as_title s)) (d_action_arg_specs D) @
               map (\<lambda>s. (av_action s, av_title s)) (d_argv_action_specs D)))
          else None
      | KeyResource _ \<Rightarrow> None)"

definition d_declaration :: "mcp_tool_descriptor \<Rightarrow> str option \<Rightarrow> key_declaration" where
  "d_declaration D act =
     (if d_is_flat D then \<lparr>kd_effect = d_effect D, kd_audience = d_audience D\<rparr>
      else (case Option.bind act (\<lambda>a. find (\<lambda>(declared, _, _). declared = a)
              (map (\<lambda>s. (as_action s, as_effect s, as_audience s)) (d_action_arg_specs D) @
               map (\<lambda>s. (av_action s, av_effect s, av_audience s)) (d_argv_action_specs D))) of
          Some (_, e, aud) \<Rightarrow>
            \<lparr>kd_effect = Some e,
             kd_audience = (case d_audience D of OwnerOnly \<Rightarrow> OwnerOnly | Shared \<Rightarrow> aud)\<rparr>
        | None \<Rightarrow> \<lparr>kd_effect = None, kd_audience = d_audience D\<rparr>))"

definition d_action_effect :: "mcp_tool_descriptor \<Rightarrow> str \<Rightarrow> tool_effect option" where
  "d_action_effect D a = kd_effect (d_declaration D (Some a))"

definition d_effect_over :: "mcp_tool_descriptor \<Rightarrow> (str \<Rightarrow> bool) \<Rightarrow> tool_effect option" where
  "d_effect_over D permitted =
     (if d_is_flat D then d_effect D
      else effect_strongest (map snd (filter (\<lambda>(a, _). permitted a) (d_actions D))))"

definition d_action_is_read_only :: "mcp_tool_descriptor \<Rightarrow> str \<Rightarrow> bool" where
  "d_action_is_read_only D a = is_some_and (d_action_effect D a) effect_is_read_only"

fun rmap :: "('a \<Rightarrow> ('e, 'b) result) \<Rightarrow> 'a list \<Rightarrow> ('e, 'b list) result" where
  "rmap f [] = Inr []"
| "rmap f (x # xs) = rbind (f x) (\<lambda>y. rbind (rmap f xs) (\<lambda>ys. Inr (y # ys)))"

definition d_scope_keys :: "mcp_tool_descriptor \<Rightarrow> (scope_key_error, (scope_key \<times> mcp_tool_audience) list) result" where
  "d_scope_keys D =
     rbind (tool_name_parse (d_name D)) (\<lambda>t.
       if d_is_flat D then Inr [(KeyTool t, d_audience D)]
       else let effective = (\<lambda>aud. if d_audience D = OwnerOnly then OwnerOnly else aud) in
         rmap (\<lambda>(act, aud).
             rbind (action_name_parse act) (\<lambda>a. rbind (scope_key_action t a) (\<lambda>key. Inr (key, aud))))
           (map (\<lambda>s. (as_action s, effective (as_audience s))) (d_action_arg_specs D) @
            map (\<lambda>s. (av_action s, effective (av_audience s))) (d_argv_action_specs D)))"

text \<open>\<open>palette_keys\<close> and its subsets trust \<open>scope_keys\<close>: None is their panic.\<close>

definition d_palette_keys :: "mcp_tool_descriptor \<Rightarrow> scope_key list option" where
  "d_palette_keys D = (case d_scope_keys D of Inl _ \<Rightarrow> None | Inr ks \<Rightarrow> Some (map fst ks))"

definition d_owner_only_keys :: "mcp_tool_descriptor \<Rightarrow> scope_key list option" where
  "d_owner_only_keys D =
     (case d_scope_keys D of Inl _ \<Rightarrow> None
      | Inr ks \<Rightarrow> Some (map fst (filter (\<lambda>(_, aud). aud = OwnerOnly) ks)))"

fun d_key_declaration :: "mcp_tool_descriptor \<Rightarrow> scope_key \<Rightarrow> key_declaration" where
  "d_key_declaration D (KeyTool _) = d_declaration D None"
| "d_key_declaration D (KeyAction _ a) = d_declaration D (Some (action_str a))"
| "d_key_declaration D (KeyResource _) = UNDECLARED"

definition d_served_read_keys :: "mcp_tool_descriptor \<Rightarrow> scope_key list option" where
  "d_served_read_keys D =
     map_option (filter (\<lambda>key. declared_is_read (d_key_declaration D key))) (d_palette_keys D)"

definition d_action_advertised_by :: "mcp_tool_descriptor \<Rightarrow> capability_set \<Rightarrow> str \<Rightarrow> bool" where
  "d_action_advertised_by D caps act \<longleftrightarrow>
     list_ex (\<lambda>(known, _). known = act) (d_actions D) \<and>
     (case rbind (tool_name_parse (d_name D)) (\<lambda>t. rbind (action_name_parse act) (\<lambda>a. Inr (t, a))) of
        Inl _ \<Rightarrow> False
      | Inr (t, a) \<Rightarrow> caps_admit_action caps t a (d_declaration D (Some (action_str a))))"

definition d_advertised_by :: "mcp_tool_descriptor \<Rightarrow> capability_set \<Rightarrow> bool" where
  "d_advertised_by D caps =
     (if \<not> d_is_flat D then list_ex (\<lambda>(act, _). d_action_advertised_by D caps act) (d_actions D)
      else (case tool_name_parse (d_name D) of
              Inl _ \<Rightarrow> False
            | Inr t \<Rightarrow> caps_admit caps (KeyTool t) (d_declaration D None)))"

section \<open>The canonical enumerations\<close>

definition sort_dedup_keys :: "scope_key list \<Rightarrow> scope_key list" where
  "sort_dedup_keys ks = remdups_adj (sort_key canonical_bytes ks)"

fun oconcat :: "'a list option list \<Rightarrow> 'a list option" where
  "oconcat [] = Some []"
| "oconcat (x # xs) = Option.bind x (\<lambda>a. Option.bind (oconcat xs) (\<lambda>b. Some (a @ b)))"

definition tool_keys_excluding :: "scope_key list \<Rightarrow> mcp_tool_descriptor \<Rightarrow> scope_key list option" where
  "tool_keys_excluding excluded D =
     (case tool_name_parse (d_name D) of
        Inl _ \<Rightarrow> None
      | Inr name \<Rightarrow>
          if KeyTool name \<in> set excluded then Some []
          else map_option (filter (\<lambda>key. key \<notin> set excluded)) (d_palette_keys D))"

definition excluded_keys :: "str list \<Rightarrow> scope_key list" where
  "excluded_keys ids = List.map_filter (\<lambda>i. case scope_key_parse i of Inl _ \<Rightarrow> None | Inr k \<Rightarrow> Some k) ids"

definition canonical_scope_keys_excluding ::
  "mcp_tool_descriptor list \<Rightarrow> resource_key list \<Rightarrow> resource_key \<Rightarrow> str list \<Rightarrow> scope_key list option" where
  "canonical_scope_keys_excluding tools resources guide exclude =
     (let excluded = excluded_keys exclude in
      map_option (\<lambda>keys. sort_dedup_keys
          (keys @ filter (\<lambda>key. key \<notin> set excluded) (map KeyResource resources) @
           (if KeyResource guide \<notin> set excluded then [KeyResource guide] else [])))
        (oconcat (map (tool_keys_excluding excluded) tools)))"

definition canonical_served_read_keys ::
  "mcp_tool_descriptor list \<Rightarrow> (resource_key \<times> key_declaration) list \<Rightarrow> resource_key \<Rightarrow> scope_key list option" where
  "canonical_served_read_keys tools resources guide =
     map_option (\<lambda>keys. sort_dedup_keys
         (keys @ map (\<lambda>(r, _). KeyResource r) (filter (\<lambda>(_, d). declared_is_read d) resources) @
          [KeyResource guide]))
       (oconcat (map d_served_read_keys tools))"

section \<open>Effects form a semilattice\<close>

lemma effect_cases: "e = ReadOnly \<or> (\<exists>r. e = Additive r) \<or> (\<exists>r. e = Destructive r)"
  by (cases e) auto

lemma effect_join_props [simp]:
  "effect_is_read_only (effect_join a b) \<longleftrightarrow> effect_is_read_only a \<and> effect_is_read_only b"
  "effect_is_destructive (effect_join a b) \<longleftrightarrow> effect_is_destructive a \<or> effect_is_destructive b"
  "effect_replay (effect_join a b) = Idempotent \<longleftrightarrow> effect_replay a = Idempotent \<and> effect_replay b = Idempotent"
  by (cases a; cases b; simp add: effect_join_def)+

lemma replay_neq [simp]: "r \<noteq> Idempotent \<longleftrightarrow> r = NonIdempotent"
  by (cases r) simp_all

lemma effect_eqI:
  assumes "effect_is_read_only a = effect_is_read_only b" "effect_is_destructive a = effect_is_destructive b"
    and "(effect_replay a = Idempotent) = (effect_replay b = Idempotent)"
  shows "a = b"
  using assms by (cases a; cases b; simp; metis replay.exhaust)

interpretation effects: semilattice effect_join
proof
  fix a b c
  show "effect_join (effect_join a b) c = effect_join a (effect_join b c)" by (rule effect_eqI) simp_all
  show "effect_join a b = effect_join b a" by (rule effect_eqI) auto
  show "effect_join a a = a" by (rule effect_eqI) simp_all
qed

lemma effect_foldl:
  "effect_is_read_only (foldl effect_join e es) \<longleftrightarrow> effect_is_read_only e \<and> list_all effect_is_read_only es"
  "effect_is_destructive (foldl effect_join e es) \<longleftrightarrow> effect_is_destructive e \<or> list_ex effect_is_destructive es"
  "effect_replay (foldl effect_join e es) = Idempotent \<longleftrightarrow>
     effect_replay e = Idempotent \<and> list_all (\<lambda>x. effect_replay x = Idempotent) es"
  by (induction es arbitrary: e) simp_all

lemma foldl_effect_mset:
  assumes "mset (a # as) = mset (b # bs)"
  shows "foldl effect_join a as = foldl effect_join b bs"
proof -
  have s: "set (a # as) = set (b # bs)" using assms by (metis set_mset_mset)
  have "list_all P (a # as) = list_all P (b # bs)" "list_ex P (a # as) = list_ex P (b # bs)" for P
    using s by (simp_all only: list_all_iff list_ex_iff)
  then show ?thesis
    by (intro effect_eqI) (simp_all add: effect_foldl)
qed

section \<open>Lemmas on scopes and descriptors\<close>

lemma scope_allows_action_iff [simp]: "scope_allows_action sc t a \<longleftrightarrow> scope_allows sc (KeyAction t a)"
proof (cases sc)
  case (ScopePalette ks)
  have "(case e of KeyAction held act \<Rightarrow> held = t \<and> act = a | _ \<Rightarrow> False) \<longleftrightarrow> e = KeyAction t a" for e
    by (cases e) auto
  then show ?thesis using ScopePalette by (simp add: scope_allows_action_def list_ex_iff)
qed (simp add: scope_allows_action_def)

lemma scope_intersect_allows [simp]:
  "scope_allows (scope_intersect a b) k \<longleftrightarrow> scope_allows a k \<and> scope_allows b k"
  by (cases a; cases b) (auto simp: intersect_keys_def)

lemma surface_intersect_admits [simp]:
  "surface_admits (surface_intersect a b) k d \<longleftrightarrow> surface_admits a k d \<and> surface_admits b k d"
  by (cases a; cases b) (auto simp: surface_admits_def intersect_keys_def)

lemma surface_admits_action_iff [simp]:
  "surface_admits_action sf t a d \<longleftrightarrow> tool_str t \<noteq> RESOURCE_PREFIX \<and> surface_admits sf (KeyAction t a) d"
  by (simp add: surface_admits_action_def scope_key_action_def)

lemma caps_admit_action_iff:
  "caps_admit_action c t a d \<longleftrightarrow> tool_str t \<noteq> RESOURCE_PREFIX \<and> caps_admit c (KeyAction t a) d"
  by (auto simp: caps_admit_action_def caps_admit_def)

lemma rmap_keys:
  "rmap (\<lambda>(act, aud). rbind (action_name_parse act) (\<lambda>a. rbind (scope_key_action t a) (\<lambda>key. Inr (key, aud)))) xs = Inr ks \<longleftrightarrow>
     (\<forall>(act, aud) \<in> set xs. name_ok act) \<and> (xs \<noteq> [] \<longrightarrow> tool_str t \<noteq> RESOURCE_PREFIX) \<and>
     ks = map (\<lambda>(act, aud). (KeyAction t (ActionName act), aud)) xs"
  by (induction xs arbitrary: ks) (auto simp: result_simps scope_key_action_def split: if_splits)

text \<open>The actions of a descriptor with the audience each key is for.\<close>

definition d_audiences :: "mcp_tool_descriptor \<Rightarrow> (str \<times> mcp_tool_audience) list" where
  "d_audiences D =
     (let effective = (\<lambda>aud. if d_audience D = OwnerOnly then OwnerOnly else aud) in
      map (\<lambda>s. (as_action s, effective (as_audience s))) (d_action_arg_specs D) @
      map (\<lambda>s. (av_action s, effective (av_audience s))) (d_argv_action_specs D))"

lemma d_audiences_names: "map fst (d_audiences D) = map fst (d_actions D)"
  by (simp add: d_audiences_def d_actions_def Let_def comp_def)

lemma d_scope_keys_flat:
  "d_is_flat D \<Longrightarrow> d_scope_keys D = Inr ks \<longleftrightarrow> name_ok (d_name D) \<and> ks = [(KeyTool (ToolName (d_name D)), d_audience D)]"
  by (auto simp: d_scope_keys_def result_simps)

lemma d_scope_keys_dispatcher:
  assumes "\<not> d_is_flat D"
  shows "d_scope_keys D = Inr ks \<longleftrightarrow>
    name_ok (d_name D) \<and> d_name D \<noteq> RESOURCE_PREFIX \<and> (\<forall>(act, _) \<in> set (d_audiences D). name_ok act) \<and>
    ks = map (\<lambda>(act, aud). (KeyAction (ToolName (d_name D)) (ActionName act), aud)) (d_audiences D)"
proof -
  have ne: "d_audiences D \<noteq> []" using assms by (auto simp: d_audiences_def d_is_flat_def Let_def)
  have eq: "d_scope_keys D = rbind (tool_name_parse (d_name D)) (\<lambda>t.
      rmap (\<lambda>(act, aud). rbind (action_name_parse act) (\<lambda>a. rbind (scope_key_action t a) (\<lambda>key. Inr (key, aud)))) (d_audiences D))"
    using assms by (simp add: d_scope_keys_def d_audiences_def Let_def)
  show ?thesis
    unfolding eq rbind_eq_Inr name_parse_ok rmap_keys using ne by auto
qed

lemma find_map_unique:
  "distinct (map fst xs) \<Longrightarrow> (a, y) \<in> set xs \<Longrightarrow> find (\<lambda>(b, _). b = a) xs = Some (a, y)"
  by (induction xs) force+

lemma d_declaration_audience:
  assumes "\<not> d_is_flat D" "distinct (map fst (d_actions D))" "(act, aud) \<in> set (d_audiences D)"
  shows "kd_audience (d_declaration D (Some act)) = aud"
proof -
  let ?xs = "map (\<lambda>s. (as_action s, as_effect s, as_audience s)) (d_action_arg_specs D) @
    map (\<lambda>s. (av_action s, av_effect s, av_audience s)) (d_argv_action_specs D)"
  have "map fst ?xs = map fst (d_actions D)" by (simp add: d_actions_def comp_def)
  with assms(2) have dist: "distinct (map fst ?xs)" by simp
  obtain e a where mem: "(act, e, a) \<in> set ?xs"
    and aud: "aud = (if d_audience D = OwnerOnly then OwnerOnly else a)"
    using assms(3) by (auto simp: d_audiences_def Let_def)
  have "find (\<lambda>(declared, _). declared = act) ?xs = Some (act, e, a)"
    by (rule find_map_unique [OF dist mem])
  then have "find (\<lambda>(declared, _, _). declared = act) ?xs = Some (act, e, a)"
    by (simp add: case_prod_beta')
  then show ?thesis
    using assms(1) aud by (cases "d_audience D") (simp_all add: d_declaration_def)
qed

lemma oconcat_Some: "oconcat xs = Some ys \<Longrightarrow> set ys = (\<Union>x \<in> set xs. set (the x)) \<and> None \<notin> set xs"
  by (induction xs arbitrary: ys) (auto simp: bind_eq_Some_conv)

lemma remdups_adj_sorted_key:
  fixes f :: "'a \<Rightarrow> 'b::linorder"
  shows "sorted (map f xs) \<Longrightarrow> inj_on f (set xs) \<Longrightarrow> sorted (map f (remdups_adj xs)) \<and> distinct (remdups_adj xs)"
proof (induction xs rule: remdups_adj.induct)
  case (3 x y xs)
  show ?case
  proof (cases "x = y")
    case True
    then show ?thesis using 3 by (auto simp: insert_commute)
  next
    case False
    have ih: "sorted (map f (remdups_adj (y # xs)))" "distinct (remdups_adj (y # xs))"
      using 3 False by (auto simp: inj_on_def)
    have lt: "f x \<noteq> f y" using 3(4) False by (auto simp: inj_on_def)
    have "x \<noteq> z" if "z \<in> set (y # xs)" for z
    proof -
      have "f x < f y" "f y \<le> f z" using 3(3) lt that by auto
      then show ?thesis by auto
    qed
    then have "x \<notin> set (remdups_adj (y # xs))" by auto
    moreover have "\<forall>z \<in> set (remdups_adj (y # xs)). f x \<le> f z"
      using 3(3) by simp
    ultimately show ?thesis using ih False by simp
  qed
qed simp_all

lemma canonical_bytes_inj_on: "(\<And>k. k \<in> K \<Longrightarrow> scope_key_ok k) \<Longrightarrow> inj_on canonical_bytes K"
  by (intro inj_onI) (metis canonical_bytes_display scope_key_display_ascii scope_key_display_inj utf8_ascii_inj)

lemma sort_dedup_keys_spec:
  assumes "\<And>k. k \<in> set ks \<Longrightarrow> scope_key_ok k"
  shows "set (sort_dedup_keys ks) = set ks \<and> distinct (sort_dedup_keys ks) \<and>
    sorted (map canonical_bytes (sort_dedup_keys ks))"
  using remdups_adj_sorted_key [of canonical_bytes "sort_key canonical_bytes ks"]
    canonical_bytes_inj_on [of "set ks"] assms
  by (simp add: sort_dedup_keys_def)

lemma d_palette_keys_ok:
  assumes "d_palette_keys D = Some ks" "k \<in> set ks"
  shows "scope_key_ok k"
proof -
  obtain kas where kas: "d_scope_keys D = Inr kas" "ks = map fst kas"
    using assms(1) by (auto simp: d_palette_keys_def split: sum.splits)
  show ?thesis
  proof (cases "d_is_flat D")
    case True
    then show ?thesis using kas assms(2) by (auto simp: d_scope_keys_flat)
  next
    case False
    then show ?thesis using kas assms(2) by (auto simp: d_scope_keys_dispatcher)
  qed
qed

lemma Union_if_empty:
  "(\<Union>x \<in> A. if p x then {} else f x - E) = (\<Union>x \<in> {x \<in> A. \<not> p x}. f x) - E"
  by (auto split: if_splits)

lemma tool_keys_excluding_Some:
  assumes "tool_keys_excluding ex D = Some ks"
  shows "if KeyTool (ToolName (d_name D)) \<in> set ex then ks = []
    else (\<exists>ps. d_palette_keys D = Some ps \<and> ks = filter (\<lambda>key. key \<notin> set ex) ps)"
proof -
  from assms obtain nm where nm: "tool_name_parse (d_name D) = Inr nm"
    by (auto simp: tool_keys_excluding_def split: sum.splits)
  then have "nm = ToolName (d_name D)" by (simp add: name_parse_ok)
  with nm assms show ?thesis by (simp add: tool_keys_excluding_def split: if_splits) blast
qed

section \<open>Properties\<close>

text \<open>
  Restricting a capability set by another caller scope and another served surface admits
  exactly what all of them admit, for whole keys and for actions: an intersection never widens
  either side. Admitting an action is admitting its exact key, and a dispatcher named
  \<open>resource\<close> is never admitted.
\<close>

theorem capability_intersection:
  "(caps_admit \<lparr>cs_tool_scope = scope_intersect (cs_tool_scope c) sc, cs_served_surface = surface_intersect (cs_served_surface c) sf\<rparr> k d
      \<longleftrightarrow> caps_admit c k d \<and> scope_allows sc k \<and> surface_admits sf k d) \<and>
   (caps_admit_action \<lparr>cs_tool_scope = scope_intersect (cs_tool_scope c) sc, cs_served_surface = surface_intersect (cs_served_surface c) sf\<rparr> t a d
      \<longleftrightarrow> caps_admit_action c t a d \<and> scope_allows_action sc t a \<and> surface_admits_action sf t a d) \<and>
   (caps_admit_action c t a d \<longleftrightarrow> tool_str t \<noteq> RESOURCE_PREFIX \<and> caps_admit c (KeyAction t a) d)"
  by (auto simp: caps_admit_def caps_admit_action_def)

text \<open>
  The effect of a surface that may run several actions (\<open>ToolEffect::strongest\<close>) exists iff
  there is an action; it is read-only iff every action is, destructive iff some action is,
  idempotent iff every action is, and it does not depend on the order of the actions.
\<close>

theorem effect_strongest_exact:
  "(effect_strongest es = None \<longleftrightarrow> es = []) \<and>
   (mset es = mset fs \<longrightarrow> effect_strongest es = effect_strongest fs) \<and>
   (\<forall>e. effect_strongest es = Some e \<longrightarrow>
      (effect_is_read_only e \<longleftrightarrow> list_all effect_is_read_only es) \<and>
      (effect_is_destructive e \<longleftrightarrow> list_ex effect_is_destructive es) \<and>
      (effect_replay e = Idempotent \<longleftrightarrow> list_all (\<lambda>x. effect_replay x = Idempotent) es))"
proof (intro conjI impI)
  show "effect_strongest es = None \<longleftrightarrow> es = []" by (cases es) simp_all
  assume "mset es = mset fs"
  then show "effect_strongest es = effect_strongest fs"
    by (cases es; cases fs) (auto intro: foldl_effect_mset)
next
  show "\<forall>e. effect_strongest es = Some e \<longrightarrow>
      (effect_is_read_only e \<longleftrightarrow> list_all effect_is_read_only es) \<and>
      (effect_is_destructive e \<longleftrightarrow> list_ex effect_is_destructive es) \<and>
      (effect_replay e = Idempotent \<longleftrightarrow> list_all (\<lambda>x. effect_replay x = Idempotent) es)"
    by (cases es) (auto simp: effect_foldl)
qed

theorem effect_strongest_exact_witness:
  "effect_strongest [ReadOnly, Destructive Idempotent] = effect_strongest [Destructive Idempotent, ReadOnly] \<and>
   (\<exists>e. effect_strongest [ReadOnly, Destructive Idempotent] = Some e \<and> effect_is_destructive e \<and> \<not> effect_is_read_only e)"
proof -
  have "mset [ReadOnly, Destructive Idempotent] = mset [Destructive Idempotent, ReadOnly]" by simp
  then show ?thesis
    using effect_strongest_exact [of "[ReadOnly, Destructive Idempotent]" "[Destructive Idempotent, ReadOnly]"]
    by (simp add: effect_join_def)
qed

text \<open>
  C35. Listing is admission: a registered tool is advertised to a caller exactly when some key of
  its palette is admitted under the declaration of that key, for flat tools and for dispatchers.
\<close>

theorem descriptor_listing_is_admission:
  assumes "d_scope_keys D = Inr ks"
  shows "d_advertised_by D caps \<longleftrightarrow> list_ex (\<lambda>(key, aud). caps_admit caps key (d_key_declaration D key)) ks"
proof (cases "d_is_flat D")
  case True
  then have "name_ok (d_name D)" "ks = [(KeyTool (ToolName (d_name D)), d_audience D)]"
    using assms by (auto simp: d_scope_keys_flat)
  moreover from this have "tool_name_parse (d_name D) = Inr (ToolName (d_name D))" by (simp add: name_parse_ok)
  ultimately show ?thesis using True by (simp add: d_advertised_by_def)
next
  case False
  then have ok: "name_ok (d_name D)" "d_name D \<noteq> RESOURCE_PREFIX"
    and acts: "\<forall>act \<in> fst ` set (d_audiences D). name_ok act"
    and ks: "ks = map (\<lambda>(act, aud). (KeyAction (ToolName (d_name D)) (ActionName act), aud)) (d_audiences D)"
    using assms by (auto simp: d_scope_keys_dispatcher)
  have names: "fst ` set (d_audiences D) = fst ` set (d_actions D)"
    using d_audiences_names [of D] by (metis list.set_map)
  have adv: "d_action_advertised_by D caps act \<longleftrightarrow>
      caps_admit caps (KeyAction (ToolName (d_name D)) (ActionName act)) (d_declaration D (Some act))"
    if "act \<in> fst ` set (d_actions D)" for act
  proof -
    have "tool_name_parse (d_name D) = Inr (ToolName (d_name D))" "action_name_parse act = Inr (ActionName act)"
      using ok(1) acts that names by (auto simp: name_parse_ok)
    then show ?thesis
      using that ok(2) by (force simp: d_action_advertised_by_def list_ex_iff caps_admit_action_iff)
  qed
  have "d_advertised_by D caps \<longleftrightarrow> (\<exists>act \<in> fst ` set (d_actions D). d_action_advertised_by D caps act)"
    using False by (force simp: d_advertised_by_def list_ex_iff)
  also have "\<dots> \<longleftrightarrow> (\<exists>act \<in> fst ` set (d_audiences D).
      caps_admit caps (KeyAction (ToolName (d_name D)) (ActionName act)) (d_declaration D (Some act)))"
    using adv names by auto
  also have "\<dots> \<longleftrightarrow> list_ex (\<lambda>(key, aud). caps_admit caps key (d_key_declaration D key)) ks"
    by (force simp: ks list_ex_iff)
  finally show ?thesis .
qed

definition demo_tool :: mcp_tool_descriptor where
  "demo_tool = \<lparr>d_name = lit ''goal'', d_title = lit ''Goals'',
     d_action_arg_specs = [\<lparr>as_action = lit ''set'', as_title = lit ''Set'', as_allowed_fields = [],
       as_required_fields = [], as_effect = Additive Idempotent, as_audience = Shared\<rparr>],
     d_argv_action_specs = [], d_effect = None, d_audience = Shared\<rparr>"

lemma demo_tool_keys:
  "d_scope_keys demo_tool = Inr [(KeyAction (ToolName (lit ''goal'')) (ActionName (lit ''set'')), Shared)]"
  by (simp add: demo_tool_def d_scope_keys_def d_is_flat_def name_parse_defs validate_name_def
      provider_safe_tool_name_def safe_char_def ascii_defs SEPARATOR_def scope_key_action_def RESOURCE_PREFIX_def)

theorem descriptor_listing_is_admission_witness:
  "d_advertised_by demo_tool capability_all \<and>
   \<not> d_advertised_by demo_tool \<lparr>cs_tool_scope = ScopePalette [KeyTool (ToolName (lit ''goal''))], cs_served_surface = ServeAll\<rparr>"
  unfolding descriptor_listing_is_admission [OF demo_tool_keys]
  by (simp add: caps_admit_def capability_all_def surface_admits_def)

text \<open>
  The owner-only keys of a dispatcher with distinct actions are exactly the palette keys whose
  declaration is for the owner alone, so a listing that leaves them out leaves out no shared key
  and a shared listing shows no owner key.
\<close>

theorem owner_only_keys_exact:
  assumes "d_scope_keys D = Inr ks" and "distinct (map fst (d_actions D))"
  shows "d_owner_only_keys D =
    Some (filter (\<lambda>key. kd_audience (d_key_declaration D key) = OwnerOnly) (map fst ks))"
proof -
  have "aud = kd_audience (d_key_declaration D key)" if "(key, aud) \<in> set ks" for key aud
  proof (cases "d_is_flat D")
    case True
    then show ?thesis using assms(1) that by (auto simp: d_scope_keys_flat d_declaration_def)
  next
    case False
    then show ?thesis
      using assms(1) that d_declaration_audience [OF False assms(2)]
      by (auto simp: d_scope_keys_dispatcher)
  qed
  then have "map fst (filter (\<lambda>(_, aud). aud = OwnerOnly) ks) =
      filter (\<lambda>key. kd_audience (d_key_declaration D key) = OwnerOnly) (map fst ks)"
    unfolding filter_map comp_def by (intro arg_cong [of _ _ "map fst"] filter_cong) auto
  then show ?thesis using assms(1) by (simp add: d_owner_only_keys_def)
qed

theorem owner_only_keys_exact_witness: "d_owner_only_keys demo_tool = Some []"
proof -
  have "distinct (map fst (d_actions demo_tool))" by (simp add: demo_tool_def d_actions_def)
  from owner_only_keys_exact [OF demo_tool_keys this] show ?thesis
    by (simp add: demo_tool_def d_declaration_def d_is_flat_def)
qed

text \<open>
  The canonical enumeration of scope keys is sorted by canonical spelling without duplicates,
  and holds exactly: every palette key of a tool that is not excluded by its bare name, the
  resources and the guide, minus the keys that are excluded exactly.
\<close>

theorem canonical_scope_keys_exact:
  assumes "canonical_scope_keys_excluding tools resources guide exclude = Some keys"
    and "\<forall>r \<in> set (guide # resources). name_ok (resource_name r)"
  shows "sorted (map canonical_bytes keys) \<and> distinct keys \<and>
    set keys = ((\<Union>D \<in> {D \<in> set tools. KeyTool (ToolName (d_name D)) \<notin> set (excluded_keys exclude)}. set (the (d_palette_keys D))) \<union>
      KeyResource ` set (guide # resources)) - set (excluded_keys exclude)"
proof -
  let ?ex = "set (excluded_keys exclude)"
  let ?tail = "filter (\<lambda>key. key \<notin> ?ex) (map KeyResource resources) @
           (if KeyResource guide \<notin> ?ex then [KeyResource guide] else [])"
  obtain tks where tks: "oconcat (map (tool_keys_excluding (excluded_keys exclude)) tools) = Some tks"
    and keys: "keys = sort_dedup_keys (tks @ ?tail)"
    using assms(1) by (auto simp: canonical_scope_keys_excluding_def Let_def)
  note oc = oconcat_Some [OF tks]
  have some: "\<exists>ks. tool_keys_excluding (excluded_keys exclude) D = Some ks" if "D \<in> set tools" for D
    using oc [THEN conjunct2] that by (cases "tool_keys_excluding (excluded_keys exclude) D") (force, simp)
  have "set tks = (\<Union>D \<in> set tools. set (the (tool_keys_excluding (excluded_keys exclude) D)))"
    using oc by simp
  also have "\<dots> = (\<Union>D \<in> set tools. if KeyTool (ToolName (d_name D)) \<in> ?ex then {} else set (the (d_palette_keys D)) - ?ex)"
  proof (rule SUP_cong [OF refl])
    fix D
    assume "D \<in> set tools"
    then obtain ks where "tool_keys_excluding (excluded_keys exclude) D = Some ks" using some by blast
    then show "set (the (tool_keys_excluding (excluded_keys exclude) D)) =
        (if KeyTool (ToolName (d_name D)) \<in> ?ex then {} else set (the (d_palette_keys D)) - ?ex)"
      using tool_keys_excluding_Some [of "excluded_keys exclude" D ks] by (auto split: if_splits)
  qed
  also have "\<dots> = (\<Union>D \<in> {D \<in> set tools. KeyTool (ToolName (d_name D)) \<notin> ?ex}. set (the (d_palette_keys D))) - ?ex"
    by (rule Union_if_empty)
  finally have tks_set: "set tks = (\<Union>D \<in> {D \<in> set tools. KeyTool (ToolName (d_name D)) \<notin> ?ex}. set (the (d_palette_keys D))) - ?ex" .
  have tail_set: "set ?tail = KeyResource ` set (guide # resources) - ?ex" by auto
  have set_all: "set (tks @ ?tail) = ((\<Union>D \<in> {D \<in> set tools. KeyTool (ToolName (d_name D)) \<notin> ?ex}. set (the (d_palette_keys D))) \<union>
      KeyResource ` set (guide # resources)) - ?ex"
    unfolding set_append [of tks] tks_set tail_set by (rule Un_Diff [symmetric])
  have "scope_key_ok k" if k: "k \<in> set (tks @ ?tail)" for k
  proof (cases "k \<in> KeyResource ` set (guide # resources)")
    case True
    then show ?thesis using assms(2) by auto
  next
    case False
    with k [unfolded set_all] obtain D where D: "D \<in> set tools" "KeyTool (ToolName (d_name D)) \<notin> ?ex" "k \<in> set (the (d_palette_keys D))"
      by blast
    obtain ks where "tool_keys_excluding (excluded_keys exclude) D = Some ks" using some [OF D(1)] by blast
    from tool_keys_excluding_Some [OF this] D(2) obtain ps where ps: "d_palette_keys D = Some ps"
      unfolding if_not_P [OF D(2)] by blast
    with D(3) show ?thesis by (intro d_palette_keys_ok [OF ps]) simp
  qed
  then have "set keys = set (tks @ ?tail) \<and> distinct keys \<and> sorted (map canonical_bytes keys)"
    unfolding keys by (intro sort_dedup_keys_spec)
  then show ?thesis unfolding set_all by (elim conjE) (intro conjI)
qed

theorem canonical_scope_keys_exact_witness:
  "\<exists>keys. canonical_scope_keys_excluding [demo_tool] [] (ResourceKey (lit ''how_to'')) [lit ''goal''] = Some keys \<and>
     distinct keys \<and> set keys = {KeyResource (ResourceKey (lit ''how_to''))}"
proof -
  have ex: "excluded_keys [lit ''goal''] = [KeyTool (ToolName (lit ''goal''))]"
    by (simp add: excluded_keys_def map_filter_def scope_key_parse_def strip_prefix_def RESOURCE_PREFIX_def
        SEPARATOR_def name_parse_defs validate_name_def provider_safe_tool_name_def safe_char_def ascii_defs)
  have tn: "tool_name_parse (d_name demo_tool) = Inr (ToolName (lit ''goal''))"
    by (simp add: demo_tool_def name_parse_ok name_ok_def SEPARATOR_def provider_safe_tool_name_def safe_char_def ascii_defs)
  obtain keys where keys: "canonical_scope_keys_excluding [demo_tool] [] (ResourceKey (lit ''how_to'')) [lit ''goal''] = Some keys"
    unfolding canonical_scope_keys_excluding_def ex list.map tool_keys_excluding_def tn by simp
  have "\<forall>r \<in> set (ResourceKey (lit ''how_to'') # []). name_ok (resource_name r)"
    by (simp add: name_ok_def SEPARATOR_def provider_safe_tool_name_def safe_char_def ascii_defs)
  note th = canonical_scope_keys_exact [OF keys this, unfolded ex]
  have none: "{D \<in> set [demo_tool]. KeyTool (ToolName (d_name D)) \<notin> set [KeyTool (ToolName (lit ''goal''))]} = {}"
    by (auto simp: demo_tool_def)
  show ?thesis using th [unfolded none] keys by (intro exI [of _ keys]) simp
qed

end
