(* ===== verification/Publication.thy ===== *)
theory Publication
  imports Access
begin

text \<open>
  Publication of captured Facts (\<open>crates/core/src/publication.rs\<close>): the configured source and
  limits, the host-bound extension attributes, the draft, plan and stamp of one listenable write,
  the position of an event in its subject, and the sealed CloudEvents envelope.

  Third-party code is a parameter: \<open>hyph\<close> and \<open>try_parse\<close> are the uuid crate's lowercase
  hyphenated printer and its parser, \<open>rfc3339\<close> the time crate's formatter, \<open>to_vec\<close> the JSON
  serializer and \<open>blake3\<close> the digest.
\<close>

type_synonym schema_id = str
type_synonym schema_version = u32

section \<open>Source, limits and configuration\<close>

datatype publication_source = PublicationSource (source_str: str)

datatype publication_source_error =
    SourceEmpty
  | IllegalCharacter str
  | NotAbsolute str

definition publication_source_new :: "str \<Rightarrow> (publication_source_error, publication_source) result" where
  "publication_source_new raw =
     (if raw = [] then Inl SourceEmpty
      else if list_ex (\<lambda>c. is_whitespace c \<or> is_control c \<or> c = 34) raw then Inl (IllegalCharacter raw)
      else (case split_once 58 raw of
          None \<Rightarrow> Inl (NotAbsolute raw)
        | Some (scheme, rest) \<Rightarrow>
            if scheme = [] \<or> rest = [] then Inl (NotAbsolute raw)
            else if \<not> is_ascii_alphabetic (hd scheme) \<or>
              \<not> list_all (\<lambda>c. is_ascii_alphanumeric c \<or> c = 43 \<or> c = 45 \<or> c = 46) scheme
            then Inl (NotAbsolute raw)
            else Inr (PublicationSource raw)))"

record publication_limits =
  max_pending :: u64
  max_payload_bytes :: nat

definition default_publication_limits :: publication_limits where
  "default_publication_limits = \<lparr>max_pending = 100000, max_payload_bytes = 524288\<rparr>"

datatype publication_error =
    PayloadTooLarge nat nat
  | CapacityExhausted u64 u64
  | ExportFailed str
  | SourceUnbound str
  | UntypedListenableWrite str

record publication_config =
  pc_source :: "publication_source option"
  pc_limits :: publication_limits

definition publication_config_new :: "publication_source \<Rightarrow> publication_config" where
  "publication_config_new s = \<lparr>pc_source = Some s, pc_limits = default_publication_limits\<rparr>"

definition validate_against :: "publication_config \<Rightarrow> schema_id list \<Rightarrow> (publication_error, unit) result" where
  "validate_against cfg listenable =
     (if pc_source cfg \<noteq> None then Inr ()
      else if listenable = [] then Inr ()
      else Inl (SourceUnbound (join_with (lit '', '') (remdups_adj (sort_key utf8 listenable)))))"

section \<open>Extension attributes\<close>

definition MAX_PUBLICATION_EXTENSIONS :: nat where "MAX_PUBLICATION_EXTENSIONS = 8"
definition MAX_EXTENSION_NAME_CHARS :: nat where "MAX_EXTENSION_NAME_CHARS = 20"
definition MAX_EXTENSION_VALUE_BYTES :: nat where "MAX_EXTENSION_VALUE_BYTES = 256"

definition CLOUDEVENTS_CORE_ATTRIBUTES :: "str list" where
  "CLOUDEVENTS_CORE_ATTRIBUTES =
     [lit ''specversion'', lit ''id'', lit ''source'', lit ''type'', lit ''datacontenttype'',
      lit ''dataschema'', lit ''subject'', lit ''time'', lit ''data'', lit ''data_base64'']"

definition PROXIIMA_EXTENSION_PREFIX :: str where "PROXIIMA_EXTENSION_PREFIX = lit ''proxiima''"

definition SUBSTRATE_EXTENSION_ATTRIBUTES :: "str list" where
  "SUBSTRATE_EXTENSION_ATTRIBUTES = [lit ''sequence'']"

datatype extension_value = EString str | EInteger "32 word" | EBoolean bool

type_synonym publication_extensions = "(str \<times> extension_value) list"

datatype publication_extensions_error =
    EmptyName
  | IllegalNameCharacter str
  | NameTooLong str nat nat
  | CoreAttributeName str
  | ReservedName str str
  | SubstrateAttributeName str
  | EmptyValue str
  | IllegalValueCharacter str
  | ValueTooLong str nat nat
  | DuplicateName str
  | TooMany str nat

definition validate_extension_name :: "str \<Rightarrow> (publication_extensions_error, unit) result" where
  "validate_extension_name name =
     (if name = [] then Inl EmptyName
      else if \<not> list_all (\<lambda>c. is_ascii_lowercase c \<or> is_ascii_digit c) name then Inl (IllegalNameCharacter name)
      else if str_len name > MAX_EXTENSION_NAME_CHARS then Inl (NameTooLong name (str_len name) MAX_EXTENSION_NAME_CHARS)
      else if name \<in> set CLOUDEVENTS_CORE_ATTRIBUTES then Inl (CoreAttributeName name)
      else if name \<in> set SUBSTRATE_EXTENSION_ATTRIBUTES then Inl (SubstrateAttributeName name)
      else if strip_prefix PROXIIMA_EXTENSION_PREFIX name \<noteq> None then Inl (ReservedName name PROXIIMA_EXTENSION_PREFIX)
      else Inr ())"

fun validate_extension_value :: "str \<Rightarrow> extension_value \<Rightarrow> (publication_extensions_error, unit) result" where
  "validate_extension_value name (EString s) =
     (if s = [] then Inl (EmptyValue name)
      else if list_ex is_control s then Inl (IllegalValueCharacter name)
      else if str_len s > MAX_EXTENSION_VALUE_BYTES then Inl (ValueTooLong name (str_len s) MAX_EXTENSION_VALUE_BYTES)
      else Inr ())"
| "validate_extension_value name _ = Inr ()"

definition extensions_bind ::
  "publication_extensions \<Rightarrow> str \<Rightarrow> extension_value \<Rightarrow> (publication_extensions_error, publication_extensions) result" where
  "extensions_bind m name v =
     rbind (validate_extension_name name) (\<lambda>_.
     rbind (validate_extension_value name v) (\<lambda>_.
       if map_of m name \<noteq> None then Inl (DuplicateName name)
       else if length m \<ge> MAX_PUBLICATION_EXTENSIONS then Inl (TooMany name MAX_PUBLICATION_EXTENSIONS)
       else Inr (bt_insert name v m)))"

fun extensions_merged ::
  "publication_extensions \<Rightarrow> publication_extensions \<Rightarrow> (publication_extensions_error, publication_extensions) result" where
  "extensions_merged m [] = Inr m"
| "extensions_merged m ((name, v) # rest) = rbind (extensions_bind m name v) (\<lambda>m'. extensions_merged m' rest)"

definition extension_ok :: "str \<Rightarrow> extension_value \<Rightarrow> bool" where
  "extension_ok name v \<longleftrightarrow> validate_extension_name name = Inr () \<and> validate_extension_value name v = Inr ()"

text \<open>The invariant of the type: name-ordered, bounded, every entry validated.\<close>

definition extensions_ok :: "publication_extensions \<Rightarrow> bool" where
  "extensions_ok m \<longleftrightarrow> bt_sorted m \<and> length m \<le> MAX_PUBLICATION_EXTENSIONS \<and> (\<forall>(name, v) \<in> set m. extension_ok name v)"

section \<open>Draft, plan and stamp\<close>

record publication_draft =
  pd_schema_id :: schema_id
  pd_schema_version :: schema_version
  pd_event_type :: str
  pd_data_schema :: str
  pd_source :: publication_source
  pd_model_id :: "str option"
  pd_owner :: owner_id
  pd_extensions :: publication_extensions
  pd_data :: json

definition data_schema_uri :: "schema_id \<Rightarrow> schema_version \<Rightarrow> str" where
  "data_schema_uri sid v = lit ''proxiima://schema/'' @ sid @ lit ''/'' @ display_nat (unat v)"

definition publication_draft_new ::
  "schema_id \<Rightarrow> schema_version \<Rightarrow> publication_source \<Rightarrow> owner_id \<Rightarrow> str option \<Rightarrow> publication_extensions \<Rightarrow> json \<Rightarrow> publication_draft" where
  "publication_draft_new sid v src w model ext d =
     \<lparr>pd_schema_id = sid, pd_schema_version = v, pd_event_type = sid, pd_data_schema = data_schema_uri sid v,
      pd_source = src, pd_model_id = model, pd_owner = w, pd_extensions = ext, pd_data = d\<rparr>"

record publication_plan =
  pp_draft :: publication_draft
  pp_limits :: publication_limits

record publication_stamp =
  ps_source :: publication_source
  ps_model_id :: "str option"
  ps_extensions :: publication_extensions
  ps_limits :: publication_limits

definition stamp_plan :: "publication_stamp \<Rightarrow> schema_id \<Rightarrow> schema_version \<Rightarrow> owner_id \<Rightarrow> json \<Rightarrow> publication_plan" where
  "stamp_plan st sid v w d =
     \<lparr>pp_draft = publication_draft_new sid v (ps_source st) w (ps_model_id st) (ps_extensions st) d,
      pp_limits = ps_limits st\<rparr>"

section \<open>Positions\<close>

record subject_position =
  sp_subject :: uuid
  sp_sequence :: u64

definition SEQUENCE_DIGITS :: nat where "SEQUENCE_DIGITS = 20"

definition subject_attribute :: "(uuid \<Rightarrow> str) \<Rightarrow> subject_position \<Rightarrow> str" where
  "subject_attribute hyph p = hyph (sp_subject p)"

definition sequence_attribute :: "subject_position \<Rightarrow> str" where
  "sequence_attribute p = zero_pad SEQUENCE_DIGITS (display_nat (unat (sp_sequence p)))"

datatype subject_position_error = BadSubject | BadSequence

text \<open>\<open>str::parse::<u64>\<close> on decimal digits, refusing what does not fit, then \<open>NonZeroU64::new\<close>.\<close>

definition parse_nonzero_u64 :: "str \<Rightarrow> u64 option" where
  "parse_nonzero_u64 s =
     (let n = digits_value s in if n < 2 ^ 64 \<and> n \<noteq> 0 then Some (of_nat n) else None)"

definition subject_position_parse ::
  "(uuid \<Rightarrow> str) \<Rightarrow> (str \<Rightarrow> uuid option) \<Rightarrow> str \<Rightarrow> str \<Rightarrow> (subject_position_error, subject_position) result" where
  "subject_position_parse hyph try_parse subj sq =
     (case try_parse subj of
        None \<Rightarrow> Inl BadSubject
      | Some u \<Rightarrow>
          if hyph u \<noteq> subj then Inl BadSubject
          else if str_len sq \<noteq> SEQUENCE_DIGITS \<or> \<not> list_all is_ascii_digit sq then Inl BadSequence
          else (case parse_nonzero_u64 sq of
              None \<Rightarrow> Inl BadSequence
            | Some n \<Rightarrow> Inr \<lparr>sp_subject = u, sp_sequence = n\<rparr>))"

section \<open>The sealed envelope\<close>

fun extension_json :: "extension_value \<Rightarrow> json" where
  "extension_json (EString s) = JString s"
| "extension_json (EInteger i) = JNumber (NumInt (sint i))"
| "extension_json (EBoolean b) = JBool b"

definition cloud_event_envelope ::
  "(uuid \<Rightarrow> str) \<Rightarrow> publication_draft \<Rightarrow> uuid \<Rightarrow> str \<Rightarrow> subject_position \<Rightarrow> (str \<times> json) list" where
  "cloud_event_envelope hyph d t tm p =
     [(lit ''specversion'', JString (lit ''1.0'')),
      (lit ''id'', JString (hyph t)),
      (lit ''source'', JString (source_str (pd_source d))),
      (lit ''type'', JString (pd_event_type d)),
      (lit ''datacontenttype'', JString (lit ''application/json'')),
      (lit ''dataschema'', JString (pd_data_schema d)),
      (lit ''time'', JString tm),
      (lit ''subject'', JString (subject_attribute hyph p)),
      (lit ''sequence'', JString (sequence_attribute p)),
      (lit ''proxiimaowner'', JString (hyph (owner_uuid (pd_owner d))))] @
     (case pd_model_id d of None \<Rightarrow> [] | Some m \<Rightarrow> [(lit ''proxiimamodel'', JString m)]) @
     map (\<lambda>(name, v). (name, extension_json v)) (pd_extensions d) @
     [(lit ''data'', pd_data d)]"

record sealed_publication =
  sl_id :: uuid
  sl_event_id :: str
  sl_bytes :: "byte list"
  sl_digest :: "byte list"
  sl_event_type :: str
  sl_schema_id :: schema_id
  sl_schema_version :: schema_version

definition seal ::
  "(uuid \<Rightarrow> str) \<Rightarrow> (system_time \<Rightarrow> (str, str) result) \<Rightarrow> (json \<Rightarrow> (str, byte list) result) \<Rightarrow> (byte list \<Rightarrow> byte list) \<Rightarrow>
   publication_plan \<Rightarrow> uuid \<Rightarrow> system_time \<Rightarrow> subject_position \<Rightarrow> (publication_error, sealed_publication) result" where
  "seal hyph rfc3339 to_vec blake3 plan t occurred_at position =
     (let d = pp_draft plan; limits = pp_limits plan in
      rbind (map_err (\<lambda>err. ExportFailed (lit ''memory id '' @ hyph t @ lit '' occurred_at: '' @ err)) (rfc3339 occurred_at)) (\<lambda>tm.
      rbind (map_err ExportFailed (to_vec (JObject (cloud_event_envelope hyph d t tm position)))) (\<lambda>bytes.
        if length bytes > max_payload_bytes limits then Inl (PayloadTooLarge (length bytes) (max_payload_bytes limits))
        else Inr \<lparr>sl_id = t, sl_event_id = hyph t, sl_bytes = bytes, sl_digest = blake3 bytes,
          sl_event_type = pd_event_type d, sl_schema_id = pd_schema_id d, sl_schema_version = pd_schema_version d\<rparr>)))"

section \<open>Lemmas on extension sets\<close>

lemma validate_extension_name_ok:
  assumes "validate_extension_name name = Inr u"
  shows "\<forall>c \<in> set name. c < 128" and "name \<notin> set CLOUDEVENTS_CORE_ATTRIBUTES"
    and "name \<notin> set SUBSTRATE_EXTENSION_ATTRIBUTES" and "\<not> prefix PROXIIMA_EXTENSION_PREFIX name"
  using assms
  by (auto simp: validate_extension_name_def list_all_iff ascii_defs strip_prefix_None split: if_splits)

lemma extension_ok_ascii: "extension_ok name v \<Longrightarrow> \<forall>c \<in> set name. c < 128"
  using validate_extension_name_ok(1) by (auto simp: extension_ok_def)

lemma extensions_bind_Inr:
  "extensions_bind m name v = Inr m' \<longleftrightarrow>
     extension_ok name v \<and> name \<notin> fst ` set m \<and> length m < MAX_PUBLICATION_EXTENSIONS \<and> m' = bt_insert name v m"
  by (auto simp: extensions_bind_def extension_ok_def result_simps map_of_eq_None_iff not_le)

lemma extensions_bind_ok:
  assumes "extensions_ok m" "extensions_bind m name v = Inr m'"
  shows "extensions_ok m'"
proof -
  from assms(2) have b: "extension_ok name v" "name \<notin> fst ` set m" "length m < MAX_PUBLICATION_EXTENSIONS"
    "m' = bt_insert name v m" by (simp_all add: extensions_bind_Inr)
  from assms(1) have m: "bt_sorted m" "\<forall>(n, w) \<in> set m. extension_ok n w" by (simp_all add: extensions_ok_def)
  have "utf8 k \<noteq> utf8 name" if "k \<in> fst ` set m" for k
  proof
    assume eq: "utf8 k = utf8 name"
    from that m(2) obtain w where "extension_ok k w" by auto
    then have "k = name" using utf8_ascii_inj [OF _ _ eq] extension_ok_ascii b(1) by blast
    then show False using that b(2) by simp
  qed
  then have "bt_sorted m'" unfolding b(4) using m(1) b(2) by (intro bt_sorted_insert)
  moreover have "length m' \<le> MAX_PUBLICATION_EXTENSIONS" using b by (simp add: length_bt_insert)
  moreover have "\<forall>(n, w) \<in> set m'. extension_ok n w" using b m(2) by (auto simp: set_bt_insert)
  ultimately show ?thesis by (simp add: extensions_ok_def)
qed

lemma extensions_merged_sound:
  "extensions_merged m rest = Inr c \<Longrightarrow> extensions_ok m \<Longrightarrow> distinct (map fst rest) \<Longrightarrow>
     extensions_ok c \<and> map_of c = map_of m ++ map_of rest \<and> length c = length m + length rest \<and>
     fst ` set m \<inter> fst ` set rest = {}"
proof (induction m rest rule: extensions_merged.induct)
  case (2 m name v rest)
  from "2.prems"(1) obtain m' where m': "extensions_bind m name v = Inr m'" "extensions_merged m' rest = Inr c"
    by (auto simp: result_simps)
  have b: "name \<notin> fst ` set m" "m' = bt_insert name v m" using m'(1) by (simp_all add: extensions_bind_Inr)
  have ih: "extensions_ok c" "map_of c = map_of m' ++ map_of rest" "length c = length m' + length rest"
    "fst ` set m' \<inter> fst ` set rest = {}"
    using "2.IH" [OF m'(2)] extensions_bind_ok [OF "2.prems"(2) m'(1)] "2.prems"(3) by simp_all
  have "name \<notin> dom (map_of rest)" using "2.prems"(3) by (simp add: dom_map_of_conv_image_fst)
  then have "map_of c = map_of m ++ map_of ((name, v) # rest)"
    using ih(2) b(2) by (simp add: map_add_upd_left)
  moreover have "fst ` set m \<inter> fst ` set ((name, v) # rest) = {}"
    using ih(4) b set_bt_insert [OF b(1), of v] by auto
  moreover have "length c = length m + length ((name, v) # rest)"
    using ih(3) b by (simp add: length_bt_insert)
  ultimately show ?case using ih(1) by (intro conjI)
qed simp

lemma extensions_merged_complete:
  "extensions_ok m \<Longrightarrow> (\<forall>(n, v) \<in> set rest. extension_ok n v) \<Longrightarrow> distinct (map fst rest) \<Longrightarrow>
     fst ` set m \<inter> fst ` set rest = {} \<Longrightarrow> length m + length rest \<le> MAX_PUBLICATION_EXTENSIONS \<Longrightarrow>
     \<exists>c. extensions_merged m rest = Inr c"
proof (induction m rest rule: extensions_merged.induct)
  case (2 m name v rest)
  let ?m' = "bt_insert name v m"
  have fresh: "name \<notin> fst ` set m" using "2.prems"(4) by auto
  have b: "extensions_bind m name v = Inr ?m'" using "2.prems"(2,5) fresh by (simp add: extensions_bind_Inr)
  have "fst ` set ?m' \<inter> fst ` set rest = {}"
    using "2.prems"(3,4) by (auto simp: set_bt_insert [OF fresh])
  moreover have "length ?m' + length rest \<le> MAX_PUBLICATION_EXTENSIONS"
    using "2.prems"(5) by (simp add: length_bt_insert [OF fresh])
  ultimately obtain c where "extensions_merged ?m' rest = Inr c"
    using "2.IH" [OF extensions_bind_ok [OF "2.prems"(1) b]] "2.prems"(2,3) by auto
  then show ?case using b by simp
qed simp

lemma extensions_ok_distinct: "extensions_ok m \<Longrightarrow> distinct (map fst m)"
  by (simp add: extensions_ok_def bt_sorted_distinct)

section \<open>Lemmas on positions\<close>

lemma sequence_attribute_digits: "\<forall>c \<in> set (sequence_attribute p). is_ascii_digit c"
  by (auto simp: sequence_attribute_def zero_pad_def is_ascii_digit_def dest: display_nat_digits)

lemma length_sequence_attribute: "length (sequence_attribute p) = 20"
proof -
  have "unat (sp_sequence p) < 10 ^ Suc 19" by (rule less_trans [OF unat_u64]) simp
  from length_display_nat [OF this] show ?thesis
    by (simp add: sequence_attribute_def SEQUENCE_DIGITS_def length_zero_pad)
qed

lemma sequence_attribute_value: "digits_value (sequence_attribute p) = unat (sp_sequence p)"
  by (simp add: sequence_attribute_def)

lemma digits_ascii: "\<forall>c \<in> set s. is_ascii_digit c \<Longrightarrow> \<forall>c \<in> set s. c < 128"
  by (auto simp: is_ascii_digit_def)

lemma utf8_digits_order:
  "\<forall>c \<in> set s. is_ascii_digit c \<Longrightarrow> \<forall>c \<in> set t. is_ascii_digit c \<Longrightarrow> str_less s t \<longleftrightarrow> s < t"
proof (induction s arbitrary: t)
  case Nil
  then show ?case by (cases t) (auto simp: str_less_def utf8_char_def)
next
  case (Cons x s)
  show ?case
  proof (cases t)
    case (Cons y t')
    have xy: "x < 128" "y < 128" using Cons.prems Cons by (auto simp: is_ascii_digit_def)
    then have ord: "(of_nat x :: byte) < of_nat y \<longleftrightarrow> x < y" "(of_nat x :: byte) = of_nat y \<longleftrightarrow> x = y"
      by (simp_all add: word_less_nat_alt word_unat_eq_iff unat_of_nat)
    have "str_less s t' \<longleftrightarrow> s < t'" using Cons.IH [of t'] Cons.prems Cons by simp
    then show ?thesis using xy ord Cons by (simp add: str_less_def utf8_char_def)
  qed (simp add: str_less_def)
qed

section \<open>Properties\<close>

text \<open>
  Host-bound extension attributes are additive: merging two valid sets succeeds exactly when
  no name is bound on both sides and the union is within the ceiling; then the result is a valid
  name-ordered set in which every attribute of either side keeps its value.
\<close>

theorem extensions_merge_additive:
  assumes "extensions_ok a" and "extensions_ok b"
  shows "((\<exists>c. extensions_merged a b = Inr c) \<longleftrightarrow>
      fst ` set a \<inter> fst ` set b = {} \<and> length a + length b \<le> MAX_PUBLICATION_EXTENSIONS) \<and>
    (\<forall>c. extensions_merged a b = Inr c \<longrightarrow>
      extensions_ok c \<and> map_of c = map_of a ++ map_of b \<and> map_of c = map_of b ++ map_of a)"
proof (intro conjI allI impI)
  note d = extensions_ok_distinct [OF assms(2)]
  have ok_b: "\<forall>(n, v) \<in> set b. extension_ok n v" using assms(2) by (simp add: extensions_ok_def)
  show "(\<exists>c. extensions_merged a b = Inr c) \<longleftrightarrow>
      fst ` set a \<inter> fst ` set b = {} \<and> length a + length b \<le> MAX_PUBLICATION_EXTENSIONS"
  proof
    assume "\<exists>c. extensions_merged a b = Inr c"
    then obtain c where c: "extensions_merged a b = Inr c" ..
    from extensions_merged_sound [OF c assms(1) d]
    show "fst ` set a \<inter> fst ` set b = {} \<and> length a + length b \<le> MAX_PUBLICATION_EXTENSIONS"
      by (simp add: extensions_ok_def)
  qed (use extensions_merged_complete [OF assms(1) ok_b d] in blast)
  fix c
  assume c: "extensions_merged a b = Inr c"
  note s = extensions_merged_sound [OF c assms(1) d]
  show "extensions_ok c" "map_of c = map_of a ++ map_of b" using s by simp_all
  have "dom (map_of a) \<inter> dom (map_of b) = {}" using s by (simp add: dom_map_of_conv_image_fst)
  then show "map_of c = map_of b ++ map_of a" using s by (metis map_add_comm)
qed

theorem extensions_merge_additive_witness:
  "\<exists>c. extensions_merged [(lit ''run'', EBoolean True)] [(lit ''step'', EInteger 3)] = Inr c \<and>
     map_of c (lit ''run'') = Some (EBoolean True) \<and> map_of c (lit ''step'') = Some (EInteger 3)"
proof -
  let ?a = "[(lit ''run'', EBoolean True)]" and ?b = "[(lit ''step'', EInteger 3)]"
  have a: "extensions_ok ?a" and b: "extensions_ok ?b"
    by (simp_all add: extensions_ok_def extension_ok_def validate_extension_name_def MAX_PUBLICATION_EXTENSIONS_def
        ascii_defs str_len_def utf8_char_def MAX_EXTENSION_NAME_CHARS_def CLOUDEVENTS_CORE_ATTRIBUTES_def
        SUBSTRATE_EXTENSION_ATTRIBUTES_def strip_prefix_def PROXIIMA_EXTENSION_PREFIX_def)
  note th = extensions_merge_additive [OF a b]
  have "fst ` set ?a \<inter> fst ` set ?b = {} \<and> length ?a + length ?b \<le> MAX_PUBLICATION_EXTENSIONS"
    by (simp add: MAX_PUBLICATION_EXTENSIONS_def)
  with th obtain c where c: "extensions_merged ?a ?b = Inr c" by blast
  with th have "map_of c = map_of ?a ++ map_of ?b" by blast
  with c show ?thesis by (intro exI [of _ c]) simp
qed

text \<open>
  A position survives the wire: what \<open>subject_attribute\<close> and \<open>sequence_attribute\<close> print parses
  back to the same position, and only that spelling parses, so equal positions are equal pairs of
  strings. The uuid printer and parser are assumed inverse on printed text.
\<close>

lemma subject_position_roundtrip:
  assumes "\<forall>u. try_parse (hyph u) = Some u" and "sp_sequence p \<noteq> 0"
  shows "subject_position_parse hyph try_parse subj sq = Inr p \<longleftrightarrow>
    subj = subject_attribute hyph p \<and> sq = sequence_attribute p"
proof
  assume "subject_position_parse hyph try_parse subj sq = Inr p"
  then obtain u n where u: "try_parse subj = Some u" "hyph u = subj" and len: "str_len sq = SEQUENCE_DIGITS"
    and dig: "\<forall>c \<in> set sq. is_ascii_digit c" and n: "parse_nonzero_u64 sq = Some n"
    and p: "p = \<lparr>sp_subject = u, sp_sequence = n\<rparr>"
    by (auto simp: subject_position_parse_def list_all_iff split: option.splits if_splits)
  have v: "unat (sp_sequence p) = digits_value sq"
    using n p by (auto simp: parse_nonzero_u64_def Let_def unat_of_nat split: if_splits)
  have "length sq = 20" using len str_len_ascii [OF digits_ascii [OF dig]] by (simp add: SEQUENCE_DIGITS_def)
  then have "sq = sequence_attribute p"
    using v by (intro digits_unique dig sequence_attribute_digits)
      (simp_all add: length_sequence_attribute sequence_attribute_value)
  then show "subj = subject_attribute hyph p \<and> sq = sequence_attribute p"
    using u p by (simp add: subject_attribute_def)
next
  assume eq: "subj = subject_attribute hyph p \<and> sq = sequence_attribute p"
  have "str_len (sequence_attribute p) = 20"
    using str_len_ascii [OF digits_ascii [OF sequence_attribute_digits]] by (simp add: length_sequence_attribute)
  moreover have "parse_nonzero_u64 (sequence_attribute p) = Some (sp_sequence p)"
    using assms(2) unat_u64 [of "sp_sequence p"]
    by (simp add: parse_nonzero_u64_def sequence_attribute_value unat_eq_zero Let_def)
  ultimately show "subject_position_parse hyph try_parse subj sq = Inr p"
    using eq assms(1) sequence_attribute_digits [of p]
    by (simp add: subject_position_parse_def subject_attribute_def SEQUENCE_DIGITS_def list_all_iff)
qed

text \<open>
  The string order of the \<open>sequence\<close> attribute is the numeric order of positions, for every
  64-bit sequence: zero padding to twenty digits never truncates and never reorders.
\<close>

lemma sequence_attribute_order:
  "str_less (sequence_attribute p) (sequence_attribute q) \<longleftrightarrow> sp_sequence p < sp_sequence q"
proof -
  note dp = sequence_attribute_digits [of p] and dq = sequence_attribute_digits [of q]
  have "str_less (sequence_attribute p) (sequence_attribute q) \<longleftrightarrow>
      digits_value (sequence_attribute p) < digits_value (sequence_attribute q)"
    using utf8_digits_order [OF dp dq] digits_order [OF _ dp dq] by (simp add: length_sequence_attribute)
  then show ?thesis by (simp add: sequence_attribute_value word_less_nat_alt)
qed

text \<open>
  A sealed event is bounded and self-consistent: its bytes are the serialized envelope, within
  the payload limit of its own plan, with their digest; no attribute name occurs twice in the
  envelope, so a host-bound extension never shadows an attribute the substrate writes; and the
  source, type, owner and data are those of the draft.
\<close>

theorem seal_envelope:
  assumes "seal hyph rfc3339 to_vec blake3 plan t occurred_at position = Inr s"
    and "extensions_ok (pd_extensions (pp_draft plan))"
  shows "\<exists>tm. rfc3339 occurred_at = Inr tm \<and>
    to_vec (JObject (cloud_event_envelope hyph (pp_draft plan) t tm position)) = Inr (sl_bytes s) \<and>
    sl_digest s = blake3 (sl_bytes s) \<and> length (sl_bytes s) \<le> max_payload_bytes (pp_limits plan) \<and>
    sl_id s = t \<and> sl_event_id s = hyph t \<and>
    distinct (map fst (cloud_event_envelope hyph (pp_draft plan) t tm position))"
proof -
  let ?d = "pp_draft plan"
  from assms(1) obtain tm bytes where r: "rfc3339 occurred_at = Inr tm"
    "to_vec (JObject (cloud_event_envelope hyph ?d t tm position)) = Inr bytes"
    "length bytes \<le> max_payload_bytes (pp_limits plan)" "sl_bytes s = bytes" "sl_digest s = blake3 bytes"
    "sl_id s = t" "sl_event_id s = hyph t"
    by (auto simp: seal_def Let_def result_simps split: if_splits)
  have names: "fst x \<notin> set CLOUDEVENTS_CORE_ATTRIBUTES \<and> fst x \<notin> set SUBSTRATE_EXTENSION_ATTRIBUTES \<and>
      \<not> prefix PROXIIMA_EXTENSION_PREFIX (fst x)" if "x \<in> set (pd_extensions ?d)" for x
    using assms(2) that validate_extension_name_ok [of "fst x" "()"]
    by (auto simp: extensions_ok_def extension_ok_def)
  let ?E = "map fst (pd_extensions ?d)"
  have dist: "distinct ?E" using extensions_ok_distinct [OF assms(2)] .
  have free: "lit n \<notin> set ?E" if "lit n \<in> set CLOUDEVENTS_CORE_ATTRIBUTES \<or> lit n \<in> set SUBSTRATE_EXTENSION_ATTRIBUTES \<or>
      prefix PROXIIMA_EXTENSION_PREFIX (lit n)" for n
    using names that by fastforce
  have "distinct (map fst (cloud_event_envelope hyph ?d t tm position))"
    using dist free [of "''specversion''"] free [of "''id''"] free [of "''source''"] free [of "''type''"]
      free [of "''datacontenttype''"] free [of "''dataschema''"] free [of "''time''"] free [of "''subject''"]
      free [of "''sequence''"] free [of "''proxiimaowner''"] free [of "''proxiimamodel''"] free [of "''data''"]
    by (cases "pd_model_id ?d")
      (simp_all add: cloud_event_envelope_def CLOUDEVENTS_CORE_ATTRIBUTES_def SUBSTRATE_EXTENSION_ATTRIBUTES_def
        PROXIIMA_EXTENSION_PREFIX_def comp_def case_prod_beta')
  with r show ?thesis by (intro exI [of _ tm]) simp
qed

theorem seal_envelope_witness:
  "\<exists>s. seal (\<lambda>u. [unat u]) (\<lambda>_. Inr []) (\<lambda>_. Inr [1, 2]) id
      \<lparr>pp_draft = publication_draft_new (lit ''s'') 1 (PublicationSource (lit ''urn:x'')) (OwnerId 1) None [] JNull,
       pp_limits = default_publication_limits\<rparr> 7 0 \<lparr>sp_subject = 5, sp_sequence = 7\<rparr> = Inr s \<and>
     length (sl_bytes s) \<le> 524288 \<and> sl_id s = 7"
proof -
  let ?plan = "\<lparr>pp_draft = publication_draft_new (lit ''s'') 1 (PublicationSource (lit ''urn:x'')) (OwnerId 1) None [] JNull,
       pp_limits = default_publication_limits\<rparr>"
  obtain s where s: "seal (\<lambda>u. [unat u]) (\<lambda>_. Inr []) (\<lambda>_. Inr [1, 2]) id ?plan 7 0 \<lparr>sp_subject = 5, sp_sequence = 7\<rparr> = Inr s"
    by (simp add: seal_def default_publication_limits_def Let_def)
  have "extensions_ok (pd_extensions (pp_draft ?plan))"
    by (simp add: publication_draft_new_def extensions_ok_def)
  from seal_envelope [OF s this] s show ?thesis
    by (intro exI [of _ s]) (simp add: default_publication_limits_def)
qed

end
