(* ===== verification/OwnerScope.thy ===== *)
theory OwnerScope
  imports Access
begin

text \<open>
  The sealed owner witness (\<open>crates/core/src/owner_scope.rs\<close>) with the writer attribution it
  carries (\<open>crates/core/src/authz.rs\<close>) and the Goal principal lane
  (\<open>crates/core/src/goal_collaboration.rs\<close>). \<open>SystemTime::now()\<close> is the argument \<open>now\<close>. The scope
  interprets the contract \<open>kind_authority\<close> at every instant.
\<close>

record writer_attribution =
  wa_by :: uuid
  wa_via :: "uuid option"

datatype goal_principal_scope = GoalPrincipalScope (gp_subject: user_id)

record owner_scope =
  os_roles :: owner_roles
  os_writer :: writer_attribution
  os_expires_at :: "system_time option"
  os_selected :: "owner_id option"
  os_goal_principal :: "goal_principal_scope option"

definition from_verified_roles :: "owner_roles \<Rightarrow> system_time option \<Rightarrow> writer_attribution \<Rightarrow> owner_scope" where
  "from_verified_roles R ex wr =
     \<lparr>os_roles = R, os_writer = wr, os_expires_at = ex, os_selected = None, os_goal_principal = None\<rparr>"

definition os_is_expired :: "system_time \<Rightarrow> owner_scope \<Rightarrow> bool" where
  "os_is_expired now S = is_some_and (os_expires_at S) (\<lambda>deadline. deadline \<le> now)"

definition os_add_group_role :: "system_time \<Rightarrow> owner_scope \<Rightarrow> group_id \<Rightarrow> role \<Rightarrow> owner_scope option" where
  "os_add_group_role now S g r =
     (if os_selected S \<noteq> None \<or> os_is_expired now S then None
      else Some \<lparr>os_roles = with_group_role (os_roles S) g r, os_writer = os_writer S,
        os_expires_at = os_expires_at S, os_selected = None, os_goal_principal = os_goal_principal S\<rparr>)"

definition os_narrow :: "owner_scope \<Rightarrow> owner_id \<Rightarrow> owner_scope option" where
  "os_narrow S w =
     Option.bind (role_for (os_roles S) w) (\<lambda>r.
       Some \<lparr>os_roles = scoped_to (or_subject (os_roles S)) w r, os_writer = os_writer S,
         os_expires_at = os_expires_at S, os_selected = Some w, os_goal_principal = None\<rparr>)"

definition os_with_goal_principal :: "owner_scope \<Rightarrow> goal_principal_scope \<Rightarrow> owner_scope" where
  "os_with_goal_principal S p = (if os_selected S = None then S\<lparr>os_goal_principal := Some p\<rparr> else S)"

definition os_goal_principal_at :: "system_time \<Rightarrow> owner_scope \<Rightarrow> goal_principal_scope option" where
  "os_goal_principal_at now S = (if os_is_expired now S then None else os_goal_principal S)"

definition os_subject :: "owner_scope \<Rightarrow> user_id" where
  "os_subject S = or_subject (os_roles S)"

definition os_role_for_owner :: "owner_scope \<Rightarrow> owner_id \<Rightarrow> role option" where
  "os_role_for_owner S w = role_for (os_roles S) w"

definition os_may_read :: "system_time \<Rightarrow> owner_scope \<Rightarrow> owner_id \<Rightarrow> access_kind \<Rightarrow> bool" where
  "os_may_read now S w k \<longleftrightarrow> \<not> os_is_expired now S \<and> roles_may_read (os_roles S) w k"

definition os_may_write :: "system_time \<Rightarrow> owner_scope \<Rightarrow> owner_id \<Rightarrow> access_kind \<Rightarrow> bool" where
  "os_may_write now S w k \<longleftrightarrow> \<not> os_is_expired now S \<and> roles_may_write (os_roles S) w k"

definition os_readable_owners :: "system_time \<Rightarrow> owner_scope \<Rightarrow> access_kind \<Rightarrow> owner_id list" where
  "os_readable_owners now S k = (if os_is_expired now S then [] else roles_readable_owners (os_roles S) k)"

definition os_managed_owners :: "system_time \<Rightarrow> owner_scope \<Rightarrow> owner_id list" where
  "os_managed_owners now S =
     filter (\<lambda>w. is_some_and (os_role_for_owner S w) role_manage) (os_readable_owners now S KFact)"

definition os_writable_owners :: "system_time \<Rightarrow> owner_scope \<Rightarrow> access_kind \<Rightarrow> owner_id list" where
  "os_writable_owners now S k = (if os_is_expired now S then [] else roles_writable_owners (os_roles S) k)"

text \<open>
  The invariant of a sealed scope: a well-formed role map; a selected scope holds only the
  selected owner and no Goal principal; a Goal principal is the subject itself.
\<close>

definition owner_scope_ok :: "owner_scope \<Rightarrow> bool" where
  "owner_scope_ok S \<longleftrightarrow> owner_roles_ok (os_roles S) \<and>
     (\<forall>w. os_selected S = Some w \<longrightarrow>
        (\<forall>v. role_for (os_roles S) v \<noteq> None \<longleftrightarrow> v = w) \<and> os_goal_principal S = None) \<and>
     (\<forall>p. os_goal_principal S = Some p \<longrightarrow> gp_subject p = os_subject S)"

section \<open>Lemmas\<close>

lemma roles_may_scoped_to [simp]:
  "roles_may_read (scoped_to s w r) v k \<longleftrightarrow> v = w \<and> role_may_read r k"
  "roles_may_write (scoped_to s w r) v k \<longleftrightarrow> v = w \<and> role_may_write r k"
  by (simp_all add: roles_may_read_def roles_may_write_def)

lemma owner_scope_ok_from_verified:
  "owner_roles_ok R \<Longrightarrow> owner_scope_ok (from_verified_roles R ex wr)"
  by (simp add: owner_scope_ok_def from_verified_roles_def)

lemma os_narrow_Some:
  "os_narrow S w = Some S' \<longleftrightarrow>
     (\<exists>r. role_for (os_roles S) w = Some r \<and>
       S' = \<lparr>os_roles = scoped_to (os_subject S) w r, os_writer = os_writer S,
         os_expires_at = os_expires_at S, os_selected = Some w, os_goal_principal = None\<rparr>)"
  by (auto simp: os_narrow_def os_subject_def bind_eq_Some_conv)

lemma owner_scope_ok_narrow:
  assumes "owner_scope_ok S" "os_narrow S w = Some S'"
  shows "owner_scope_ok S'"
proof -
  from assms(2) obtain r where r: "role_for (os_roles S) w = Some r"
    and S': "S' = \<lparr>os_roles = scoped_to (os_subject S) w r, os_writer = os_writer S,
         os_expires_at = os_expires_at S, os_selected = Some w, os_goal_principal = None\<rparr>"
    by (auto simp: os_narrow_Some)
  from assms(1) have ok: "owner_roles_ok (os_roles S)" by (simp add: owner_scope_ok_def)
  have "owner_roles_ok (scoped_to (os_subject S) w r)"
    using owner_roles_okD(2,3) [OF ok] r by (intro owner_roles_ok_scoped_to) (auto simp: os_subject_def)
  then show ?thesis by (simp add: owner_scope_ok_def S')
qed

lemma owner_scope_ok_add_group:
  assumes "owner_scope_ok S" "role_ok r" "os_add_group_role now S g r = Some S'"
  shows "owner_scope_ok S'"
  using assms by (auto simp: owner_scope_ok_def os_add_group_role_def os_subject_def split: if_splits)

lemma owner_scope_ok_goal_principal:
  assumes "owner_scope_ok S" "gp_subject p = os_subject S"
  shows "owner_scope_ok (os_with_goal_principal S p)"
  using assms by (auto simp: owner_scope_ok_def os_with_goal_principal_def os_subject_def)

interpretation owner_scope_kind: kind_authority owner_scope_ok "os_may_read now" "os_may_write now" for now
proof unfold_locales
  fix S w k
  assume "owner_scope_ok S" and "os_may_write now S w k"
  then show "os_may_read now S w k"
    by (simp add: owner_scope_ok_def os_may_read_def os_may_write_def owner_roles_kind.write_reads)
qed (auto simp: os_may_read_def os_may_write_def intro: owner_roles_kind.read_down owner_roles_kind.write_down)

lemma os_narrow_never_widens:
  assumes "os_narrow S w = Some S'"
  shows "os_may_read now S' v k \<longleftrightarrow> v = w \<and> os_may_read now S v k"
    and "os_may_write now S' v k \<longleftrightarrow> v = w \<and> os_may_write now S v k"
  using assms
  by (auto simp: os_narrow_Some os_may_read_def os_may_write_def os_is_expired_def roles_may_read_def
      roles_may_write_def split: if_splits)

lemma os_expired_closed:
  assumes "os_is_expired now S"
  shows "\<not> os_may_read now S w k" "\<not> os_may_write now S w k" "os_readable_owners now S k = []"
    "os_writable_owners now S k = []" "os_managed_owners now S = []" "os_goal_principal_at now S = None"
    "os_add_group_role now S g r = None"
  using assms by (simp_all add: os_may_read_def os_may_write_def os_readable_owners_def os_writable_owners_def
      os_managed_owners_def os_goal_principal_at_def os_add_group_role_def)

section \<open>Properties\<close>

text \<open>
  C38. Narrowing a sealed scope is exact and irreversible. It succeeds iff the scope carries a role
  for the owner; the result grants on that owner what the scope granted, nothing on any other
  owner, keeps writer and deadline, drops the Goal principal, narrows again only to the same
  owner, and never takes another group role.
\<close>

theorem os_narrow_exact:
  "(os_narrow S w = None \<longleftrightarrow> os_role_for_owner S w = None) \<and>
   (\<forall>S'. os_narrow S w = Some S' \<longrightarrow>
      (\<forall>v k. (os_may_read now S' v k \<longleftrightarrow> v = w \<and> os_may_read now S v k) \<and>
        (os_may_write now S' v k \<longleftrightarrow> v = w \<and> os_may_write now S v k)) \<and>
      os_writer S' = os_writer S \<and> os_expires_at S' = os_expires_at S \<and> os_goal_principal S' = None \<and>
      (\<forall>v. os_narrow S' v \<noteq> None \<longleftrightarrow> v = w) \<and> (\<forall>g r. os_add_group_role now S' g r = None))"
proof (intro conjI allI impI)
  show "os_narrow S w = None \<longleftrightarrow> os_role_for_owner S w = None"
    by (cases "role_for (os_roles S) w") (simp_all add: os_narrow_def os_role_for_owner_def)
  fix S'
  assume n: "os_narrow S w = Some S'"
  show "os_may_read now S' v k \<longleftrightarrow> v = w \<and> os_may_read now S v k"
    and "os_may_write now S' v k \<longleftrightarrow> v = w \<and> os_may_write now S v k" for v k
    by (rule os_narrow_never_widens [OF n])+
  show "os_writer S' = os_writer S" "os_expires_at S' = os_expires_at S" "os_goal_principal S' = None"
    using n by (auto simp: os_narrow_Some)
  show "os_narrow S' v \<noteq> None \<longleftrightarrow> v = w" for v
    using n by (auto simp: os_narrow_Some os_narrow_def [of S'] split: if_splits)
  show "os_add_group_role now S' g r = None" for g r
    using n by (auto simp: os_narrow_Some os_add_group_role_def)
qed

theorem os_narrow_exact_witness:
  "\<exists>S'. os_narrow (from_verified_roles (scoped_to (UserId 1) (OwnerId 2) role_viewer) None \<lparr>wa_by = 1, wa_via = None\<rparr>) (OwnerId 2) = Some S' \<and>
     os_goal_principal S' = None \<and> os_narrow S' (OwnerId 3) = None"
proof -
  let ?S = "from_verified_roles (scoped_to (UserId 1) (OwnerId 2) role_viewer) None \<lparr>wa_by = 1, wa_via = None\<rparr>"
  note th = os_narrow_exact [of ?S "OwnerId 2" 0]
  obtain S' where S': "os_narrow ?S (OwnerId 2) = Some S'"
    by (simp add: os_narrow_def from_verified_roles_def)
  have "os_goal_principal S' = None" and "os_narrow S' (OwnerId 3) \<noteq> None \<longleftrightarrow> OwnerId 3 = OwnerId 2"
    using th S' by blast+
  then show ?thesis using S' by simp
qed

text \<open>
  An expired scope is closed: at or past its deadline it reads nothing, writes nothing, lists
  no owners, exposes no Goal principal and takes no new role, whatever roles it holds.
\<close>

theorem os_expired_denies:
  assumes "os_expires_at S = Some deadline" and "deadline \<le> now"
  shows "\<not> os_may_read now S w k \<and> \<not> os_may_write now S w k \<and> os_readable_owners now S k = [] \<and>
    os_writable_owners now S k = [] \<and> os_managed_owners now S = [] \<and> os_goal_principal_at now S = None \<and>
    os_add_group_role now S g r = None"
proof -
  have "os_is_expired now S" using assms by (simp add: os_is_expired_def)
  then show ?thesis by (simp add: os_expired_closed)
qed

theorem os_expired_denies_witness:
  "os_readable_owners 5 (from_verified_roles (empty_for_subject (UserId 1)) (Some 5) \<lparr>wa_by = 1, wa_via = None\<rparr>) KFact = []"
  using os_expired_denies [of "from_verified_roles (empty_for_subject (UserId 1)) (Some 5) \<lparr>wa_by = 1, wa_via = None\<rparr>" 5 5]
  by (simp add: from_verified_roles_def)

end
