(* ===== verification/Errors.thy ===== *)
theory Errors
  imports Prelude
begin

text \<open>
  The engine-wide error envelope (\<open>crates/core/src/error.rs\<close>): the codes with their wire labels
  and one definition per constructor, messages included. \<open>hyph\<close> is the uuid printer.
\<close>

datatype error_code =
    AuthRequired
  | Forbidden
  | UnknownSchema
  | AlreadyIngested
  | IdempotencyConflict
  | NotFound
  | InvalidArgument
  | ToolNotRegistered
  | TriggerConflict
  | DuplicateTriggerInRequest
  | Suppressed
  | CapacityExhaustedCode
  | Internal

fun error_code_as_str :: "error_code \<Rightarrow> str" where
  "error_code_as_str AuthRequired = lit ''auth_required''"
| "error_code_as_str Forbidden = lit ''forbidden''"
| "error_code_as_str UnknownSchema = lit ''unknown_schema''"
| "error_code_as_str AlreadyIngested = lit ''already_ingested''"
| "error_code_as_str IdempotencyConflict = lit ''idempotency_conflict''"
| "error_code_as_str NotFound = lit ''not_found''"
| "error_code_as_str InvalidArgument = lit ''invalid_argument''"
| "error_code_as_str ToolNotRegistered = lit ''tool_not_registered''"
| "error_code_as_str TriggerConflict = lit ''trigger_conflict''"
| "error_code_as_str DuplicateTriggerInRequest = lit ''duplicate_trigger_in_request''"
| "error_code_as_str Suppressed = lit ''suppressed''"
| "error_code_as_str CapacityExhaustedCode = lit ''capacity_exhausted''"
| "error_code_as_str Internal = lit ''internal''"

record protocol_error =
  pe_code :: error_code
  pe_message :: str
  pe_request_id :: "str option"
  pe_existing :: "uuid option"

definition plain_error :: "error_code \<Rightarrow> str \<Rightarrow> protocol_error" where
  "plain_error c msg = \<lparr>pe_code = c, pe_message = msg, pe_request_id = None, pe_existing = None\<rparr>"

definition forbidden :: "str \<Rightarrow> protocol_error" where
  "forbidden msg = plain_error Forbidden msg"

definition unknown_schema :: "str \<Rightarrow> u32 \<Rightarrow> protocol_error" where
  "unknown_schema sid v = plain_error UnknownSchema (lit ''schema not registered: '' @ sid @ lit '' v'' @ display_nat (unat v))"

definition idempotency_conflict :: "(uuid \<Rightarrow> str) \<Rightarrow> str \<Rightarrow> uuid option \<Rightarrow> protocol_error" where
  "idempotency_conflict hyph key existing =
     \<lparr>pe_code = IdempotencyConflict,
      pe_message = (case existing of
          Some h \<Rightarrow> lit ''idempotency_key '' @ key @ lit '' already names '' @ hyph h @
            lit '' with other content; resend it unchanged to replay, or write a new version with a new key and supersedes: '' @ hyph h
        | None \<Rightarrow> lit ''idempotency_key '' @ key @
            lit '' already names a write with other content; resend it unchanged to replay, or write a new version with a new key and supersedes''),
      pe_request_id = None, pe_existing = existing\<rparr>"

definition scope_not_registered :: "(uuid \<Rightarrow> str) \<Rightarrow> str \<Rightarrow> uuid \<Rightarrow> protocol_error" where
  "scope_not_registered hyph kind i = plain_error NotFound (lit ''scope not registered: '' @ kind @ lit '':'' @ hyph i)"

definition not_found :: "str \<Rightarrow> protocol_error" where
  "not_found msg = plain_error NotFound msg"

definition capacity_exhausted :: "str \<Rightarrow> protocol_error" where
  "capacity_exhausted msg = plain_error CapacityExhaustedCode msg"

definition internal_error :: "str \<Rightarrow> protocol_error" where
  "internal_error msg = plain_error Internal msg"

definition invalid_argument :: "str \<Rightarrow> str \<Rightarrow> protocol_error" where
  "invalid_argument field reason = plain_error InvalidArgument (lit ''invalid argument '' @ field @ lit '': '' @ reason)"

definition tool_not_registered :: "str \<Rightarrow> protocol_error" where
  "tool_not_registered tool_id = plain_error ToolNotRegistered (lit ''tool not registered: '' @ tool_id)"

definition suppressed :: "str \<Rightarrow> protocol_error" where
  "suppressed msg = plain_error Suppressed msg"

definition trigger_conflict :: "str \<Rightarrow> str \<Rightarrow> protocol_error" where
  "trigger_conflict kind i = plain_error TriggerConflict (lit ''trigger conflict: '' @ kind @ lit '' '' @ i)"

definition duplicate_trigger_in_request :: "str \<Rightarrow> str \<Rightarrow> protocol_error" where
  "duplicate_trigger_in_request kind i =
     plain_error DuplicateTriggerInRequest (lit ''duplicate trigger in request: '' @ kind @ lit '' '' @ i)"

lemma error_codes [simp]:
  "pe_code (forbidden m) = Forbidden" "pe_code (not_found m) = NotFound" "pe_code (internal_error m) = Internal"
  "pe_code (invalid_argument f r) = InvalidArgument" "pe_code (capacity_exhausted m) = CapacityExhaustedCode"
  "pe_code (idempotency_conflict hyph key ex) = IdempotencyConflict"
  by (simp_all add: forbidden_def not_found_def internal_error_def invalid_argument_def capacity_exhausted_def
      idempotency_conflict_def plain_error_def)

lemma error_code_as_str_inj: "error_code_as_str a = error_code_as_str b \<Longrightarrow> a = b"
  by (cases a; cases b) (simp_all add: lit_def)

end
