(* ===== verification/Authz.thy ===== *)
theory Authz
  imports Capability Publication OwnerScope Errors
begin

text \<open>
  The authorization context (\<open>crates/core/src/authz.rs\<close>): identity, authentication path, the
  state of the owner scope, the record \<open>AuthzContext\<close> with every constructor, builder and query,
  the delegated phase and what an engine operation accepts as authority.

  The authenticator and the owner-access port are host code: their answers are arguments. The
  clock is the argument \<open>now\<close>; an operation that reads it twice takes two. \<open>None\<close> is the result of
  a constructor that panics, of a builder that refuses, as the code documents it.

  A context is reached by one of the constructors followed by builder calls
  (\<open>builder_step\<close>, \<open>reachable_context\<close>); \<open>authz_ok\<close> is the invariant every reachable context has.
\<close>

section \<open>Identity and paths\<close>

record identity =
  id_subject :: "user_id option"
  id_writer :: "writer_attribution option"
  id_principal :: owner_id
  id_accessible :: "owner_id set"
  id_expires_at :: "system_time option"
  id_auth_epoch :: u64
  id_trusted_model_id :: "str option"

definition can_access_principal :: "identity \<Rightarrow> owner_id \<Rightarrow> bool" where
  "can_access_principal i w \<longleftrightarrow> w \<in> id_accessible i"

datatype trusted_model_id_error = ModelBlank | ModelTooLong nat nat

definition MAX_OPERATOR_LABEL_CHARS :: nat where "MAX_OPERATOR_LABEL_CHARS = 120"

definition validate_trusted_model_id :: "str \<Rightarrow> (trusted_model_id_error, str) result" where
  "validate_trusted_model_id raw =
     (let trimmed = trim raw in
      if trimmed = [] then Inl ModelBlank
      else if length trimmed > MAX_OPERATOR_LABEL_CHARS then Inl (ModelTooLong (length trimmed) MAX_OPERATOR_LABEL_CHARS)
      else Inr trimmed)"

datatype auth_path = HostBearer | Delegated | System | Denied

datatype auth_error = AuthRequiredError | InvalidCredentials

type_synonym system_authority_binding = uuid
type_synonym delegation_runtime_binding = uuid

datatype owner_scope_state = Unsealed "owner_id option" | Sealed owner_scope

fun state_sealed :: "owner_scope_state \<Rightarrow> owner_scope option" where
  "state_sealed (Unsealed _) = None"
| "state_sealed (Sealed S) = Some S"

fun state_confined_to :: "owner_scope_state \<Rightarrow> owner_id option" where
  "state_confined_to (Unsealed c) = c"
| "state_confined_to (Sealed S) = os_selected S"

record invoking_tool =
  it_name :: str
  it_effect :: "tool_effect option"

record authz_context =
  ac_identity :: identity
  ac_capabilities :: capability_set
  ac_auth_path :: auth_path
  ac_owner_roles :: "owner_roles option"
  ac_owner_scope :: owner_scope_state
  ac_forwarded_owner :: "owner_id option"
  ac_publication_extensions :: publication_extensions
  ac_verified_claims :: "(str \<times> json) list option"
  ac_default_owner :: "owner_id option"
  ac_invoking_tool :: "invoking_tool option"
  ac_system_binding :: "system_authority_binding option"

section \<open>Queries\<close>

definition ac_sealed_scope :: "authz_context \<Rightarrow> owner_scope option" where
  "ac_sealed_scope C = state_sealed (ac_owner_scope C)"

definition ac_subject :: "authz_context \<Rightarrow> user_id option" where
  "ac_subject C = id_subject (ac_identity C)"

definition ac_principal :: "authz_context \<Rightarrow> owner_id" where
  "ac_principal C = id_principal (ac_identity C)"

definition ac_expires_at :: "authz_context \<Rightarrow> system_time option" where
  "ac_expires_at C = id_expires_at (ac_identity C)"

definition ac_writer :: "authz_context \<Rightarrow> writer_attribution option" where
  "ac_writer C = id_writer (ac_identity C)"

definition ac_can_access_owner :: "authz_context \<Rightarrow> owner_id \<Rightarrow> bool" where
  "ac_can_access_owner C w = can_access_principal (ac_identity C) w"

definition ac_is_server_resolved :: "authz_context \<Rightarrow> bool" where
  "ac_is_server_resolved C \<longleftrightarrow> ac_owner_roles C \<noteq> None"

definition ac_may_read :: "authz_context \<Rightarrow> owner_id \<Rightarrow> access_kind \<Rightarrow> bool" where
  "ac_may_read C w k = is_some_and (ac_owner_roles C) (\<lambda>R. roles_may_read R w k)"

definition ac_may_write :: "authz_context \<Rightarrow> owner_id \<Rightarrow> access_kind \<Rightarrow> bool" where
  "ac_may_write C w k = is_some_and (ac_owner_roles C) (\<lambda>R. roles_may_write R w k)"

definition ac_may_run_tool :: "authz_context \<Rightarrow> owner_id \<Rightarrow> bool \<Rightarrow> bool" where
  "ac_may_run_tool C w read_only = (if read_only then ac_may_read C w KFact else ac_may_write C w KFact)"

definition ac_may_manage :: "authz_context \<Rightarrow> owner_id \<Rightarrow> bool" where
  "ac_may_manage C w = is_some_and (ac_owner_roles C) (\<lambda>R. roles_may_manage R w)"

definition ac_role_for_owner :: "authz_context \<Rightarrow> owner_id \<Rightarrow> role option" where
  "ac_role_for_owner C w = Option.bind (ac_owner_roles C) (\<lambda>R. role_for R w)"

definition ac_readable_owners :: "authz_context \<Rightarrow> access_kind \<Rightarrow> owner_id list" where
  "ac_readable_owners C k = (case ac_owner_roles C of None \<Rightarrow> [] | Some R \<Rightarrow> roles_readable_owners R k)"

definition ac_writable_owners :: "authz_context \<Rightarrow> access_kind \<Rightarrow> owner_id list" where
  "ac_writable_owners C k = (case ac_owner_roles C of None \<Rightarrow> [] | Some R \<Rightarrow> roles_writable_owners R k)"

definition ac_carries_system_authority :: "authz_context \<Rightarrow> system_authority_binding \<Rightarrow> bool" where
  "ac_carries_system_authority C b \<longleftrightarrow> ac_system_binding C = Some b"

section \<open>Constructors\<close>

definition accessible_of :: "owner_roles \<Rightarrow> owner_id set" where
  "accessible_of R = set (roles_readable_owners R KFact)"

definition direct_writer :: "owner_roles \<Rightarrow> writer_attribution" where
  "direct_writer R = \<lparr>wa_by = user_uuid (or_subject R), wa_via = None\<rparr>"

definition server_resolved_with_writer :: "owner_roles \<Rightarrow> auth_path \<Rightarrow> writer_attribution \<Rightarrow> authz_context" where
  "server_resolved_with_writer R path wr =
     \<lparr>ac_identity = \<lparr>id_subject = Some (or_subject R),
        id_writer = (case path of HostBearer \<Rightarrow> Some wr | Delegated \<Rightarrow> Some wr | System \<Rightarrow> Some wr | Denied \<Rightarrow> None),
        id_principal = owner_of_user (or_subject R), id_accessible = accessible_of R,
        id_expires_at = None, id_auth_epoch = 0, id_trusted_model_id = None\<rparr>,
      ac_capabilities = capability_all, ac_auth_path = path, ac_owner_roles = Some R,
      ac_owner_scope = Unsealed None, ac_forwarded_owner = None, ac_publication_extensions = [],
      ac_verified_claims = None, ac_default_owner = None, ac_invoking_tool = None, ac_system_binding = None\<rparr>"

definition server_resolved :: "owner_roles \<Rightarrow> auth_path \<Rightarrow> authz_context" where
  "server_resolved R path = server_resolved_with_writer R path (direct_writer R)"

definition for_system :: "system_authority_binding \<Rightarrow> owner_roles \<Rightarrow> authz_context" where
  "for_system b R =
     (let wr = direct_writer R; C = server_resolved_with_writer R System wr in
      C\<lparr>ac_owner_scope := Sealed (from_verified_roles R None wr), ac_system_binding := Some b\<rparr>)"

definition denied_for_owner :: "owner_id \<Rightarrow> authz_context" where
  "denied_for_owner w =
     \<lparr>ac_identity = \<lparr>id_subject = None, id_writer = None, id_principal = w, id_accessible = {},
        id_expires_at = None, id_auth_epoch = 0, id_trusted_model_id = None\<rparr>,
      ac_capabilities = \<lparr>cs_tool_scope = ScopePalette [], cs_served_surface = ServePalette []\<rparr>,
      ac_auth_path = Denied, ac_owner_roles = None, ac_owner_scope = Unsealed None,
      ac_forwarded_owner = None, ac_publication_extensions = [], ac_verified_claims = None,
      ac_default_owner = None, ac_invoking_tool = None, ac_system_binding = None\<rparr>"

definition ctx_for_subject_with_role :: "user_id \<Rightarrow> (owner_id \<times> role) list \<Rightarrow> auth_path \<Rightarrow> authz_context option" where
  "ctx_for_subject_with_role s rs path =
     (case for_subject s rs of Inl _ \<Rightarrow> None | Inr R \<Rightarrow> Some (server_resolved R path))"

definition ctx_for_subject :: "user_id \<Rightarrow> auth_path \<Rightarrow> authz_context option" where
  "ctx_for_subject s path = (case for_subject s [] of Inl _ \<Rightarrow> None | Inr R \<Rightarrow> Some (server_resolved R path))"

definition single_owner :: "owner_id \<Rightarrow> auth_path \<Rightarrow> authz_context option" where
  "single_owner w path = ctx_for_subject (as_user w) path"

definition from_verified_forwarded_owner :: "user_id \<Rightarrow> owner_id \<Rightarrow> writer_attribution \<Rightarrow> authz_context" where
  "from_verified_forwarded_owner s w wr =
     (server_resolved_with_writer (without_access s) HostBearer wr)\<lparr>ac_forwarded_owner := Some w\<rparr>"

section \<open>Builders\<close>

definition seal_verified_scope :: "authz_context \<Rightarrow> (auth_error, authz_context) result" where
  "seal_verified_scope C =
     rbind (ok_or InvalidCredentials (ac_owner_roles C)) (\<lambda>R.
     rbind (ok_or InvalidCredentials (ac_writer C)) (\<lambda>wr.
       let scope = from_verified_roles R (ac_expires_at C) wr;
           scope = (if ac_auth_path C = HostBearer \<and> ac_forwarded_owner C = None \<and>
               state_confined_to (ac_owner_scope C) = None
             then os_with_goal_principal scope (GoalPrincipalScope (os_subject scope)) else scope)
       in rbind (case state_confined_to (ac_owner_scope C) of
              Some w \<Rightarrow> ok_or InvalidCredentials (os_narrow scope w)
            | None \<Rightarrow> Inr scope) (\<lambda>sealed. Inr (C\<lparr>ac_owner_scope := Sealed sealed\<rparr>))))"

definition authenticate :: "('c \<Rightarrow> (auth_error, authz_context) result) \<Rightarrow> 'c \<Rightarrow> (auth_error, authz_context) result" where
  "authenticate authenticator creds = rbind (authenticator creds) seal_verified_scope"

definition narrowed_to_owner :: "authz_context \<Rightarrow> owner_id \<Rightarrow> authz_context option" where
  "narrowed_to_owner C w =
     Option.bind (ac_owner_roles C) (\<lambda>R.
     Option.bind (role_for R w) (\<lambda>r.
       let narrowed = scoped_to (or_subject R) w r in
       Option.bind (case ac_owner_scope C of
           Unsealed _ \<Rightarrow> Some (Unsealed (Some w))
         | Sealed S \<Rightarrow> map_option Sealed (os_narrow S w)) (\<lambda>st.
         Some (C\<lparr>ac_owner_roles := Some narrowed, ac_owner_scope := st,
           ac_identity := (ac_identity C)\<lparr>id_accessible := accessible_of narrowed\<rparr>,
           ac_default_owner := None\<rparr>))))"

definition for_insecure_single_owner :: "owner_id \<Rightarrow> authz_context option" where
  "for_insecure_single_owner w =
     (let s = as_user w; R = scoped_to s w role_personal; wr = \<lparr>wa_by = user_uuid s, wa_via = None\<rparr>;
          C = server_resolved_with_writer R HostBearer wr
      in narrowed_to_owner (C\<lparr>ac_owner_scope := Sealed (from_verified_roles R None wr)\<rparr>) w)"

definition with_attested_writer :: "authz_context \<Rightarrow> writer_attribution \<Rightarrow> authz_context option" where
  "with_attested_writer C wr =
     (if ac_sealed_scope C \<noteq> None \<or> ac_auth_path C = Denied then None
      else Some (C\<lparr>ac_identity := (ac_identity C)\<lparr>id_writer := Some wr\<rparr>\<rparr>))"

fun min_deadline :: "system_time option \<Rightarrow> system_time option \<Rightarrow> system_time option" where
  "min_deadline None b = b"
| "min_deadline (Some a) None = Some a"
| "min_deadline (Some a) (Some b) = Some (min a b)"

definition forwarded_context :: "authz_context \<Rightarrow> owner_scope \<Rightarrow> system_time option \<Rightarrow> owner_roles \<Rightarrow> authz_context" where
  "forwarded_context C scope ex R =
     C\<lparr>ac_identity := (ac_identity C)\<lparr>id_accessible := accessible_of R, id_expires_at := ex\<rparr>,
       ac_owner_roles := Some R,
       ac_owner_scope := Sealed (from_verified_roles R ex (os_writer scope))\<rparr>"

definition with_authenticated_forwarded_owner ::
  "system_time \<Rightarrow> (user_id \<Rightarrow> (access_error, bool) result) \<Rightarrow>
   (user_id \<Rightarrow> owner_id \<Rightarrow> (access_error, forwarder_role option) result) \<Rightarrow> authz_context \<Rightarrow> owner_id \<Rightarrow> authz_context option" where
  "with_authenticated_forwarded_owner now is_forwarder resolve_forwarded C w =
     Option.bind (ac_sealed_scope C) (\<lambda>scope.
       let ex = min_deadline (ac_expires_at C) (os_expires_at scope) in
       if ac_forwarded_owner C \<noteq> Some w \<or> is_some_and ex (\<lambda>deadline. deadline \<le> now) then None
       else Option.bind (ac_subject C) (\<lambda>s.
         case is_forwarder s of
           Inl _ \<Rightarrow> None
         | Inr False \<Rightarrow> None
         | Inr True \<Rightarrow>
             (case resolve_forwarded s w of
                Inl _ \<Rightarrow> None
              | Inr None \<Rightarrow> None
              | Inr (Some fr) \<Rightarrow>
                  narrowed_to_owner (forwarded_context C scope ex (scoped_to s w (forwarder_role_role fr))) w)))"

definition with_tool_scope :: "authz_context \<Rightarrow> tool_scope \<Rightarrow> authz_context" where
  "with_tool_scope C sc = C\<lparr>ac_capabilities := (ac_capabilities C)\<lparr>cs_tool_scope := sc\<rparr>\<rparr>"

definition with_served_surface :: "authz_context \<Rightarrow> served_surface \<Rightarrow> authz_context" where
  "with_served_surface C sf =
     C\<lparr>ac_capabilities := (ac_capabilities C)\<lparr>cs_served_surface :=
       (case cs_served_surface (ac_capabilities C) of
          ServeAll \<Rightarrow> sf
        | ServePalette keys \<Rightarrow> surface_intersect (ServePalette keys) sf)\<rparr>\<rparr>"

definition with_verified_claims :: "authz_context \<Rightarrow> (str \<times> json) list \<Rightarrow> authz_context" where
  "with_verified_claims C claims = C\<lparr>ac_verified_claims := Some claims\<rparr>"

definition with_trusted_model_id :: "authz_context \<Rightarrow> str \<Rightarrow> (trusted_model_id_error, authz_context) result" where
  "with_trusted_model_id C m =
     rbind (validate_trusted_model_id m) (\<lambda>v.
       Inr (C\<lparr>ac_identity := (ac_identity C)\<lparr>id_trusted_model_id := Some v\<rparr>\<rparr>))"

definition with_publication_extensions ::
  "authz_context \<Rightarrow> publication_extensions \<Rightarrow> (publication_extensions_error, authz_context) result" where
  "with_publication_extensions C ext =
     rbind (extensions_merged (ac_publication_extensions C) ext) (\<lambda>m. Inr (C\<lparr>ac_publication_extensions := m\<rparr>))"

definition with_default_owner :: "authz_context \<Rightarrow> owner_id \<Rightarrow> authz_context option" where
  "with_default_owner C w =
     Option.bind (ac_role_for_owner C w) (\<lambda>_. Some (C\<lparr>ac_default_owner := Some w\<rparr>))"

definition invoked_by_tool :: "authz_context \<Rightarrow> invoking_tool \<Rightarrow> authz_context" where
  "invoked_by_tool C t = C\<lparr>ac_invoking_tool := Some t\<rparr>"

definition with_host_resolved_role :: "authz_context \<Rightarrow> group_id \<Rightarrow> role \<Rightarrow> authz_context option" where
  "with_host_resolved_role C g r =
     (if ac_owner_scope C \<noteq> Unsealed None \<or> ac_forwarded_owner C \<noteq> None then None
      else Option.bind (ac_owner_roles C) (\<lambda>R0.
        let R = with_group_role R0 g r in
        Some (C\<lparr>ac_identity := (ac_identity C)\<lparr>id_accessible := accessible_of R\<rparr>, ac_owner_roles := Some R\<rparr>)))"

definition with_authenticated_group_role ::
  "system_time \<Rightarrow> system_time \<Rightarrow> (user_id \<Rightarrow> group_id \<Rightarrow> (access_error, role option) result) \<Rightarrow>
   authz_context \<Rightarrow> group_id \<Rightarrow> authz_context option" where
  "with_authenticated_group_role now now' resolve_group_role C g =
     (if ac_forwarded_owner C \<noteq> None then None
      else Option.bind (ac_sealed_scope C) (\<lambda>scope.
        if os_is_expired now scope then None
        else Option.bind (ac_subject C) (\<lambda>s.
          case resolve_group_role s g of
            Inl _ \<Rightarrow> None
          | Inr None \<Rightarrow> None
          | Inr (Some r) \<Rightarrow>
              Option.bind (os_add_group_role now' scope g r) (\<lambda>scope'.
              Option.bind (ac_owner_roles C) (\<lambda>R0.
                let R = with_group_role R0 g r in
                Some (C\<lparr>ac_identity := (ac_identity C)\<lparr>id_accessible := accessible_of R\<rparr>,
                  ac_owner_roles := Some R, ac_owner_scope := Sealed scope'\<rparr>))))))"

definition with_expires_at :: "authz_context \<Rightarrow> system_time option \<Rightarrow> authz_context" where
  "with_expires_at C ex = C\<lparr>ac_identity := (ac_identity C)\<lparr>id_expires_at := ex\<rparr>\<rparr>"

definition with_auth_epoch :: "authz_context \<Rightarrow> u64 \<Rightarrow> authz_context" where
  "with_auth_epoch C e = C\<lparr>ac_identity := (ac_identity C)\<lparr>id_auth_epoch := e\<rparr>\<rparr>"

section \<open>Engine authority\<close>

record delegated_phase =
  ph_authz :: authz_context
  ph_expires_at :: system_time
  ph_runtime_binding :: delegation_runtime_binding

datatype engine_authority = FromContext authz_context | FromPhase delegated_phase

record engine_operation_authority =
  eo_authz :: authz_context
  eo_redeemed_phase :: bool
  eo_runtime_binding :: "delegation_runtime_binding option"

fun context_for_engine_operation ::
  "system_time \<Rightarrow> engine_authority \<Rightarrow> (protocol_error, engine_operation_authority) result" where
  "context_for_engine_operation now (FromContext C) =
     (if ac_auth_path C = Delegated
      then Inl (forbidden (lit ''raw delegated authorization contexts are not Engine authority''))
      else Inr \<lparr>eo_authz = C, eo_redeemed_phase = False, eo_runtime_binding = None\<rparr>)"
| "context_for_engine_operation now (FromPhase ph) =
     (if ph_expires_at ph \<le> now then Inl (forbidden (lit ''delegated worker phase has expired''))
      else Inr \<lparr>eo_authz = ph_authz ph, eo_redeemed_phase = True, eo_runtime_binding = Some (ph_runtime_binding ph)\<rparr>)"

definition validate_runtime_binding ::
  "engine_operation_authority \<Rightarrow> delegation_runtime_binding option \<Rightarrow> (protocol_error, unit) result" where
  "validate_runtime_binding A expected =
     (case eo_runtime_binding A of
        None \<Rightarrow> Inr ()
      | Some actual \<Rightarrow>
          if expected = Some actual then Inr ()
          else Inl (forbidden (lit ''delegated worker phase belongs to a different runtime'')))"

section \<open>Reachable contexts and their invariant\<close>

inductive builder_step :: "authz_context \<Rightarrow> authz_context \<Rightarrow> bool" where
  step_seal: "seal_verified_scope C = Inr C' \<Longrightarrow> builder_step C C'"
| step_narrow: "narrowed_to_owner C w = Some C' \<Longrightarrow> builder_step C C'"
| step_attest: "with_attested_writer C wr = Some C' \<Longrightarrow> builder_step C C'"
| step_forward: "with_authenticated_forwarded_owner now is_fwd resolve C w = Some C' \<Longrightarrow> builder_step C C'"
| step_tool_scope: "builder_step C (with_tool_scope C sc)"
| step_surface: "builder_step C (with_served_surface C sf)"
| step_claims: "builder_step C (with_verified_claims C claims)"
| step_model: "with_trusted_model_id C m = Inr C' \<Longrightarrow> builder_step C C'"
| step_extensions: "extensions_ok ext \<Longrightarrow> with_publication_extensions C ext = Inr C' \<Longrightarrow> builder_step C C'"
| step_default: "with_default_owner C w = Some C' \<Longrightarrow> builder_step C C'"
| step_invoked: "builder_step C (invoked_by_tool C t)"
| step_host_role: "role_ok r \<Longrightarrow> with_host_resolved_role C g r = Some C' \<Longrightarrow> builder_step C C'"
| step_group_role: "(\<And>s g r. resolve_role s g = Inr (Some r) \<Longrightarrow> role_ok r) \<Longrightarrow>
    with_authenticated_group_role now now' resolve_role C g = Some C' \<Longrightarrow> builder_step C C'"
| step_expires: "builder_step C (with_expires_at C ex)"
| step_epoch: "builder_step C (with_auth_epoch C e)"

inductive reachable_context :: "authz_context \<Rightarrow> bool" where
  init_server: "owner_roles_ok R \<Longrightarrow> reachable_context (server_resolved_with_writer R path wr)"
| init_system: "owner_roles_ok R \<Longrightarrow> reachable_context (for_system b R)"
| init_insecure: "for_insecure_single_owner w = Some C \<Longrightarrow> reachable_context C"
| init_forwarded: "reachable_context (from_verified_forwarded_owner s w wr)"
| init_denied: "reachable_context (denied_for_owner w)"
| step: "reachable_context C \<Longrightarrow> builder_step C C' \<Longrightarrow> reachable_context C'"

text \<open>
  The invariant. A context without roles grants nothing and is unsealed. With roles: the map is
  well formed, the accessible set is its Fact-readable owners, subject and principal are its
  subject, the default owner is carried, a confined context carries exactly its owner, a forwarded
  one carries at most the forwarded owner and never manages it; a sealed scope holds the same
  role map and writer, and a Goal principal only on an unforwarded bearer path.
\<close>

definition roles_equiv :: "owner_roles \<Rightarrow> owner_roles \<Rightarrow> bool" where
  "roles_equiv A B \<longleftrightarrow> or_subject A = or_subject B \<and> role_for A = role_for B"

definition scope_agrees :: "authz_context \<Rightarrow> owner_roles \<Rightarrow> owner_scope \<Rightarrow> bool" where
  "scope_agrees C R S \<longleftrightarrow> owner_scope_ok S \<and> roles_equiv (os_roles S) R \<and> ac_writer C = Some (os_writer S) \<and>
     (os_goal_principal S \<noteq> None \<longrightarrow> ac_auth_path C = HostBearer \<and> ac_forwarded_owner C = None)"

definition forwarded_within :: "owner_id option \<Rightarrow> owner_roles \<Rightarrow> bool" where
  "forwarded_within fo R \<longleftrightarrow> (\<forall>w v r. fo = Some w \<and> role_for R v = Some r \<longrightarrow> v = w \<and> \<not> role_manage r)"

definition roles_agree :: "authz_context \<Rightarrow> owner_roles \<Rightarrow> bool" where
  "roles_agree C R \<longleftrightarrow> owner_roles_ok R \<and> id_accessible (ac_identity C) = accessible_of R \<and>
     ac_subject C = Some (or_subject R) \<and> ac_principal C = owner_of_user (or_subject R) \<and>
     (\<forall>w. ac_default_owner C = Some w \<longrightarrow> role_for R w \<noteq> None) \<and>
     (\<forall>w v. state_confined_to (ac_owner_scope C) = Some w \<longrightarrow> (role_for R v \<noteq> None \<longleftrightarrow> v = w)) \<and>
     forwarded_within (ac_forwarded_owner C) R \<and>
     (\<forall>S. ac_owner_scope C = Sealed S \<longrightarrow> scope_agrees C R S)"

definition authz_ok :: "authz_context \<Rightarrow> bool" where
  "authz_ok C \<longleftrightarrow>
     (case ac_owner_roles C of
        None \<Rightarrow> id_accessible (ac_identity C) = {} \<and> ac_sealed_scope C = None \<and> ac_default_owner C = None
      | Some R \<Rightarrow> roles_agree C R) \<and>
     extensions_ok (ac_publication_extensions C) \<and>
     (ac_auth_path C = Denied \<longrightarrow> ac_writer C = None \<and> ac_sealed_scope C = None) \<and>
     (ac_system_binding C \<noteq> None \<longrightarrow> ac_auth_path C = System \<and> ac_sealed_scope C \<noteq> None)"

lemma forwarded_within_simps [simp]:
  "forwarded_within None R" "forwarded_within fo (without_access s)"
  "forwarded_within (Some w) (scoped_to s v r) \<longleftrightarrow> v = w \<and> \<not> role_manage r"
  by (auto simp: forwarded_within_def split: if_splits)

lemma forwarded_withinD:
  "forwarded_within (Some w) R \<Longrightarrow> role_for R v = Some r \<Longrightarrow> v = w \<and> \<not> role_manage r"
  by (auto simp: forwarded_within_def)

lemma roles_equiv_refl [simp]: "roles_equiv R R"
  by (simp add: roles_equiv_def)

lemmas ac_accessors = ac_sealed_scope_def ac_subject_def ac_principal_def ac_expires_at_def ac_writer_def

lemma extensions_ok_Nil [simp]: "extensions_ok []"
  by (simp add: extensions_ok_def)

lemma ac_may_Some:
  "ac_owner_roles C = Some R \<Longrightarrow> ac_may_read C w k = roles_may_read R w k"
  "ac_owner_roles C = Some R \<Longrightarrow> ac_may_write C w k = roles_may_write R w k"
  "ac_owner_roles C = Some R \<Longrightarrow> ac_may_manage C w = roles_may_manage R w"
  by (simp_all add: ac_may_read_def ac_may_write_def ac_may_manage_def)

lemma authz_okD:
  assumes "authz_ok C" "ac_owner_roles C = Some R"
  shows "roles_agree C R" "owner_roles_ok R"
proof -
  show "roles_agree C R" using assms by (simp add: authz_ok_def)
  then show "owner_roles_ok R" by (simp add: roles_agree_def)
qed

subsection \<open>Constructors establish it\<close>

lemma authz_ok_server_resolved:
  assumes "owner_roles_ok R"
  shows "authz_ok (server_resolved_with_writer R path wr)"
  using assms
  by (cases path) (simp_all add: authz_ok_def roles_agree_def server_resolved_with_writer_def ac_accessors)

lemma authz_ok_for_system: "owner_roles_ok R \<Longrightarrow> authz_ok (for_system b R)"
  by (simp add: authz_ok_def roles_agree_def for_system_def server_resolved_with_writer_def ac_accessors
      scope_agrees_def owner_scope_ok_from_verified Let_def) (simp add: from_verified_roles_def)

lemma authz_ok_denied: "authz_ok (denied_for_owner w)"
  by (simp add: authz_ok_def denied_for_owner_def ac_accessors)

lemma authz_ok_forwarded: "authz_ok (from_verified_forwarded_owner s w wr)"
  by (simp add: authz_ok_def roles_agree_def from_verified_forwarded_owner_def server_resolved_with_writer_def
      ac_accessors)

subsection \<open>Narrowing\<close>

lemma narrowed_to_owner_Some:
  "narrowed_to_owner C w = Some C' \<longleftrightarrow>
     (\<exists>R r st. ac_owner_roles C = Some R \<and> role_for R w = Some r \<and>
       (case ac_owner_scope C of
          Unsealed _ \<Rightarrow> st = Unsealed (Some w)
        | Sealed S \<Rightarrow> (\<exists>S'. os_narrow S w = Some S' \<and> st = Sealed S')) \<and>
       C' = C\<lparr>ac_owner_roles := Some (scoped_to (or_subject R) w r), ac_owner_scope := st,
           ac_identity := (ac_identity C)\<lparr>id_accessible := accessible_of (scoped_to (or_subject R) w r)\<rparr>,
           ac_default_owner := None\<rparr>)"
  by (auto simp: narrowed_to_owner_def bind_eq_Some_conv Let_def split: owner_scope_state.splits)

lemma scoped_role_ok:
  assumes "owner_roles_ok R" "role_for R w = Some r"
  shows "owner_roles_ok (scoped_to (or_subject R) w r)"
  using owner_roles_okD(2,3) [OF assms(1)] assms(2) by (intro owner_roles_ok_scoped_to) auto

lemma scope_agrees_narrow:
  assumes "scope_agrees C R S" "os_narrow S w = Some S'" "role_for R w = Some r"
  shows "owner_scope_ok S'" "os_roles S' = scoped_to (or_subject R) w r" "os_writer S' = os_writer S"
    "os_goal_principal S' = None" "os_selected S' = Some w"
  using assms owner_scope_ok_narrow [OF _ assms(2)]
  by (auto simp: scope_agrees_def os_narrow_Some os_subject_def roles_equiv_def)

lemma authz_ok_narrowed:
  assumes ok: "authz_ok C" and nar: "narrowed_to_owner C w = Some C'"
  shows "authz_ok C'"
proof -
  from nar obtain R r st where R: "ac_owner_roles C = Some R" and r: "role_for R w = Some r"
    and st: "case ac_owner_scope C of Unsealed _ \<Rightarrow> st = Unsealed (Some w)
        | Sealed S \<Rightarrow> (\<exists>S'. os_narrow S w = Some S' \<and> st = Sealed S')"
    and C': "C' = C\<lparr>ac_owner_roles := Some (scoped_to (or_subject R) w r), ac_owner_scope := st,
           ac_identity := (ac_identity C)\<lparr>id_accessible := accessible_of (scoped_to (or_subject R) w r)\<rparr>,
           ac_default_owner := None\<rparr>"
    unfolding narrowed_to_owner_Some by blast
  note agree = authz_okD [OF ok R]
  have fwd: "forwarded_within (ac_forwarded_owner C) (scoped_to (or_subject R) w r)"
    using agree(1) r by (cases "ac_forwarded_owner C") (auto simp: roles_agree_def dest: forwarded_withinD)
  have conf: "state_confined_to st = Some w"
    using st agree(1) scope_agrees_narrow(5) [OF _ _ r]
    by (auto simp: roles_agree_def split: owner_scope_state.splits)
  have scope: "scope_agrees C' (scoped_to (or_subject R) w r) S'" if S': "st = Sealed S'" for S'
  proof -
    obtain S where S: "ac_owner_scope C = Sealed S" "os_narrow S w = Some S'"
      using st S' by (auto split: owner_scope_state.splits)
    then have "scope_agrees C R S" using agree(1) by (simp add: roles_agree_def)
    with scope_agrees_narrow [OF this S(2) r] show ?thesis
      by (simp add: scope_agrees_def C' ac_writer_def)
  qed
  have sealed: "ac_sealed_scope C' = None \<longleftrightarrow> ac_sealed_scope C = None"
    using st by (auto simp: C' ac_sealed_scope_def split: owner_scope_state.splits)
  have "roles_agree C' (scoped_to (or_subject R) w r)"
    using scoped_role_ok [OF agree(2) r] agree(1) fwd conf scope
    by (auto simp: roles_agree_def C' ac_accessors)
  moreover have "ac_auth_path C' = ac_auth_path C" "ac_writer C' = ac_writer C"
    "ac_system_binding C' = ac_system_binding C" "ac_publication_extensions C' = ac_publication_extensions C"
    "ac_owner_roles C' = Some (scoped_to (or_subject R) w r)"
    by (simp_all add: C' ac_writer_def)
  ultimately show ?thesis using ok sealed by (simp add: authz_ok_def)
qed

lemma authz_ok_insecure:
  assumes "for_insecure_single_owner w = Some C"
  shows "authz_ok C"
proof -
  let ?R = "scoped_to (as_user w) w role_personal" and ?wr = "\<lparr>wa_by = user_uuid (as_user w), wa_via = None\<rparr>"
  let ?C = "(server_resolved_with_writer ?R HostBearer ?wr)\<lparr>ac_owner_scope := Sealed (from_verified_roles ?R None ?wr)\<rparr>"
  have R: "owner_roles_ok ?R" by (rule owner_roles_ok_scoped_to) (simp_all add: role_personal_def [THEN arg_cong [of _ _ role_manage]])
  have "authz_ok ?C"
    using R by (simp add: authz_ok_def roles_agree_def server_resolved_with_writer_def ac_accessors
        scope_agrees_def owner_scope_ok_from_verified) (simp add: from_verified_roles_def)
  moreover have "narrowed_to_owner ?C w = Some C" using assms by (simp add: for_insecure_single_owner_def Let_def)
  ultimately show ?thesis by (rule authz_ok_narrowed)
qed

subsection \<open>The other builders\<close>

text \<open>A builder that leaves the fields the invariant reads unchanged keeps it.\<close>

lemma authz_ok_cong:
  assumes "authz_ok C"
    and "id_subject (ac_identity C') = id_subject (ac_identity C)" "id_writer (ac_identity C') = id_writer (ac_identity C)"
    and "id_principal (ac_identity C') = id_principal (ac_identity C)"
    and "id_accessible (ac_identity C') = id_accessible (ac_identity C)"
    and "ac_auth_path C' = ac_auth_path C" "ac_owner_roles C' = ac_owner_roles C" "ac_owner_scope C' = ac_owner_scope C"
    and "ac_forwarded_owner C' = ac_forwarded_owner C" "ac_system_binding C' = ac_system_binding C"
    and "ac_publication_extensions C' = ac_publication_extensions C" "ac_default_owner C' = ac_default_owner C"
  shows "authz_ok C'"
  using assms(1)
  unfolding authz_ok_def roles_agree_def scope_agrees_def ac_accessors assms(2-) .

lemma authz_ok_carried_data:
  assumes "authz_ok C"
  shows "authz_ok (with_tool_scope C sc)" "authz_ok (with_served_surface C sf)"
    "authz_ok (with_verified_claims C claims)" "authz_ok (invoked_by_tool C t)"
    "authz_ok (with_expires_at C ex)" "authz_ok (with_auth_epoch C e)"
    "with_trusted_model_id C m = Inr C' \<Longrightarrow> authz_ok C'"
  by (rule authz_ok_cong [OF assms];
      auto simp: with_tool_scope_def with_served_surface_def with_verified_claims_def invoked_by_tool_def
        with_expires_at_def with_auth_epoch_def with_trusted_model_id_def rbind_eq_Inr)+

lemma authz_ok_extensions:
  assumes "authz_ok C" "extensions_ok ext" "with_publication_extensions C ext = Inr C'"
  shows "authz_ok C'"
proof -
  from assms(3) obtain m where m: "extensions_merged (ac_publication_extensions C) ext = Inr m"
    and C': "C' = C\<lparr>ac_publication_extensions := m\<rparr>"
    by (auto simp: with_publication_extensions_def rbind_eq_Inr)
  have "extensions_ok m"
    using extensions_merged_sound [OF m _ extensions_ok_distinct [OF assms(2)]] assms(1) by (simp add: authz_ok_def)
  then show ?thesis
    using assms(1) by (simp add: C' authz_ok_def roles_agree_def scope_agrees_def ac_accessors split: option.splits)
qed

lemma authz_ok_default:
  assumes "authz_ok C" "with_default_owner C w = Some C'"
  shows "authz_ok C'"
proof -
  from assms(2) obtain R where "ac_owner_roles C = Some R" "role_for R w \<noteq> None"
    and "C' = C\<lparr>ac_default_owner := Some w\<rparr>"
    by (auto simp: with_default_owner_def ac_role_for_owner_def bind_eq_Some_conv)
  then show ?thesis
    using assms(1) by (simp add: authz_ok_def roles_agree_def scope_agrees_def ac_accessors)
qed

lemma authz_ok_attest:
  assumes "authz_ok C" "with_attested_writer C wr = Some C'"
  shows "authz_ok C'"
proof -
  from assms(2) have un: "ac_sealed_scope C = None" "ac_auth_path C \<noteq> Denied"
    and C': "C' = C\<lparr>ac_identity := (ac_identity C)\<lparr>id_writer := Some wr\<rparr>\<rparr>"
    by (auto simp: with_attested_writer_def split: if_splits)
  from un(1) have "ac_owner_scope C \<noteq> Sealed S" for S by (auto simp: ac_sealed_scope_def)
  then show ?thesis
    using assms(1) un by (auto simp: C' authz_ok_def roles_agree_def ac_accessors split: option.splits)
qed

lemma accessible_of_group_role_default:
  assumes "role_for R v \<noteq> None"
  shows "role_for (with_group_role R g r) v \<noteq> None"
  using assms by simp

lemma authz_ok_host_role:
  assumes "authz_ok C" "role_ok r" "with_host_resolved_role C g r = Some C'"
  shows "authz_ok C'"
proof -
  from assms(3) obtain R where sc: "ac_owner_scope C = Unsealed None" "ac_forwarded_owner C = None"
    and R: "ac_owner_roles C = Some R"
    and C': "C' = C\<lparr>ac_identity := (ac_identity C)\<lparr>id_accessible := accessible_of (with_group_role R g r)\<rparr>,
      ac_owner_roles := Some (with_group_role R g r)\<rparr>"
    by (auto simp: with_host_resolved_role_def bind_eq_Some_conv Let_def split: if_splits)
  note agree = authz_okD [OF assms(1) R]
  have "roles_agree C' (with_group_role R g r)"
    using agree assms(2) sc by (simp add: roles_agree_def C' ac_accessors)
  then show ?thesis
    using assms(1) sc by (simp add: authz_ok_def C' ac_accessors)
qed

lemma authz_ok_seal:
  assumes ok: "authz_ok C" and seal: "seal_verified_scope C = Inr C'"
  shows "authz_ok C'"
proof -
  from seal obtain R wr where R: "ac_owner_roles C = Some R" and wr: "ac_writer C = Some wr"
    by (auto simp: seal_verified_scope_def result_simps)
  define base where "base = from_verified_roles R (ac_expires_at C) wr"
  define lane where "lane \<longleftrightarrow> ac_auth_path C = HostBearer \<and> ac_forwarded_owner C = None \<and>
               state_confined_to (ac_owner_scope C) = None"
  define scope where "scope = (if lane then os_with_goal_principal base (GoalPrincipalScope (os_subject base)) else base)"
  from seal R wr obtain sealed where sealed: "(case state_confined_to (ac_owner_scope C) of
      Some w \<Rightarrow> os_narrow scope w = Some sealed | None \<Rightarrow> sealed = scope)"
    and C': "C' = C\<lparr>ac_owner_scope := Sealed sealed\<rparr>"
    by (auto simp: seal_verified_scope_def result_simps base_def scope_def lane_def Let_def split: option.splits)
  note agree = authz_okD [OF ok R]
  have roles: "os_roles scope = R" "os_writer scope = wr" "os_selected scope = None"
    by (simp_all add: scope_def base_def from_verified_roles_def os_with_goal_principal_def)
  have scope_ok: "owner_scope_ok scope"
    using owner_scope_ok_from_verified [OF agree(2)] owner_scope_ok_goal_principal
    by (simp add: scope_def base_def)
  have agrees: "scope_agrees C' R sealed \<and> state_confined_to (Sealed sealed) = state_confined_to (ac_owner_scope C)"
  proof (cases "state_confined_to (ac_owner_scope C)")
    case None
    then have eq: "sealed = scope" using sealed by simp
    have "os_goal_principal scope \<noteq> None \<Longrightarrow> lane"
      by (auto simp: scope_def base_def from_verified_roles_def split: if_splits)
    then show ?thesis
      using None roles scope_ok wr by (auto simp: eq scope_agrees_def C' ac_writer_def lane_def)
  next
    case (Some w)
    then have nar: "os_narrow scope w = Some sealed" using sealed by simp
    then obtain r where r: "role_for R w = Some r" and sd: "os_roles sealed = scoped_to (or_subject R) w r"
      "os_writer sealed = wr" "os_goal_principal sealed = None" "os_selected sealed = Some w"
      using roles by (auto simp: os_narrow_Some os_subject_def)
    have "role_for R v = None" if "v \<noteq> w" for v
      using agree(1) Some that by (auto simp: roles_agree_def)
    then have "roles_equiv (os_roles sealed) R"
      using r by (auto simp: sd(1) roles_equiv_def fun_eq_iff)
    then show ?thesis
      using Some sd wr owner_scope_ok_narrow [OF scope_ok nar] by (simp add: scope_agrees_def C' ac_writer_def)
  qed
  then have "roles_agree C' R"
    using agree(1) by (simp add: roles_agree_def C' ac_accessors)
  then show ?thesis
    using ok R wr by (auto simp: authz_ok_def C' ac_accessors)
qed

lemma with_authenticated_group_role_Some:
  assumes grp: "with_authenticated_group_role now now' resolve_role C g = Some C'"
  obtains S s r S' R where "ac_forwarded_owner C = None" "ac_sealed_scope C = Some S"
    "resolve_role s g = Inr (Some r)" "os_add_group_role now' S g r = Some S'" "ac_owner_roles C = Some R"
    "C' = C\<lparr>ac_identity := (ac_identity C)\<lparr>id_accessible := accessible_of (with_group_role R g r)\<rparr>,
      ac_owner_roles := Some (with_group_role R g r), ac_owner_scope := Sealed S'\<rparr>"
proof -
  from grp have fwd: "ac_forwarded_owner C = None"
    by (auto simp: with_authenticated_group_role_def split: if_splits)
  from grp obtain S s where S: "ac_sealed_scope C = Some S" and rest: "(case resolve_role s g of Inl _ \<Rightarrow> None
      | Inr None \<Rightarrow> None | Inr (Some r) \<Rightarrow> Option.bind (os_add_group_role now' S g r) (\<lambda>S'.
          Option.bind (ac_owner_roles C) (\<lambda>R0. let R = with_group_role R0 g r in
            Some (C\<lparr>ac_identity := (ac_identity C)\<lparr>id_accessible := accessible_of R\<rparr>,
              ac_owner_roles := Some R, ac_owner_scope := Sealed S'\<rparr>)))) = Some C'"
    by (auto simp: with_authenticated_group_role_def bind_eq_Some_conv [of "ac_sealed_scope C"]
        bind_eq_Some_conv [of "ac_subject C"] split: if_splits)
  from rest obtain r where r: "resolve_role s g = Inr (Some r)" by (auto split: sum.splits option.splits)
  with rest obtain S' R where S': "os_add_group_role now' S g r = Some S'" and R: "ac_owner_roles C = Some R"
    and C': "C' = C\<lparr>ac_identity := (ac_identity C)\<lparr>id_accessible := accessible_of (with_group_role R g r)\<rparr>,
      ac_owner_roles := Some (with_group_role R g r), ac_owner_scope := Sealed S'\<rparr>"
    by (auto simp: bind_eq_Some_conv Let_def)
  show ?thesis by (rule that [OF fwd S r S' R C'])
qed

text \<open>Replacing the role map and the sealed scope together.\<close>

lemma authz_ok_group_role:
  assumes ok: "authz_ok C" and roles: "\<And>s g r. resolve_role s g = Inr (Some r) \<Longrightarrow> role_ok r"
    and grp: "with_authenticated_group_role now now' resolve_role C g = Some C'"
  shows "authz_ok C'"
proof -
  from grp obtain S s r S' R where fwd: "ac_forwarded_owner C = None" and S: "ac_sealed_scope C = Some S"
    and r: "resolve_role s g = Inr (Some r)" and S': "os_add_group_role now' S g r = Some S'"
    and R: "ac_owner_roles C = Some R"
    and C': "C' = C\<lparr>ac_identity := (ac_identity C)\<lparr>id_accessible := accessible_of (with_group_role R g r)\<rparr>,
      ac_owner_roles := Some (with_group_role R g r), ac_owner_scope := Sealed S'\<rparr>"
    by (rule with_authenticated_group_role_Some)
  note agree = authz_okD [OF ok R] and rok = roles [OF r]
  have sealed: "ac_owner_scope C = Sealed S" using S by (cases "ac_owner_scope C") (simp_all add: ac_sealed_scope_def)
  with agree(1) have sa: "scope_agrees C R S" by (simp add: roles_agree_def)
  have S'f: "os_roles S' = with_group_role (os_roles S) g r" "os_writer S' = os_writer S"
    "os_goal_principal S' = os_goal_principal S" "os_selected S' = None"
    using S' by (auto simp: os_add_group_role_def split: if_splits)
  have "roles_equiv (os_roles S') (with_group_role R g r)"
    using sa by (auto simp: S'f roles_equiv_def scope_agrees_def fun_eq_iff)
  moreover have "owner_scope_ok S'" using owner_scope_ok_add_group [OF _ rok S'] sa by (simp add: scope_agrees_def)
  ultimately have "scope_agrees C' (with_group_role R g r) S'"
    using sa by (simp add: scope_agrees_def C' S'f ac_writer_def)
  then have "roles_agree C' (with_group_role R g r)"
    using agree rok fwd by (simp add: roles_agree_def C' ac_accessors S'f(4))
  then show ?thesis using ok S by (auto simp: authz_ok_def C' ac_accessors)
qed

lemma forwarder_role_props [simp]: "role_ok (forwarder_role_role f)" "\<not> role_manage (forwarder_role_role f)"
  by (cases f; simp; simp add: role_consts)+

lemma with_authenticated_forwarded_owner_Some:
  assumes fw: "with_authenticated_forwarded_owner now is_fwd resolve C w = Some C'"
  obtains S s f where "ac_sealed_scope C = Some S" "ac_forwarded_owner C = Some w" "ac_subject C = Some s"
    "narrowed_to_owner (forwarded_context C S (min_deadline (ac_expires_at C) (os_expires_at S))
      (scoped_to s w (forwarder_role_role f))) w = Some C'"
proof -
  from fw obtain S s where S: "ac_sealed_scope C = Some S" and fwd: "ac_forwarded_owner C = Some w"
    and s: "ac_subject C = Some s" and rest: "(case is_fwd s of Inl _ \<Rightarrow> None | Inr False \<Rightarrow> None | Inr True \<Rightarrow>
      (case resolve s w of Inl _ \<Rightarrow> None | Inr None \<Rightarrow> None
        | Inr (Some f) \<Rightarrow> narrowed_to_owner (forwarded_context C S (min_deadline (ac_expires_at C) (os_expires_at S))
            (scoped_to s w (forwarder_role_role f))) w)) = Some C'"
    by (auto simp: with_authenticated_forwarded_owner_def bind_eq_Some_conv [of "ac_sealed_scope C"]
        bind_eq_Some_conv [of "ac_subject C"] Let_def split: if_splits)
  from rest obtain f where nar: "narrowed_to_owner (forwarded_context C S
      (min_deadline (ac_expires_at C) (os_expires_at S)) (scoped_to s w (forwarder_role_role f))) w = Some C'"
    by (auto split: sum.splits option.splits bool.splits)
  show ?thesis by (rule that [OF S fwd s nar])
qed

lemma authz_ok_forward:
  assumes ok: "authz_ok C" and fw: "with_authenticated_forwarded_owner now is_fwd resolve C w = Some C'"
  shows "authz_ok C'"
proof -
  from fw obtain S s f where S: "ac_sealed_scope C = Some S" and fwd: "ac_forwarded_owner C = Some w"
    and s: "ac_subject C = Some s" and nar0: "narrowed_to_owner (forwarded_context C S
      (min_deadline (ac_expires_at C) (os_expires_at S)) (scoped_to s w (forwarder_role_role f))) w = Some C'"
    by (rule with_authenticated_forwarded_owner_Some)
  define D where "D = forwarded_context C S (min_deadline (ac_expires_at C) (os_expires_at S))"
  have nar: "narrowed_to_owner (D (scoped_to s w (forwarder_role_role f))) w = Some C'" using nar0 by (simp add: D_def)
  let ?R = "scoped_to s w (forwarder_role_role f)"
  obtain R0 where R0: "ac_owner_roles C = Some R0"
    using ok S by (cases "ac_owner_roles C") (auto simp: authz_ok_def)
  note agree = authz_okD [OF ok R0]
  have sealed: "ac_owner_scope C = Sealed S" using S by (cases "ac_owner_scope C") (simp_all add: ac_sealed_scope_def)
  have Rok: "owner_roles_ok ?R" by (rule owner_roles_ok_scoped_to) simp_all
  have sub: "s = or_subject R0" using agree(1) s by (simp add: roles_agree_def)
  have def: "ac_default_owner C = Some v \<Longrightarrow> v = w" for v
    using agree(1) fwd by (auto simp: roles_agree_def dest: forwarded_withinD)
  have wr: "ac_writer C = Some (os_writer S)" using agree(1) sealed by (simp add: roles_agree_def scope_agrees_def)
  have "scope_agrees (D ?R) ?R (from_verified_roles ?R ex (os_writer S))" for ex
    using owner_scope_ok_from_verified [OF Rok] wr
    by (simp add: scope_agrees_def D_def forwarded_context_def ac_writer_def) (simp add: from_verified_roles_def)
  then have "roles_agree (D ?R) ?R"
    using agree(1) Rok fwd sub def
    by (auto simp: roles_agree_def D_def forwarded_context_def ac_accessors) (auto simp: from_verified_roles_def)
  then have "authz_ok (D ?R)" using ok S by (auto simp: authz_ok_def D_def forwarded_context_def ac_accessors)
  from authz_ok_narrowed [OF this nar] show ?thesis .
qed

subsection \<open>Rule induction\<close>

lemma authz_ok_step: "builder_step C C' \<Longrightarrow> authz_ok C \<Longrightarrow> authz_ok C'"
proof (induction rule: builder_step.induct)
  case (step_group_role resolve_role now now' C g C')
  show ?case by (rule authz_ok_group_role [OF step_group_role(3,1,2)])
qed (blast intro: authz_ok_carried_data authz_ok_seal authz_ok_narrowed authz_ok_attest authz_ok_forward
    authz_ok_extensions authz_ok_default authz_ok_host_role)+

lemma authz_ok_reachable: "reachable_context C \<Longrightarrow> authz_ok C"
  by (induction rule: reachable_context.induct)
    (blast intro: authz_ok_server_resolved authz_ok_for_system authz_ok_insecure authz_ok_forwarded authz_ok_denied
      authz_ok_step)+

section \<open>Consequences\<close>

interpretation context_kind: kind_authority authz_ok ac_may_read ac_may_write
proof unfold_locales
  fix C w k
  assume "authz_ok C" and "ac_may_write C w k"
  then show "ac_may_read C w k"
    by (auto simp: ac_may_read_def ac_may_write_def is_some_and_iff
        dest!: authz_okD(2) intro: owner_roles_kind.write_reads)
qed (auto simp: ac_may_read_def ac_may_write_def is_some_and_iff
    intro: owner_roles_kind.read_down owner_roles_kind.write_down)

lemma narrowed_confined:
  "narrowed_to_owner C w = Some C' \<Longrightarrow> state_confined_to (ac_owner_scope C') = Some w"
  by (cases "ac_owner_scope C") (auto simp: narrowed_to_owner_Some os_narrow_Some)

lemma confined_step:
  assumes "authz_ok C" "builder_step C C'" "state_confined_to (ac_owner_scope C) = Some w"
  shows "state_confined_to (ac_owner_scope C') = Some w"
  using assms(2)
proof cases
  case step_seal
  then show ?thesis
    using assms(3) by (auto simp: seal_verified_scope_def result_simps Let_def os_narrow_Some)
next
  case (step_narrow v)
  then obtain R where R: "ac_owner_roles C = Some R" "role_for R v \<noteq> None"
    by (auto simp: narrowed_to_owner_Some)
  then have "v = w" using authz_okD(1) [OF assms(1) R(1)] assms(3) by (simp add: roles_agree_def)
  then show ?thesis
    using step_narrow by (simp add: narrowed_confined)
next
  case (step_forward now is_fwd resolve v)
  from step_forward obtain S s f where S: "ac_sealed_scope C = Some S" and fwd: "ac_forwarded_owner C = Some v"
    and nar: "narrowed_to_owner (forwarded_context C S (min_deadline (ac_expires_at C) (os_expires_at S))
      (scoped_to s v (forwarder_role_role f))) v = Some C'"
    by (elim with_authenticated_forwarded_owner_Some)
  obtain R where R: "ac_owner_roles C = Some R"
    using assms(1) S by (cases "ac_owner_roles C") (auto simp: authz_ok_def)
  note agree = authz_okD(1) [OF assms(1) R]
  have "role_for R w \<noteq> None" using agree assms(3) by (simp add: roles_agree_def)
  then have eq: "v = w" using agree fwd by (auto simp: roles_agree_def dest: forwarded_withinD)
  from nar show ?thesis unfolding eq by (rule narrowed_confined)
next
  case (step_host_role r g)
  then show ?thesis using assms(3) by (auto simp: with_host_resolved_role_def split: if_splits)
next
  case (step_group_role resolve_role now now' g)
  from step_group_role(2) obtain S s r S' where "ac_sealed_scope C = Some S" "os_add_group_role now' S g r = Some S'"
    by (elim with_authenticated_group_role_Some)
  then show ?thesis
    using assms(3) by (cases "ac_owner_scope C") (auto simp: ac_sealed_scope_def os_add_group_role_def split: if_splits)
qed (use assms(3) in \<open>auto simp: with_attested_writer_def with_tool_scope_def with_served_surface_def
    with_verified_claims_def with_trusted_model_id_def with_publication_extensions_def with_default_owner_def
    invoked_by_tool_def with_expires_at_def with_auth_epoch_def result_simps bind_eq_Some_conv split: if_splits\<close>)

lemma confined_steps:
  "builder_step\<^sup>*\<^sup>* C C' \<Longrightarrow> authz_ok C \<Longrightarrow> state_confined_to (ac_owner_scope C) = Some w \<Longrightarrow>
     authz_ok C' \<and> state_confined_to (ac_owner_scope C') = Some w"
  by (induction rule: rtranclp_induct) (blast intro: authz_ok_step confined_step)+

lemma confined_only:
  assumes "authz_ok C" "state_confined_to (ac_owner_scope C) = Some w"
  shows "ac_may_read C v k \<Longrightarrow> v = w" "ac_may_write C v k \<Longrightarrow> v = w" "ac_may_manage C v \<Longrightarrow> v = w"
proof -
  have only: "v = w" if "ac_owner_roles C = Some R" "role_for R v = Some r" for R r
    using authz_okD(1) [OF assms(1) that(1)] assms(2) that(2) by (auto simp: roles_agree_def)
  show "ac_may_read C v k \<Longrightarrow> v = w" "ac_may_write C v k \<Longrightarrow> v = w" "ac_may_manage C v \<Longrightarrow> v = w"
    by (auto simp: ac_may_read_def ac_may_write_def ac_may_manage_def roles_may_read_def roles_may_write_def
        roles_may_manage_def is_some_and_iff intro: only)
qed

definition demo_context :: authz_context where
  "demo_context = server_resolved_with_writer (with_group_role (empty_for_subject (UserId 1)) (GroupId 2) role_editor)
     HostBearer \<lparr>wa_by = 1, wa_via = None\<rparr>"

lemma demo_context_reachable: "reachable_context demo_context"
  unfolding demo_context_def by (rule init_server) simp

section \<open>Properties\<close>

text \<open>
  C1. Every context reachable by a constructor and any sequence of builder calls satisfies the
  context invariant: well-formed roles, an accessible set that is exactly the Fact-readable
  owners, a default owner the roles carry, a sealed scope with the same roles and writer, a
  forwarded context that holds at most the forwarded owner and never manages it.
\<close>

theorem reachable_context_invariant:
  assumes "reachable_context C"
  shows "authz_ok C \<and>
    (\<forall>w. ac_can_access_owner C w \<longleftrightarrow> ac_may_read C w KFact) \<and>
    (\<forall>w. ac_default_owner C = Some w \<longrightarrow> ac_role_for_owner C w \<noteq> None) \<and>
    (\<forall>S now w k. ac_sealed_scope C = Some S \<and> os_may_read now S w k \<longrightarrow> ac_may_read C w k) \<and>
    (\<forall>S now w k. ac_sealed_scope C = Some S \<and> os_may_write now S w k \<longrightarrow> ac_may_write C w k)"
proof (cases "ac_owner_roles C")
  case None
  note ok = authz_ok_reachable [OF assms]
  then show ?thesis
    using None by (auto simp: authz_ok_def ac_can_access_owner_def can_access_principal_def ac_may_read_def)
next
  case (Some R)
  note ok = authz_ok_reachable [OF assms] and agree = authz_okD [OF authz_ok_reachable [OF assms] Some]
  have "ac_can_access_owner C w \<longleftrightarrow> ac_may_read C w KFact" for w
    using agree Some owner_roles_okD(1) [OF agree(2)]
    by (simp add: roles_agree_def ac_can_access_owner_def can_access_principal_def accessible_of_def
        ac_may_Some(1) [OF Some] roles_readable_owners_def set_ordered_owners roles_may_read_def)
  moreover have "ac_default_owner C = Some w \<Longrightarrow> ac_role_for_owner C w \<noteq> None" for w
    using agree Some by (simp add: roles_agree_def ac_role_for_owner_def)
  moreover have "roles_equiv (os_roles S) R" if "ac_sealed_scope C = Some S" for S
    using agree(1) that by (cases "ac_owner_scope C") (auto simp: roles_agree_def scope_agrees_def ac_sealed_scope_def)
  then have "ac_sealed_scope C = Some S \<Longrightarrow> os_may_read now S w k \<Longrightarrow> ac_may_read C w k"
    and "ac_sealed_scope C = Some S \<Longrightarrow> os_may_write now S w k \<Longrightarrow> ac_may_write C w k" for S now w k
    unfolding ac_may_Some(1,2) [OF Some]
    by (fastforce simp: os_may_read_def os_may_write_def roles_may_read_def roles_may_write_def roles_equiv_def)+
  ultimately show ?thesis using ok by blast
qed

theorem reachable_context_invariant_witness:
  "ac_can_access_owner demo_context (OwnerId 2) \<longleftrightarrow> ac_may_read demo_context (OwnerId 2) KFact"
  using reachable_context_invariant [OF demo_context_reachable] by blast

text \<open>
  Narrowing a context is exact: it succeeds iff the context carries a role for the owner, and
  then grants on that owner exactly what the context granted and on no other owner anything; the
  result has no default owner and a sealed context stays sealed with the same writer.
\<close>

theorem narrowed_to_owner_exact:
  assumes "reachable_context C"
  shows "(narrowed_to_owner C w \<noteq> None \<longleftrightarrow> ac_role_for_owner C w \<noteq> None) \<and>
    (\<forall>C'. narrowed_to_owner C w = Some C' \<longrightarrow>
      (\<forall>v k. (ac_may_read C' v k \<longleftrightarrow> v = w \<and> ac_may_read C v k) \<and>
        (ac_may_write C' v k \<longleftrightarrow> v = w \<and> ac_may_write C v k)) \<and>
      (\<forall>v. ac_may_manage C' v \<longleftrightarrow> v = w \<and> ac_may_manage C v) \<and>
      ac_default_owner C' = None \<and> map_option os_writer (ac_sealed_scope C') = map_option os_writer (ac_sealed_scope C))"
proof (intro conjI allI impI)
  note ok = authz_ok_reachable [OF assms]
  show "narrowed_to_owner C w \<noteq> None \<longleftrightarrow> ac_role_for_owner C w \<noteq> None"
  proof (cases "ac_owner_roles C")
    case (Some R)
    have "role_for (os_roles S) w = role_for R w" if "ac_owner_scope C = Sealed S" for S
      using authz_okD(1) [OF ok Some] that by (simp add: roles_agree_def scope_agrees_def roles_equiv_def)
    then show ?thesis
      using Some by (cases "role_for R w"; cases "ac_owner_scope C")
        (simp_all add: narrowed_to_owner_def ac_role_for_owner_def os_narrow_def Let_def)
  qed (simp add: narrowed_to_owner_def ac_role_for_owner_def)
  fix C'
  assume nar: "narrowed_to_owner C w = Some C'"
  then obtain R r where R: "ac_owner_roles C = Some R" "role_for R w = Some r"
    and R': "ac_owner_roles C' = Some (scoped_to (or_subject R) w r)" and d: "ac_default_owner C' = None"
    by (auto simp: narrowed_to_owner_Some)
  show "ac_may_read C' v k \<longleftrightarrow> v = w \<and> ac_may_read C v k" "ac_may_write C' v k \<longleftrightarrow> v = w \<and> ac_may_write C v k" for v k
    using R by (auto simp: ac_may_Some [OF R(1)] ac_may_Some [OF R'] roles_may_read_def roles_may_write_def
        split: if_splits)
  show "ac_may_manage C' v \<longleftrightarrow> v = w \<and> ac_may_manage C v" for v
    using R by (auto simp: ac_may_Some [OF R(1)] ac_may_Some [OF R'] roles_may_manage_def is_own_def split: if_splits)
  show "ac_default_owner C' = None" by (rule d)
  show "map_option os_writer (ac_sealed_scope C') = map_option os_writer (ac_sealed_scope C)"
    using nar by (cases "ac_owner_scope C") (auto simp: narrowed_to_owner_Some os_narrow_Some ac_sealed_scope_def)
qed

theorem narrowed_to_owner_exact_witness:
  "\<exists>C'. narrowed_to_owner demo_context (OwnerId 2) = Some C' \<and> ac_may_write C' (OwnerId 2) KPerspective \<and>
     \<not> ac_may_read C' (OwnerId 1) KFact"
proof -
  note th = narrowed_to_owner_exact [OF demo_context_reachable, of "OwnerId 2"]
  have r: "ac_role_for_owner demo_context (OwnerId 2) = Some role_editor"
    by (simp add: demo_context_def server_resolved_with_writer_def ac_role_for_owner_def owner_of_group_def
        owner_of_user_def empty_for_subject_def)
  with th obtain C' where C': "narrowed_to_owner demo_context (OwnerId 2) = Some C'" by blast
  have "ac_may_write demo_context (OwnerId 2) KPerspective"
    using r by (auto simp: ac_may_write_def roles_may_write_def ac_role_for_owner_def is_some_and_iff
        bind_eq_Some_conv role_may_write_def ceiling_allows_def role_editor_def)
  with th C' have "ac_may_write C' (OwnerId 2) KPerspective" "\<not> ac_may_read C' (OwnerId 1) KFact" by auto
  with C' show ?thesis by blast
qed

text \<open>
  C2. Narrowing is permanent: after a context has been narrowed to an owner, no later sequence of
  builder calls (sealing, group resolution, forwarding, further narrowing, ...) gives it read,
  write or manage authority on any other owner.
\<close>

theorem narrowing_is_permanent:
  assumes "reachable_context C" and "narrowed_to_owner C w = Some C1" and "builder_step\<^sup>*\<^sup>* C1 C2"
    and "v \<noteq> w"
  shows "\<not> ac_may_read C2 v k \<and> \<not> ac_may_write C2 v k \<and> \<not> ac_may_manage C2 v"
proof -
  have "authz_ok C1" using authz_ok_narrowed [OF authz_ok_reachable [OF assms(1)] assms(2)] .
  from confined_steps [OF assms(3) this narrowed_confined [OF assms(2)]]
  have "authz_ok C2" "state_confined_to (ac_owner_scope C2) = Some w" by simp_all
  from confined_only [OF this] assms(4) show ?thesis by blast
qed

theorem narrowing_is_permanent_witness:
  "\<exists>C1 C2. narrowed_to_owner demo_context (OwnerId 2) = Some C1 \<and> seal_verified_scope C1 = Inr C2 \<and>
     \<not> ac_may_read C2 (OwnerId 1) KFact"
proof -
  obtain C1 where C1: "narrowed_to_owner demo_context (OwnerId 2) = Some C1"
    by (simp add: narrowed_to_owner_def demo_context_def server_resolved_with_writer_def owner_of_group_def
        owner_of_user_def empty_for_subject_def Let_def)
  then obtain C2 where C2: "seal_verified_scope C1 = Inr C2"
    by (auto simp: narrowed_to_owner_Some demo_context_def server_resolved_with_writer_def seal_verified_scope_def
        ac_accessors from_verified_roles_def os_narrow_def Let_def)
  have "\<not> ac_may_read C2 (OwnerId 1) KFact \<and> \<not> ac_may_write C2 (OwnerId 1) KFact \<and> \<not> ac_may_manage C2 (OwnerId 1)"
    by (rule narrowing_is_permanent [OF demo_context_reachable C1 r_into_rtranclp [where r = builder_step, OF step_seal [OF C2]]]) simp
  with C1 C2 show ?thesis by blast
qed

text \<open>
  C22. A forwarded context reads and writes only the owner its credential names, never manages it,
  and never carries a Goal principal, whatever builders ran.
\<close>

theorem forwarded_context_confined:
  assumes "reachable_context C" and "ac_forwarded_owner C = Some w"
  shows "(ac_may_read C v k \<longrightarrow> v = w) \<and> (ac_may_write C v k \<longrightarrow> v = w) \<and> \<not> ac_may_manage C v \<and>
    (\<forall>S. ac_sealed_scope C = Some S \<longrightarrow> os_goal_principal S = None)"
proof (cases "ac_owner_roles C")
  case None
  then show ?thesis
    using authz_ok_reachable [OF assms(1)]
    by (auto simp: authz_ok_def ac_may_read_def ac_may_write_def ac_may_manage_def)
next
  case (Some R)
  note agree = authz_okD(1) [OF authz_ok_reachable [OF assms(1)] Some]
  have only: "role_for R v = Some r \<Longrightarrow> v = w \<and> \<not> role_manage r" for r
    using agree assms(2) by (auto simp: roles_agree_def dest: forwarded_withinD)
  have "os_goal_principal S = None" if "ac_sealed_scope C = Some S" for S
    using agree assms(2) that
    by (cases "ac_owner_scope C") (auto simp: roles_agree_def scope_agrees_def ac_sealed_scope_def)
  then show ?thesis
    using only by (auto simp: ac_may_Some [OF Some] roles_may_read_def roles_may_write_def roles_may_manage_def
        is_some_and_iff)
qed

theorem forwarded_context_confined_witness:
  "\<not> ac_may_read (from_verified_forwarded_owner (UserId 1) (OwnerId 5) \<lparr>wa_by = 1, wa_via = None\<rparr>) (OwnerId 1) KFact"
  using forwarded_context_confined [OF init_forwarded, of "UserId 1" "OwnerId 5" "\<lparr>wa_by = 1, wa_via = None\<rparr>" "OwnerId 5" "OwnerId 1" KFact]
  by (auto simp: from_verified_forwarded_owner_def)

text \<open>
  A denied context stays denied: whatever builders are applied to it, it reads, writes and
  manages nothing, reaches no owner, has no writer and cannot be sealed.
\<close>

theorem denied_stays_denied:
  assumes "builder_step\<^sup>*\<^sup>* (denied_for_owner w) C"
  shows "\<not> ac_may_read C v k \<and> \<not> ac_may_write C v k \<and> \<not> ac_may_manage C v \<and> \<not> ac_can_access_owner C v \<and>
    ac_writer C = None \<and> seal_verified_scope C = Inl InvalidCredentials"
proof -
  have closed: "ac_owner_roles C = None \<and> ac_auth_path C = Denied \<and> authz_ok C"
    using assms
  proof (induction rule: rtranclp_induct)
    case base
    then show ?case by (simp add: authz_ok_denied) (simp add: denied_for_owner_def)
  next
    case (step C C')
    then have C: "ac_owner_roles C = None" "ac_auth_path C = Denied" "authz_ok C" "ac_sealed_scope C = None"
      by (auto simp: authz_ok_def)
    from step(2) C authz_ok_step [OF step(2) C(3)] show ?case
      by cases (auto simp: seal_verified_scope_def narrowed_to_owner_def with_attested_writer_def
          with_authenticated_forwarded_owner_def with_tool_scope_def with_served_surface_def with_verified_claims_def
          with_trusted_model_id_def with_publication_extensions_def with_default_owner_def invoked_by_tool_def
          with_host_resolved_role_def with_authenticated_group_role_def with_expires_at_def with_auth_epoch_def
          ac_role_for_owner_def result_simps split: if_splits)
  qed
  then have "id_accessible (ac_identity C) = {}" "ac_writer C = None" by (auto simp: authz_ok_def)
  with closed show ?thesis
    by (simp add: ac_may_read_def ac_may_write_def ac_may_manage_def ac_can_access_owner_def can_access_principal_def
        seal_verified_scope_def)
qed

theorem denied_stays_denied_witness:
  "\<not> ac_may_read (with_tool_scope (denied_for_owner (OwnerId 1)) ScopeAll) (OwnerId 1) KFact"
  using denied_stays_denied [OF r_into_rtranclp [where r = builder_step, OF step_tool_scope], of "OwnerId 1" ScopeAll "OwnerId 1" KFact] by blast

text \<open>
  The Goal principal lane is minted exactly by sealing an unforwarded, unconfined bearer
  context, and then names the authenticated subject; every other sealing yields none.
\<close>

theorem goal_principal_sealing:
  assumes "reachable_context C" and "seal_verified_scope C = Inr C'" and "ac_sealed_scope C' = Some S"
  shows "os_goal_principal S =
    (if ac_auth_path C = HostBearer \<and> ac_forwarded_owner C = None \<and> state_confined_to (ac_owner_scope C) = None
     then map_option GoalPrincipalScope (ac_subject C) else None)"
proof -
  from assms(2) obtain R wr where R: "ac_owner_roles C = Some R" "ac_writer C = Some wr"
    by (auto simp: seal_verified_scope_def result_simps)
  have sub: "ac_subject C = Some (or_subject R)"
    using authz_okD(1) [OF authz_ok_reachable [OF assms(1)] R(1)] by (simp add: roles_agree_def)
  show ?thesis
    using assms(2,3) R sub
    by (cases "state_confined_to (ac_owner_scope C)")
      (auto simp: seal_verified_scope_def result_simps Let_def ac_sealed_scope_def os_narrow_Some
        from_verified_roles_def os_with_goal_principal_def os_subject_def split: if_splits)
qed

theorem goal_principal_sealing_witness:
  "\<exists>C' S. seal_verified_scope demo_context = Inr C' \<and> ac_sealed_scope C' = Some S \<and>
     os_goal_principal S = Some (GoalPrincipalScope (UserId 1))"
proof -
  obtain C' where C': "seal_verified_scope demo_context = Inr C'"
    by (simp add: seal_verified_scope_def demo_context_def server_resolved_with_writer_def ac_accessors Let_def)
  then obtain S where S: "ac_sealed_scope C' = Some S"
    by (auto simp: seal_verified_scope_def result_simps Let_def ac_sealed_scope_def)
  from goal_principal_sealing [OF demo_context_reachable C' S] C' S show ?thesis
    by (intro exI [of _ C'] exI [of _ S]) (simp add: demo_context_def server_resolved_with_writer_def ac_subject_def
        empty_for_subject_def)
qed

end
