(* ===== verification/Revalidation.thy ===== *)
theory Revalidation
  imports Authz
begin

text \<open>
  Long-lived streams of an authenticated caller: the revalidation at the end of \<open>crates/core/src/authz.rs\<close>. One poll of
  the wrapped stream is one step; what the poll finds (the clock, the inner stream's answer, and the answer of an epoch check in
  flight) is its input. Clock readings and durations are in nanoseconds. A tokio sleep is ready from its deadline on; an
  interval is ready from its next tick on and then moves that tick by its period.
\<close>

section \<open>The wrapper\<close>

record revalidation_config =
  max_stream_lifetime :: nat
  epoch_check_interval :: nat

definition revalidation_default :: revalidation_config where
  "revalidation_default = \<lparr>max_stream_lifetime = 3600000000000, epoch_check_interval = 30000000000\<rparr>"

text \<open>\<open>rs_epoch_check\<close> says that a check is in flight; \<open>rs_epoch_interval\<close> is the next tick and the period.\<close>

record revalidated_stream =
  rs_identity :: identity
  rs_authenticator :: bool
  rs_expires_at :: "nat option"
  rs_max_lifetime :: nat
  rs_epoch_interval :: "(nat \<times> nat) option"
  rs_epoch_check :: bool
  rs_closing :: bool
  rs_closed :: bool

datatype 'i poll = Pending | ReadyNone | ReadySome 'i

record 'i polled =
  po_now :: nat
  po_inner :: "'i poll"
  po_epoch :: "u64 option"

definition non_zero_duration :: "nat \<Rightarrow> nat" where
  "non_zero_duration d = (if d = 0 then 1 else d)"

definition system_time_sleep :: "nat \<Rightarrow> system_time \<Rightarrow> system_time \<Rightarrow> nat" where
  "system_time_sleep instant system_now deadline = instant + nat (deadline - system_now)"

definition revalidate_stream :: "identity \<Rightarrow> bool \<Rightarrow> revalidation_config \<Rightarrow> nat \<Rightarrow> system_time \<Rightarrow> revalidated_stream" where
  "revalidate_stream ident authenticator config instant system_now =
     \<lparr>rs_identity = ident, rs_authenticator = authenticator,
      rs_expires_at = map_option (system_time_sleep instant system_now) (id_expires_at ident),
      rs_max_lifetime = instant + max_stream_lifetime config,
      rs_epoch_interval = (if authenticator
        then (let interval = non_zero_duration (epoch_check_interval config) in Some (instant + interval, interval)) else None),
      rs_epoch_check = False, rs_closing = False, rs_closed = False\<rparr>"

definition observe_termination :: "'i polled \<Rightarrow> revalidated_stream \<Rightarrow> bool \<times> revalidated_stream" where
  "observe_termination p st =
     (if rs_max_lifetime st \<le> po_now p then (True, st)
      else if is_some_and (rs_expires_at st) (\<lambda>deadline. deadline \<le> po_now p) then (True, st)
      else let st1 = (case rs_epoch_interval st of
              Some (tick, period) \<Rightarrow>
                if tick \<le> po_now p
                then st\<lparr>rs_epoch_interval := Some (tick + period, period), rs_epoch_check := rs_epoch_check st \<or> rs_authenticator st\<rparr>
                else st
            | None \<Rightarrow> st) in
        if rs_epoch_check st1
        then (case po_epoch p of
            Some epoch \<Rightarrow> (epoch > id_auth_epoch (rs_identity st1), st1\<lparr>rs_epoch_check := False\<rparr>)
          | None \<Rightarrow> (False, st1))
        else (False, st1))"

definition poll_next :: "'i polled \<Rightarrow> revalidated_stream \<Rightarrow> 'i poll \<times> revalidated_stream" where
  "poll_next p st =
     (if rs_closed st then (ReadyNone, st)
      else if rs_closing st then
        (case po_inner p of ReadySome item \<Rightarrow> (ReadySome item, st) | _ \<Rightarrow> (ReadyNone, st\<lparr>rs_closed := True\<rparr>))
      else (case po_inner p of
          ReadySome item \<Rightarrow> (let (ends, st') = observe_termination p st in (ReadySome item, st'\<lparr>rs_closing := ends\<rparr>))
        | ReadyNone \<Rightarrow> (ReadyNone, st\<lparr>rs_closed := True\<rparr>)
        | Pending \<Rightarrow> (let (ends, st') = observe_termination p st in
            if ends then (ReadyNone, st'\<lparr>rs_closed := True\<rparr>) else (Pending, st'))))"

section \<open>Runs of polls\<close>

fun polls :: "revalidated_stream \<Rightarrow> 'i polled list \<Rightarrow> 'i poll list" where
  "polls st [] = []"
| "polls st (p # ps) = (case poll_next p st of (r, st') \<Rightarrow> r # polls st' ps)"

definition stream_after :: "revalidated_stream \<Rightarrow> 'i polled list \<Rightarrow> revalidated_stream" where
  "stream_after st ps = foldl (\<lambda>st p. snd (poll_next p st)) st ps"

fun has_item :: "'i polled \<Rightarrow> bool" where
  "has_item p = (case po_inner p of ReadySome _ \<Rightarrow> True | _ \<Rightarrow> False)"

text \<open>The items ready without a pause, then the end.\<close>

definition drained :: "'i polled list \<Rightarrow> 'i poll list" where
  "drained ps = map po_inner (takeWhile has_item ps) @ replicate (length (dropWhile has_item ps)) ReadyNone"

text \<open>A reason to end: a deadline, or a check that answers with a later epoch.\<close>

definition ends_at :: "revalidated_stream \<Rightarrow> nat \<Rightarrow> bool" where
  "ends_at st now \<longleftrightarrow> rs_max_lifetime st \<le> now \<or> is_some_and (rs_expires_at st) (\<lambda>deadline. deadline \<le> now)"

definition revoked_at :: "revalidated_stream \<Rightarrow> 'i polled \<Rightarrow> bool" where
  "revoked_at st p \<longleftrightarrow> is_some_and (po_epoch p) (\<lambda>epoch. epoch > id_auth_epoch (rs_identity st)) \<and>
     (rs_epoch_check st \<or> rs_authenticator st \<and> is_some_and (rs_epoch_interval st) (\<lambda>(tick, _). tick \<le> po_now p))"

lemma observe_exact: "fst (observe_termination p st) \<longleftrightarrow> ends_at st (po_now p) \<or> revoked_at st p"
  by (auto simp: observe_termination_def ends_at_def revoked_at_def Let_def is_some_and_def split: option.splits)

lemma observe_frame:
  "rs_identity (snd (observe_termination p st)) = rs_identity st" "rs_max_lifetime (snd (observe_termination p st)) = rs_max_lifetime st"
  "rs_expires_at (snd (observe_termination p st)) = rs_expires_at st" "rs_authenticator (snd (observe_termination p st)) = rs_authenticator st"
  "rs_closed (snd (observe_termination p st)) = rs_closed st" "rs_closing (snd (observe_termination p st)) = rs_closing st"
  by (simp_all add: observe_termination_def Let_def split: option.split prod.split)

lemma poll_frame:
  "rs_max_lifetime (snd (poll_next p st)) = rs_max_lifetime st" "rs_expires_at (snd (poll_next p st)) = rs_expires_at st"
  by (simp_all add: poll_next_def Let_def split_beta observe_frame split: poll.split)

lemma stream_after_ends: "ends_at (stream_after st ps) now = ends_at st now"
proof (induction ps arbitrary: st)
  case (Cons p ps)
  from Cons.IH [of "snd (poll_next p st)"] show ?case by (simp add: stream_after_def ends_at_def poll_frame)
qed (simp add: stream_after_def)

lemma polls_closed: "rs_closed st \<Longrightarrow> polls st ps = replicate (length ps) ReadyNone"
  by (induction ps) (simp_all add: poll_next_def)

lemma polls_closing:
  assumes "rs_closing st" "\<not> rs_closed st"
  shows "polls st ps = drained ps"
  using assms
proof (induction ps)
  case (Cons p ps)
  then show ?case using polls_closed [of "st\<lparr>rs_closed := True\<rparr>" ps]
    by (cases "po_inner p") (simp_all add: poll_next_def drained_def)
qed (simp add: drained_def)

lemma polls_ending:
  assumes "\<not> rs_closed st" "rs_closing st \<or> ends_at st (po_now p) \<or> revoked_at st p"
  shows "polls st (p # ps) = drained (p # ps)"
proof (cases "rs_closing st")
  case False
  with assms(2) have ends: "fst (observe_termination p st)" by (simp add: observe_exact)
  let ?st = "snd (observe_termination p st)"
  have "polls (?st\<lparr>rs_closing := True\<rparr>) ps = drained ps" by (rule polls_closing) (simp_all add: observe_frame assms(1))
  moreover have "polls (?st\<lparr>rs_closed := True\<rparr>) ps = replicate (length ps) ReadyNone" "polls (st\<lparr>rs_closed := True\<rparr>) ps = replicate (length ps) ReadyNone"
    by (simp_all add: polls_closed)
  ultimately show ?thesis using False assms(1) ends
    by (cases "po_inner p") (simp_all add: poll_next_def drained_def split_beta)
qed (rule polls_closing [OF _ assms(1)])

lemma poll_undisturbed:
  assumes "\<not> rs_closed st" "\<not> rs_closing st" "\<not> ends_at st (po_now p)" "\<not> revoked_at st p"
  shows "fst (poll_next p st) = po_inner p"
proof -
  have "\<not> fst (observe_termination p st)" using assms(3,4) by (simp add: observe_exact)
  with assms(1,2) show ?thesis by (simp add: poll_next_def split_beta split: poll.split)
qed

section \<open>Properties\<close>

text \<open>
  C25. A revalidated stream ends for its reasons and for no other. After any history of polls, a poll that finds the lifetime or
  the credential's expiry reached, or an epoch check answering with a later epoch, leaves only what the inner stream has ready
  without a pause: those items are passed on, and from the first poll without one the stream has ended for good; it is
  never pending again. A poll that finds none of these, on a stream not yet ending, answers exactly as the inner stream does.
\<close>

theorem revalidated_stream_exact:
  assumes st: "st = stream_after (revalidate_stream ident authenticator config instant system_now) before"
  shows "(instant + max_stream_lifetime config \<le> po_now p \<or>
      is_some_and (id_expires_at ident) (\<lambda>deadline. instant + nat (deadline - system_now) \<le> po_now p) \<or> revoked_at st p \<longrightarrow>
      polls st (p # ps) = (if rs_closed st then replicate (Suc (length ps)) ReadyNone else drained (p # ps))) \<and>
    (\<not> rs_closed st \<and> \<not> rs_closing st \<and> instant + max_stream_lifetime config > po_now p \<and>
      \<not> is_some_and (id_expires_at ident) (\<lambda>deadline. instant + nat (deadline - system_now) \<le> po_now p) \<and> \<not> revoked_at st p \<longrightarrow>
      fst (poll_next p st) = po_inner p)"
proof -
  have due: "ends_at st (po_now p) \<longleftrightarrow> instant + max_stream_lifetime config \<le> po_now p \<or>
      is_some_and (id_expires_at ident) (\<lambda>deadline. instant + nat (deadline - system_now) \<le> po_now p)"
    unfolding st stream_after_ends by (auto simp: ends_at_def revalidate_stream_def system_time_sleep_def is_some_and_def split: option.splits)
  show ?thesis using polls_ending [of st p ps] polls_closed [of st "p # ps"] poll_undisturbed [of st p] unfolding due by auto
qed

definition demo_identity :: identity where
  "demo_identity = \<lparr>id_subject = None, id_writer = None, id_principal = OwnerId 1, id_accessible = {OwnerId 1}, id_expires_at = Some 100,
     id_auth_epoch = 3, id_trusted_model_id = None\<rparr>"

theorem revalidated_stream_exact_witness:
  "polls (stream_after (revalidate_stream demo_identity False revalidation_default 10 40) [\<lparr>po_now = 20, po_inner = Pending, po_epoch = None\<rparr> :: nat polled])
     [\<lparr>po_now = 70, po_inner = ReadySome (1 :: nat), po_epoch = None\<rparr>, \<lparr>po_now = 71, po_inner = Pending, po_epoch = None\<rparr>] =
   [ReadySome 1, ReadyNone]"
proof -
  let ?st = "stream_after (revalidate_stream demo_identity False revalidation_default 10 40) [\<lparr>po_now = 20, po_inner = Pending, po_epoch = None\<rparr> :: nat polled]"
  let ?p = "\<lparr>po_now = 70, po_inner = ReadySome (1 :: nat), po_epoch = None\<rparr>" and ?q = "\<lparr>po_now = 71, po_inner = Pending, po_epoch = None\<rparr> :: nat polled"
  have "\<not> rs_closed ?st"
    by (simp add: stream_after_def revalidate_stream_def poll_next_def observe_termination_def demo_identity_def system_time_sleep_def revalidation_default_def)
  moreover have "is_some_and (id_expires_at demo_identity) (\<lambda>deadline. 10 + nat (deadline - 40) \<le> po_now ?p)" by (simp add: demo_identity_def)
  ultimately have "polls ?st [?p, ?q] = drained [?p, ?q]"
    using revalidated_stream_exact [OF refl, of 10 revalidation_default ?p demo_identity 40 False "[\<lparr>po_now = 20, po_inner = Pending, po_epoch = None\<rparr> :: nat polled]" "[?q]"] by argo
  also have "\<dots> = [ReadySome 1, ReadyNone]" by (simp add: drained_def)
  finally show ?thesis .
qed

text \<open>
  C40. A stream whose inner side always has an item ready does not end, whatever the clock and the host's epoch say: every poll
  passes its item on, without bound, past the lifetime, past the credential's expiry and after a revocation.
\<close>

theorem busy_stream_outlives_its_credential:
  "polls (revalidate_stream ident authenticator config instant system_now)
     (map (\<lambda>(now, item, epoch). \<lparr>po_now = now, po_inner = ReadySome item, po_epoch = epoch\<rparr>) polled) =
   map (\<lambda>(now, item, epoch). ReadySome item) polled"
proof -
  have "polls st (map (\<lambda>(now, item, epoch). \<lparr>po_now = now, po_inner = ReadySome item, po_epoch = epoch\<rparr>) polled) =
      map (\<lambda>(now, item, epoch). ReadySome item) polled" if "\<not> rs_closed st" for st
    using that by (induction polled arbitrary: st) (auto simp: poll_next_def split_beta observe_frame)
  then show ?thesis by (simp add: revalidate_stream_def)
qed

end
