(* ===== verification/Pipeline.thy ===== *)
theory Pipeline
  imports Authz
begin

text \<open>
  The authorization pipeline: hook vocabulary (\<open>crates/core/src/authz/hooks.rs\<close>), the registry's
  resolver, vetoes and observers (\<open>crates/core/src/verbs/schema.rs\<close>), sealed write permits
  (\<open>crates/core/src/storage_ports/proof.rs\<close>) and the engine's gates
  (\<open>crates/core/src/engine/pipeline.rs\<close>, \<open>crates/core/src/engine/mod.rs\<close>).

  The owner resolver, the hooks and storage are host code: \<open>engine\<close> holds the resolver and the
  veto functions, storage answers are arguments. Every hook observes the same sequence of
  decisions, so the observers are modelled by that sequence: a gate returns its result together
  with the decisions it reported. \<open>now\<close> is the instant the authority is checked, \<open>now'\<close> the later
  instant scope reads use.
\<close>

section \<open>Hook vocabulary\<close>

datatype authz_outcome = Allowed | DeniedGrant | DeniedVeto | DeniedResolution | DeniedInternal

datatype membership_change = MemberAdd | MemberRemove

datatype goal_collaboration_change =
  GrantAccess | RevokeAccess | Publish | Unpublish | BindWork | UnbindWork | AuthorWork | Edit | Fork

datatype authz_operation =
    OpRead access_kind
  | OpWrite access_kind
  | OpOwnerAdmin
  | OpMembership membership_change group_id owner_id relation
  | OpEntityTransfer entity_id owner_id
  | OpGoalCollaboration goal_handle goal_collaboration_change

record authz_input =
  ai_authz :: authz_context
  ai_requested :: owner_id
  ai_resolved :: owner_id
  ai_operation :: authz_operation

type_synonym decision = "authz_input \<times> authz_outcome"
type_synonym 'a audited = "(protocol_error, 'a) result \<times> decision list"

record engine =
  eng_resolver :: "(authz_context \<Rightarrow> owner_id \<Rightarrow> (protocol_error, owner_id) result) option"
  eng_hooks :: "(authz_input \<Rightarrow> (str, unit) result) list"
  eng_system_binding :: system_authority_binding
  eng_delegation_binding :: delegation_runtime_binding

definition resolve_owner :: "engine \<Rightarrow> authz_context \<Rightarrow> owner_id \<Rightarrow> (protocol_error, owner_id) result" where
  "resolve_owner E C requested =
     (case eng_resolver E of Some resolver \<Rightarrow> resolver C requested | None \<Rightarrow> Inr requested)"

fun run_vetoes :: "(authz_input \<Rightarrow> (str, unit) result) list \<Rightarrow> authz_input \<Rightarrow> (protocol_error, unit) result" where
  "run_vetoes [] inp = Inr ()"
| "run_vetoes (veto # hooks) inp = rbind (map_err forbidden (veto inp)) (\<lambda>_. run_vetoes hooks inp)"

definition run_authorization_vetoes :: "engine \<Rightarrow> authz_input \<Rightarrow> (protocol_error, unit) result" where
  "run_authorization_vetoes E inp = run_vetoes (eng_hooks E) inp"

section \<open>Write permits\<close>

record owner_write_permit =
  wp_owner :: owner_id
  wp_access_kind :: access_kind
  wp_owner_scope :: "owner_scope option"
  wp_transfer_destination :: "owner_id option"
  wp_delegated :: "(delegation_runtime_binding \<times> system_time) option"

definition permit_new :: "owner_id \<Rightarrow> access_kind \<Rightarrow> owner_scope option \<Rightarrow> owner_write_permit" where
  "permit_new w k sc =
     \<lparr>wp_owner = w, wp_access_kind = k, wp_owner_scope = sc, wp_transfer_destination = None, wp_delegated = None\<rparr>"

definition permit_new_delegated ::
  "owner_id \<Rightarrow> access_kind \<Rightarrow> delegation_runtime_binding \<Rightarrow> system_time \<Rightarrow> owner_scope option \<Rightarrow> owner_write_permit" where
  "permit_new_delegated w k b ex sc =
     \<lparr>wp_owner = w, wp_access_kind = k, wp_owner_scope = sc, wp_transfer_destination = None, wp_delegated = Some (b, ex)\<rparr>"

definition validate_for_engine ::
  "system_time \<Rightarrow> owner_write_permit \<Rightarrow> delegation_runtime_binding \<Rightarrow> (protocol_error, unit) result" where
  "validate_for_engine now p b =
     (case wp_delegated p of
        None \<Rightarrow> Inr ()
      | Some (pb, ex) \<Rightarrow>
          if pb \<noteq> b then Inl (forbidden (lit ''delegated write witness belongs to a different runtime''))
          else if ex \<le> now then Inl (forbidden (lit ''delegated write witness has expired''))
          else Inr ())"

definition authorize_transfer_to :: "owner_write_permit \<Rightarrow> owner_id \<Rightarrow> owner_write_permit" where
  "authorize_transfer_to p w = p\<lparr>wp_transfer_destination := Some w\<rparr>"

datatype membership_member_authority = CallerDoesNotManageMember | CallerManagesMember
datatype membership_endpoint_authority = EndpointParent | EndpointMember

record membership_write_permit =
  mp_owner :: owner_write_permit
  mp_parent :: owner_id
  mp_member_authority :: membership_member_authority
  mp_endpoint_authority :: membership_endpoint_authority
  mp_caller :: "user_id option"

definition membership_permit_new ::
  "owner_write_permit \<Rightarrow> owner_id \<Rightarrow> membership_member_authority \<Rightarrow> membership_endpoint_authority \<Rightarrow> membership_write_permit" where
  "membership_permit_new p parent ma ea =
     \<lparr>mp_owner = p, mp_parent = parent, mp_member_authority = ma, mp_endpoint_authority = ea, mp_caller = None\<rparr>"

definition membership_with_caller :: "membership_write_permit \<Rightarrow> user_id \<Rightarrow> membership_write_permit" where
  "membership_with_caller p u = p\<lparr>mp_caller := Some u\<rparr>"

datatype host_state_write_origin = OwnerAuthorized owner_id | Maintenance

record host_state_write_permit =
  hp_owner :: owner_id
  hp_participant_id :: str
  hp_tables :: "str list"
  hp_origin :: host_state_write_origin
  hp_authority_read_scope :: "owner_scope option"

definition host_state_permit_new :: "owner_id \<Rightarrow> str \<Rightarrow> str list \<Rightarrow> host_state_write_origin \<Rightarrow> host_state_write_permit" where
  "host_state_permit_new w part tables origin =
     \<lparr>hp_owner = w, hp_participant_id = part, hp_tables = tables, hp_origin = origin, hp_authority_read_scope = None\<rparr>"

definition owner_authorized :: "owner_id \<Rightarrow> str \<Rightarrow> str list \<Rightarrow> authz_context \<Rightarrow> host_state_write_permit" where
  "owner_authorized w part tables C =
     (let p = host_state_permit_new w part tables (OwnerAuthorized (ac_principal C)) in
      if ac_auth_path C = HostBearer \<and> ac_forwarded_owner C = None
      then p\<lparr>hp_authority_read_scope := ac_sealed_scope C\<rparr> else p)"

definition matches_request :: "host_state_write_permit \<Rightarrow> str \<Rightarrow> str list \<Rightarrow> bool" where
  "matches_request p part tables \<longleftrightarrow> hp_participant_id p = part \<and> hp_tables p = tables"

section \<open>Gates\<close>

definition operation_authority ::
  "engine \<Rightarrow> system_time \<Rightarrow> engine_authority \<Rightarrow> (protocol_error, engine_operation_authority) result" where
  "operation_authority E now auth =
     rbind (context_for_engine_operation now auth) (\<lambda>op.
     rbind (validate_runtime_binding op (Some (eng_delegation_binding E))) (\<lambda>_. Inr op))"

definition validate_write_permit :: "engine \<Rightarrow> system_time \<Rightarrow> owner_write_permit \<Rightarrow> (protocol_error, unit) result" where
  "validate_write_permit E now p = validate_for_engine now p (eng_delegation_binding E)"

fun allows :: "authz_context \<Rightarrow> owner_id \<Rightarrow> authz_operation \<Rightarrow> bool" where
  "allows C w (OpRead k) = ac_may_read C w k"
| "allows C w (OpWrite k) = ac_may_write C w k"
| "allows C w OpOwnerAdmin = is_some_and (ac_role_for_owner C w) role_administers"
| "allows C w _ = False"

fun kind_debug :: "access_kind \<Rightarrow> str" where
  "kind_debug KFact = lit ''Fact''"
| "kind_debug KAbstraction = lit ''Abstraction''"
| "kind_debug KPerspective = lit ''Perspective''"
| "kind_debug KGoal = lit ''Goal''"

fun denied :: "authz_operation \<Rightarrow> protocol_error" where
  "denied (OpRead k) = forbidden (lit ''requires '' @ kind_debug k @ lit '' read on this owner'')"
| "denied (OpWrite k) = forbidden (lit ''requires '' @ kind_debug k @ lit '' write on this owner'')"
| "denied _ = forbidden (lit ''requires admin on this owner'')"

fun op_is_read :: "authz_operation \<Rightarrow> bool" where
  "op_is_read (OpRead _) = True"
| "op_is_read _ = False"

definition gate :: "engine \<Rightarrow> authz_context \<Rightarrow> owner_id \<Rightarrow> authz_operation \<Rightarrow> bool \<Rightarrow> owner_id audited" where
  "gate E C w op redeemed =
     (let inp = (\<lambda>resolved. \<lparr>ai_authz = C, ai_requested = w, ai_resolved = resolved, ai_operation = op\<rparr>);
          refuse = (\<lambda>resolved outcome err. (Inl err, [(inp resolved, outcome)])) in
      if ac_auth_path C = Delegated \<and> \<not> redeemed
      then (Inl (forbidden (lit ''raw delegated authorization contexts are not Engine authority'')), [])
      else if \<not> op_is_read op \<and> ac_auth_path C = System \<and> \<not> ac_carries_system_authority C (eng_system_binding E)
      then refuse w DeniedGrant (forbidden (lit ''System write authority requires a context from AuthzContext::for_system''))
      else if ac_auth_path C = Denied
      then refuse w DeniedResolution (forbidden (lit ''denied context authorizes nothing''))
      else (case resolve_owner E C w of
          Inl err \<Rightarrow> refuse w DeniedResolution err
        | Inr resolved \<Rightarrow>
            if \<not> allows C resolved op then refuse resolved DeniedGrant (denied op)
            else (case run_authorization_vetoes E (inp resolved) of
                Inl err \<Rightarrow> (Inl err, [(inp resolved, DeniedVeto)])
              | Inr _ \<Rightarrow> (Inr resolved, [(inp resolved, Allowed)]))))"

fun op_write_kind :: "authz_operation \<Rightarrow> access_kind" where
  "op_write_kind (OpWrite k) = k"
| "op_write_kind _ = KGoal"

definition write_permit ::
  "engine \<Rightarrow> system_time \<Rightarrow> engine_authority \<Rightarrow> owner_id \<Rightarrow> authz_operation \<Rightarrow> owner_write_permit audited" where
  "write_permit E now auth w op =
     (case operation_authority E now auth of
        Inl err \<Rightarrow> (Inl err, [])
      | Inr au \<Rightarrow>
          let C = eo_authz au; (res, log) = gate E C w op (eo_redeemed_phase au) in
          (rbind res (\<lambda>resolved.
             if eo_redeemed_phase au then
               rbind (ok_or (forbidden (lit ''delegated worker phase has no finite expiry'')) (ac_expires_at C)) (\<lambda>ex.
                 Inr (permit_new_delegated resolved (op_write_kind op) (eng_delegation_binding E) ex (ac_sealed_scope C)))
             else Inr (permit_new resolved (op_write_kind op) (ac_sealed_scope C))), log))"

definition authorize_owner_write ::
  "engine \<Rightarrow> system_time \<Rightarrow> authz_context \<Rightarrow> owner_id \<Rightarrow> access_kind \<Rightarrow> owner_write_permit audited" where
  "authorize_owner_write E now C w k = write_permit E now (FromContext C) w (OpWrite k)"

definition authorize_write ::
  "engine \<Rightarrow> system_time \<Rightarrow> engine_authority \<Rightarrow> owner_id \<Rightarrow> access_kind \<Rightarrow> owner_write_permit audited" where
  "authorize_write E now auth w k = write_permit E now auth w (OpWrite k)"

definition write_limit_kind :: "authz_context \<Rightarrow> owner_id \<Rightarrow> access_kind" where
  "write_limit_kind C w =
     (case Option.bind (ac_role_for_owner C w) (\<lambda>r. ceiling_top (role_write r)) of Some k \<Rightarrow> k | None \<Rightarrow> KFact)"

definition authorize_write_limit ::
  "engine \<Rightarrow> system_time \<Rightarrow> system_time \<Rightarrow> engine_authority \<Rightarrow> owner_id \<Rightarrow> owner_write_permit audited" where
  "authorize_write_limit E now now' auth w =
     (case operation_authority E now auth of
        Inl err \<Rightarrow> (Inl err, [])
      | Inr au \<Rightarrow> write_permit E now' auth w (OpWrite (write_limit_kind (eo_authz au) w)))"

definition authorize_owner_admin :: "engine \<Rightarrow> system_time \<Rightarrow> engine_authority \<Rightarrow> owner_id \<Rightarrow> owner_write_permit audited" where
  "authorize_owner_admin E now auth w = write_permit E now auth w OpOwnerAdmin"

definition authorize_owner_read ::
  "engine \<Rightarrow> system_time \<Rightarrow> engine_authority \<Rightarrow> owner_id \<Rightarrow> access_kind \<Rightarrow> owner_id audited" where
  "authorize_owner_read E now auth w k =
     (case operation_authority E now auth of
        Inl err \<Rightarrow> (Inl err, [])
      | Inr au \<Rightarrow> gate E (eo_authz au) w (OpRead k) (eo_redeemed_phase au))"

definition read_input :: "authz_context \<Rightarrow> owner_id \<Rightarrow> access_kind \<Rightarrow> authz_input" where
  "read_input C w k = \<lparr>ai_authz = C, ai_requested = w, ai_resolved = w, ai_operation = OpRead k\<rparr>"

definition readable_set :: "authz_context \<Rightarrow> owner_id list audited" where
  "readable_set C =
     (let rd = (if ac_auth_path C = Denied then [] else ac_readable_owners C KFact) in
      if rd = []
      then (Inl (forbidden (lit ''denied context authorizes nothing'')),
            [(read_input C (ac_principal C) KFact, DeniedResolution)])
      else (Inr rd, []))"

definition veto_read_owner :: "engine \<Rightarrow> authz_context \<Rightarrow> owner_id \<Rightarrow> access_kind \<Rightarrow> unit audited" where
  "veto_read_owner E C w k =
     (let inp = read_input C w k in
      case run_authorization_vetoes E inp of
        Inl err \<Rightarrow> (Inl err, [(inp, DeniedVeto)])
      | Inr _ \<Rightarrow> (Inr (), [(inp, Allowed)]))"

fun veto_filter :: "engine \<Rightarrow> authz_context \<Rightarrow> owner_id list \<Rightarrow> owner_id list \<times> decision list" where
  "veto_filter E C [] = ([], [])"
| "veto_filter E C (w # ws) =
     (let (r, log) = veto_read_owner E C w KFact; (kept, log') = veto_filter E C ws in
      (if is_ok r then w # kept else kept, log @ log'))"

definition authorize_read :: "engine \<Rightarrow> system_time \<Rightarrow> engine_authority \<Rightarrow> owner_id list audited" where
  "authorize_read E now auth =
     (case operation_authority E now auth of
        Inl err \<Rightarrow> (Inl err, [])
      | Inr au \<Rightarrow>
          (case readable_set (eo_authz au) of
             (Inl err, log) \<Rightarrow> (Inl err, log)
           | (Inr rd, log) \<Rightarrow> let (kept, log') = veto_filter E (eo_authz au) rd in (Inr kept, log @ log')))"

text \<open>Storage answers: Goal read candidates for a scope, and the visible home of each entity.\<close>

datatype entry_read_route = RouteOwner | RouteGoal

record visible_entry =
  ve_owner :: owner_id
  ve_kind :: access_kind
  ve_schema :: "schema_id option"
  ve_route :: entry_read_route

definition pipeline_storage_error :: "str \<Rightarrow> str \<Rightarrow> protocol_error" where
  "pipeline_storage_error context err = internal_error (context @ lit '': '' @ err)"

definition row_read_candidates ::
  "system_time \<Rightarrow> (owner_scope \<Rightarrow> (str, owner_id list) result) \<Rightarrow> authz_context \<Rightarrow> owner_id list audited" where
  "row_read_candidates now' goal_candidates C =
     (case readable_set C of
        (Inl err, log) \<Rightarrow> (Inl err, log)
      | (Inr rd, log) \<Rightarrow>
          (case ac_sealed_scope C of
             None \<Rightarrow> (Inr rd, log)
           | Some scope \<Rightarrow>
               if os_goal_principal_at now' scope = None then (Inr rd, log)
               else (case goal_candidates scope of
                   Inl err \<Rightarrow> (Inl (pipeline_storage_error (lit ''goal_read_candidates'') err), log)
                 | Inr extra \<Rightarrow> (Inr (remdups_adj (sort (rd @ extra))), log))))"

definition authorize_row_read ::
  "engine \<Rightarrow> system_time \<Rightarrow> system_time \<Rightarrow> (owner_scope \<Rightarrow> (str, owner_id list) result) \<Rightarrow> engine_authority \<Rightarrow> owner_id list audited" where
  "authorize_row_read E now now' goal_candidates auth =
     (case operation_authority E now auth of
        Inl err \<Rightarrow> (Inl err, [])
      | Inr au \<Rightarrow>
          (case row_read_candidates now' goal_candidates (eo_authz au) of
             (Inl err, log) \<Rightarrow> (Inl err, log)
           | (Inr rd, log) \<Rightarrow> let (kept, log') = veto_filter E (eo_authz au) rd in (Inr kept, log @ log')))"

definition ENTRY_NOT_FOUND_MESSAGE :: str where
  "ENTRY_NOT_FOUND_MESSAGE = lit ''entry not found''"

record entry_read_permit =
  er_owner :: owner_id
  er_kind :: access_kind
  er_schema_id :: "schema_id option"

definition entry_admitted :: "system_time \<Rightarrow> authz_context \<Rightarrow> visible_entry \<Rightarrow> bool" where
  "entry_admitted now' C e =
     (case ve_route e of
        RouteOwner \<Rightarrow> ac_may_read C (ve_owner e) (ve_kind e)
      | RouteGoal \<Rightarrow> is_some_and (ac_sealed_scope C) (\<lambda>scope. os_goal_principal_at now' scope \<noteq> None))"

definition entry_read_permit_for :: "engine \<Rightarrow> system_time \<Rightarrow> authz_context \<Rightarrow> visible_entry option \<Rightarrow> entry_read_permit audited" where
  "entry_read_permit_for E now' C home =
     (case home of
        None \<Rightarrow> (Inl (forbidden ENTRY_NOT_FOUND_MESSAGE), [])
      | Some e \<Rightarrow>
          if \<not> entry_admitted now' C e then (Inl (forbidden ENTRY_NOT_FOUND_MESSAGE), [])
          else let (r, log) = veto_read_owner E C (ve_owner e) (ve_kind e) in
            (rbind (map_err (\<lambda>_. forbidden ENTRY_NOT_FOUND_MESSAGE) r) (\<lambda>_.
               Inr \<lparr>er_owner = ve_owner e, er_kind = ve_kind e, er_schema_id = ve_schema e\<rparr>), log))"

fun entry_read_permits :: "engine \<Rightarrow> system_time \<Rightarrow> authz_context \<Rightarrow> visible_entry option list \<Rightarrow> entry_read_permit list audited" where
  "entry_read_permits E now' C [] = (Inr [], [])"
| "entry_read_permits E now' C (home # homes) =
     (case entry_read_permit_for E now' C home of
        (Inl err, log) \<Rightarrow> (Inl err, log)
      | (Inr p, log) \<Rightarrow>
          (case entry_read_permits E now' C homes of
             (Inl err, log') \<Rightarrow> (Inl err, log @ log')
           | (Inr ps, log') \<Rightarrow> (Inr (p # ps), log @ log')))"

definition authorize_entry_reads ::
  "engine \<Rightarrow> system_time \<Rightarrow> system_time \<Rightarrow> (owner_scope \<Rightarrow> (str, owner_id list) result) \<Rightarrow>
   (owner_scope option \<Rightarrow> entity_id list \<Rightarrow> owner_id list \<Rightarrow> (str, visible_entry option list) result) \<Rightarrow>
   engine_authority \<Rightarrow> entity_id list \<Rightarrow> entry_read_permit list audited" where
  "authorize_entry_reads E now now' goal_candidates visible_entries auth entities =
     (if entities = [] then (Inr [], [])
      else (case operation_authority E now auth of
          Inl err \<Rightarrow> (Inl err, [])
        | Inr au \<Rightarrow>
            let C = eo_authz au in
            (case row_read_candidates now' goal_candidates C of
               (Inl err, log) \<Rightarrow> (Inl err, log)
             | (Inr rd, log) \<Rightarrow>
                 (case visible_entries (ac_sealed_scope C) entities rd of
                    Inl err \<Rightarrow> (Inl (pipeline_storage_error (lit ''visible_home_owner'') err), log)
                  | Inr homes \<Rightarrow> let (r, log') = entry_read_permits E now' C homes in (r, log @ log')))))"

text \<open>\<open>permits.remove(0)\<close> panics on an empty vector: None.\<close>

definition authorize_entry_read ::
  "engine \<Rightarrow> system_time \<Rightarrow> system_time \<Rightarrow> (owner_scope \<Rightarrow> (str, owner_id list) result) \<Rightarrow>
   (owner_scope option \<Rightarrow> entity_id list \<Rightarrow> owner_id list \<Rightarrow> (str, visible_entry option list) result) \<Rightarrow>
   engine_authority \<Rightarrow> entity_id \<Rightarrow> entry_read_permit audited option" where
  "authorize_entry_read E now now' goal_candidates visible_entries auth entity =
     (case authorize_entry_reads E now now' goal_candidates visible_entries auth [entity] of
        (Inl err, log) \<Rightarrow> Some (Inl err, log)
      | (Inr [], log) \<Rightarrow> None
      | (Inr (p # _), log) \<Rightarrow> Some (Inr p, log))"

section \<open>One decision per gate\<close>

text \<open>
  What every gate promises its observers: a success reports exactly one decision, \<open>Allowed\<close>, and a
  refusal never reports \<open>Allowed\<close>.
\<close>

locale decision_gate =
  fixes decide :: "'x \<Rightarrow> 'a audited"
  assumes decide_ok: "fst (decide x) = Inr a \<Longrightarrow> \<exists>inp. snd (decide x) = [(inp, Allowed)]"
    and decide_err: "fst (decide x) = Inl e \<Longrightarrow> length (snd (decide x)) \<le> 1 \<and> Allowed \<notin> snd ` set (snd (decide x))"
begin

lemma allowed_iff: "Allowed \<in> snd ` set (snd (decide x)) \<longleftrightarrow> is_ok (fst (decide x))"
proof (cases "fst (decide x)")
  case (Inr a)
  from decide_ok [OF this] Inr show ?thesis by auto
next
  case (Inl e)
  from decide_err [OF this] Inl show ?thesis by simp
qed

lemma at_most_one: "length (snd (decide x)) \<le> 1"
proof (cases "fst (decide x)")
  case (Inr a)
  from decide_ok [OF this] show ?thesis by auto
next
  case (Inl e)
  from decide_err [OF this] show ?thesis by simp
qed

end

lemma run_vetoes_ok: "run_vetoes hooks inp = Inr () \<longleftrightarrow> list_all (\<lambda>veto. is_ok (veto inp)) hooks"
  by (induction hooks) (auto simp: result_simps is_ok_iff map_err_def split: sum.splits)

lemma vetoes_ok: "run_authorization_vetoes E inp = Inr () \<longleftrightarrow> list_all (\<lambda>veto. is_ok (veto inp)) (eng_hooks E)"
  by (simp add: run_authorization_vetoes_def run_vetoes_ok)

lemma vetoes_Inr: "run_authorization_vetoes E inp = Inr u \<longleftrightarrow> run_authorization_vetoes E inp = Inr ()"
  by simp

definition gate_decide :: "engine \<times> authz_context \<times> owner_id \<times> authz_operation \<times> bool \<Rightarrow> owner_id audited" where
  "gate_decide = (\<lambda>(E, C, w, op, redeemed). gate E C w op redeemed)"

interpretation owner_gate: decision_gate gate_decide
proof
  fix x :: "engine \<times> authz_context \<times> owner_id \<times> authz_operation \<times> bool" and a e
  obtain E C w op redeemed where x: "x = (E, C, w, op, redeemed)" by (cases x) auto
  show "fst (gate_decide x) = Inr a \<Longrightarrow> \<exists>inp. snd (gate_decide x) = [(inp, Allowed)]"
    by (auto simp: x gate_decide_def gate_def Let_def split: if_splits sum.splits)
  show "fst (gate_decide x) = Inl e \<Longrightarrow> length (snd (gate_decide x)) \<le> 1 \<and> Allowed \<notin> snd ` set (snd (gate_decide x))"
    by (auto simp: x gate_decide_def gate_def Let_def split: if_splits sum.splits)
qed

lemma veto_read_owner_simps:
  "fst (veto_read_owner E C w k) = Inr u \<longleftrightarrow> list_all (\<lambda>veto. is_ok (veto (read_input C w k))) (eng_hooks E)"
  "snd (veto_read_owner E C w k) =
     [(read_input C w k, if is_ok (fst (veto_read_owner E C w k)) then Allowed else DeniedVeto)]"
  by (auto simp: veto_read_owner_def Let_def vetoes_ok [symmetric] split: sum.splits)

definition entry_decide :: "engine \<times> system_time \<times> authz_context \<times> visible_entry option \<Rightarrow> entry_read_permit audited" where
  "entry_decide = (\<lambda>(E, now', C, home). entry_read_permit_for E now' C home)"

interpretation entry_gate: decision_gate entry_decide
proof
  fix x :: "engine \<times> system_time \<times> authz_context \<times> visible_entry option" and a e
  obtain E now' C home where x: "x = (E, now', C, home)" by (cases x) auto
  show "fst (entry_decide x) = Inr a \<Longrightarrow> \<exists>inp. snd (entry_decide x) = [(inp, Allowed)]"
    by (auto simp: x entry_decide_def entry_read_permit_for_def veto_read_owner_def map_err_def Let_def
        split: option.splits if_splits sum.splits)
  show "fst (entry_decide x) = Inl e \<Longrightarrow> length (snd (entry_decide x)) \<le> 1 \<and> Allowed \<notin> snd ` set (snd (entry_decide x))"
    by (auto simp: x entry_decide_def entry_read_permit_for_def veto_read_owner_def map_err_def Let_def
        split: option.splits if_splits sum.splits)
qed

section \<open>Operation authority and permits\<close>

lemma operation_authority_Inr:
  "operation_authority E now auth = Inr au \<longleftrightarrow>
     (\<exists>C. auth = FromContext C \<and> ac_auth_path C \<noteq> Delegated \<and>
        au = \<lparr>eo_authz = C, eo_redeemed_phase = False, eo_runtime_binding = None\<rparr>) \<or>
     (\<exists>ph. auth = FromPhase ph \<and> now < ph_expires_at ph \<and> ph_runtime_binding ph = eng_delegation_binding E \<and>
        au = \<lparr>eo_authz = ph_authz ph, eo_redeemed_phase = True, eo_runtime_binding = Some (ph_runtime_binding ph)\<rparr>)"
  by (cases auth) (auto simp: operation_authority_def validate_runtime_binding_def result_simps not_le split: if_splits)

lemma gate_Inr:
  "fst (gate E C w op redeemed) = Inr v \<longleftrightarrow>
     (ac_auth_path C = Delegated \<longrightarrow> redeemed) \<and>
     (op_is_read op \<or> ac_auth_path C \<noteq> System \<or> ac_carries_system_authority C (eng_system_binding E)) \<and>
     ac_auth_path C \<noteq> Denied \<and> resolve_owner E C w = Inr v \<and> allows C v op \<and>
     list_all (\<lambda>veto. is_ok (veto \<lparr>ai_authz = C, ai_requested = w, ai_resolved = v, ai_operation = op\<rparr>)) (eng_hooks E)"
  by (auto simp: gate_def Let_def vetoes_ok [symmetric] split: sum.splits)

lemma write_permit_Inr:
  assumes "fst (write_permit E now auth w op) = Inr p"
  obtains au where "operation_authority E now auth = Inr au"
    "fst (gate E (eo_authz au) w op (eo_redeemed_phase au)) = Inr (wp_owner p)"
    "wp_access_kind p = op_write_kind op" "wp_owner_scope p = ac_sealed_scope (eo_authz au)"
    "wp_transfer_destination p = None"
    "\<not> eo_redeemed_phase au \<Longrightarrow> wp_delegated p = None"
    "eo_redeemed_phase au \<Longrightarrow> \<exists>ex. ac_expires_at (eo_authz au) = Some ex \<and> wp_delegated p = Some (eng_delegation_binding E, ex)"
proof -
  from assms obtain au where au: "operation_authority E now auth = Inr au"
    by (auto simp: write_permit_def split: sum.splits)
  obtain res log where g: "gate E (eo_authz au) w op (eo_redeemed_phase au) = (res, log)" by (metis surj_pair)
  from assms au g obtain v where v: "res = Inr v" by (auto simp: write_permit_def Let_def result_simps)
  show ?thesis
  proof (cases "eo_redeemed_phase au")
    case False
    with assms au g v have "p = permit_new v (op_write_kind op) (ac_sealed_scope (eo_authz au))"
      by (simp add: write_permit_def Let_def)
    with au g v False show ?thesis by (intro that [of au]) (simp_all add: permit_new_def)
  next
    case True
    with assms au g v obtain ex where "ac_expires_at (eo_authz au) = Some ex"
      "p = permit_new_delegated v (op_write_kind op) (eng_delegation_binding E) ex (ac_sealed_scope (eo_authz au))"
      by (auto simp: write_permit_def Let_def result_simps)
    with au g v True show ?thesis by (intro that [of au]) (simp_all add: permit_new_delegated_def)
  qed
qed

lemma resolve_owner_None [simp]: "eng_resolver E = None \<Longrightarrow> resolve_owner E C w = Inr w"
  by (simp add: resolve_owner_def)

section \<open>Set reads\<close>

lemma veto_filter_eq:
  "fst (veto_filter E C ws) = filter (\<lambda>w. list_all (\<lambda>veto. is_ok (veto (read_input C w KFact))) (eng_hooks E)) ws"
  "snd (veto_filter E C ws) = map (\<lambda>w. (read_input C w KFact,
     if list_all (\<lambda>veto. is_ok (veto (read_input C w KFact))) (eng_hooks E) then Allowed else DeniedVeto)) ws"
proof (induction ws)
  case (Cons w ws)
  obtain r log where v: "veto_read_owner E C w KFact = (r, log)" by (metis surj_pair)
  have r: "is_ok r \<longleftrightarrow> list_all (\<lambda>veto. is_ok (veto (read_input C w KFact))) (eng_hooks E)"
    using veto_read_owner_simps(1) [of E C w KFact "()"] v by (auto simp: is_ok_iff)
  have log: "log = [(read_input C w KFact, if is_ok r then Allowed else DeniedVeto)]"
    using veto_read_owner_simps(2) [of E C w KFact] v by simp
  {
    case 1
    then show ?case using Cons.IH(1) v r by (simp add: split_def)
  next
    case 2
    then show ?case using Cons.IH(2) v r log by (simp add: split_def)
  }
qed simp_all

lemma readable_set_Inr:
  "fst (readable_set C) = Inr rd \<longleftrightarrow> ac_auth_path C \<noteq> Denied \<and> rd = ac_readable_owners C KFact \<and> rd \<noteq> []"
  "fst (readable_set C) = Inr rd \<Longrightarrow> snd (readable_set C) = []"
  by (auto simp: readable_set_def Let_def split: if_splits)

lemma ac_readable_set:
  assumes "authz_ok C"
  shows "set (ac_readable_owners C k) = {w. ac_may_read C w k}"
proof (cases "ac_owner_roles C")
  case None
  then show ?thesis by (simp add: ac_readable_owners_def ac_may_read_def)
next
  case (Some R)
  from assms Some have hm: "hm_ok (or_roles R)" by (intro owner_roles_okD(1) authz_okD)
  show ?thesis
    by (rule set_eqI) (simp add: ac_readable_owners_def ac_may_read_def Some roles_readable_owners_def roles_may_read_def
        set_ordered_owners [OF hm])
qed

section \<open>Entry reads\<close>

definition entry_discloses :: "engine \<Rightarrow> system_time \<Rightarrow> authz_context \<Rightarrow> visible_entry \<Rightarrow> bool" where
  "entry_discloses E now' C e \<longleftrightarrow> entry_admitted now' C e \<and>
     list_all (\<lambda>veto. is_ok (veto (read_input C (ve_owner e) (ve_kind e)))) (eng_hooks E)"

definition permit_of :: "visible_entry \<Rightarrow> entry_read_permit" where
  "permit_of e = \<lparr>er_owner = ve_owner e, er_kind = ve_kind e, er_schema_id = ve_schema e\<rparr>"

lemma entry_permit_fst:
  "fst (entry_read_permit_for E now' C home) =
     (if is_some_and home (entry_discloses E now' C) then Inr (permit_of (the home))
      else Inl (forbidden ENTRY_NOT_FOUND_MESSAGE))"
proof (cases home)
  case (Some e)
  obtain r log where v: "veto_read_owner E C (ve_owner e) (ve_kind e) = (r, log)" by (metis surj_pair)
  have "r = Inr () \<longleftrightarrow> list_all (\<lambda>veto. is_ok (veto (read_input C (ve_owner e) (ve_kind e)))) (eng_hooks E)"
    using veto_read_owner_simps(1) [of E C "ve_owner e" "ve_kind e" "()"] v by simp
  with v Some show ?thesis
    by (cases r) (auto simp: entry_read_permit_for_def entry_discloses_def permit_of_def)
qed (simp add: entry_read_permit_for_def)

lemma entry_permits_fst:
  "fst (entry_read_permits E now' C homes) =
     (if list_all (\<lambda>home. is_some_and home (entry_discloses E now' C)) homes
      then Inr (map (permit_of \<circ> the) homes) else Inl (forbidden ENTRY_NOT_FOUND_MESSAGE))"
proof (induction homes)
  case (Cons home homes)
  obtain r log where r: "entry_read_permit_for E now' C home = (r, log)" by (metis surj_pair)
  obtain rs log' where rs: "entry_read_permits E now' C homes = (rs, log')" by (metis surj_pair)
  show ?case using entry_permit_fst [of E now' C home] Cons.IH r rs
    by (auto split: if_splits)
qed simp

section \<open>Properties of the gates\<close>

text \<open>
  C3. The owner gate admits an operation exactly when the context is not a raw delegated one, a System
  context mutates only under this engine's own binding, the context is not denied, the resolver (the
  identity when none is registered) answers an owner, the context's role on that resolved owner allows
  the operation, and no hook vetoes it; what it returns is the resolved owner. Membership, transfer
  and Goal operations are never admitted here.
\<close>

theorem gate_exact:
  "(fst (gate E C w op redeemed) = Inr v \<longleftrightarrow>
     \<not> (ac_auth_path C = Delegated \<and> \<not> redeemed) \<and> ac_auth_path C \<noteq> Denied \<and>
     (op_is_read op \<or> ac_auth_path C = HostBearer \<or> ac_auth_path C = Delegated \<or>
        ac_carries_system_authority C (eng_system_binding E)) \<and>
     resolve_owner E C w = Inr v \<and>
     (case op of OpRead k \<Rightarrow> ac_may_read C v k | OpWrite k \<Rightarrow> ac_may_write C v k
        | OpOwnerAdmin \<Rightarrow> is_some_and (ac_role_for_owner C v) role_administers | _ \<Rightarrow> False) \<and>
     list_all (\<lambda>veto. is_ok (veto \<lparr>ai_authz = C, ai_requested = w, ai_resolved = v, ai_operation = op\<rparr>)) (eng_hooks E))"
  unfolding gate_Inr by (cases "ac_auth_path C"; cases op) auto

text \<open>
  C34. Every gate decision reaches the observers exactly once, with one exception: a raw delegated
  context is refused without any decision being reported. The reported outcome is \<open>Allowed\<close> exactly
  when the gate succeeds, and it always names the requested owner and the operation.
\<close>

theorem gate_audit:
  "length (snd (gate E C w op redeemed)) = (if ac_auth_path C = Delegated \<and> \<not> redeemed then 0 else 1) \<and>
   (Allowed \<in> snd ` set (snd (gate E C w op redeemed)) \<longleftrightarrow> is_ok (fst (gate E C w op redeemed))) \<and>
   list_all (\<lambda>(inp, _). ai_requested inp = w \<and> ai_operation inp = op \<and> ai_authz inp = C) (snd (gate E C w op redeemed))"
proof (intro conjI)
  show "Allowed \<in> snd ` set (snd (gate E C w op redeemed)) \<longleftrightarrow> is_ok (fst (gate E C w op redeemed))"
    using owner_gate.allowed_iff [of "(E, C, w, op, redeemed)"] by (simp add: gate_decide_def)
qed (auto simp: gate_def Let_def split: sum.splits)

text \<open>
  C4. A write permit is sound: it names an owner on which the admitted context may write the permit's
  kind, carries the context's sealed scope and no transfer consent, and is bound to a runtime and a
  deadline exactly when it was minted from a redeemed delegated phase. Such a permit is valid for the
  minting engine strictly before the phase context's expiry and on no other runtime; an unbound permit
  never expires.
\<close>

theorem authorize_write_sound:
  assumes "fst (authorize_write E now auth w k) = Inr p"
  shows "\<exists>au. operation_authority E now auth = Inr au \<and> ac_may_write (eo_authz au) (wp_owner p) k \<and>
     wp_access_kind p = k \<and> wp_owner_scope p = ac_sealed_scope (eo_authz au) \<and> wp_transfer_destination p = None \<and>
     (wp_delegated p \<noteq> None \<longleftrightarrow> (\<exists>ph. auth = FromPhase ph)) \<and>
     (\<forall>ph t b. auth = FromPhase ph \<longrightarrow>
        (is_ok (validate_for_engine t p b) \<longleftrightarrow>
           b = eng_delegation_binding E \<and> is_some_and (ac_expires_at (ph_authz ph)) (\<lambda>ex. t < ex))) \<and>
     (\<forall>C t b. auth = FromContext C \<longrightarrow> validate_for_engine t p b = Inr ())"
proof -
  from assms have wp: "fst (write_permit E now auth w (OpWrite k)) = Inr p" by (simp add: authorize_write_def)
  from write_permit_Inr [OF wp] obtain au where au: "operation_authority E now auth = Inr au"
    and g: "fst (gate E (eo_authz au) w (OpWrite k) (eo_redeemed_phase au)) = Inr (wp_owner p)"
    and p: "wp_access_kind p = k" "wp_owner_scope p = ac_sealed_scope (eo_authz au)" "wp_transfer_destination p = None"
    and ctx: "\<not> eo_redeemed_phase au \<Longrightarrow> wp_delegated p = None"
    and phase: "eo_redeemed_phase au \<Longrightarrow>
      \<exists>ex. ac_expires_at (eo_authz au) = Some ex \<and> wp_delegated p = Some (eng_delegation_binding E, ex)"
    unfolding op_write_kind.simps by blast
  from g have may: "ac_may_write (eo_authz au) (wp_owner p) k" by (simp add: gate_Inr)
  show ?thesis
  proof (cases auth)
    case (FromContext C)
    with au ctx have "wp_delegated p = None" by (auto simp: operation_authority_Inr)
    then show ?thesis using au p may FromContext by (auto simp: validate_for_engine_def)
  next
    case (FromPhase ph)
    with au phase obtain ex where "ac_expires_at (ph_authz ph) = Some ex"
      "wp_delegated p = Some (eng_delegation_binding E, ex)" by (auto simp: operation_authority_Inr)
    then show ?thesis using au p may FromPhase by (auto simp: validate_for_engine_def not_le)
  qed
qed

text \<open>
  The write-limit gate mints the caller's exact limit: without a resolver, the permit is for the
  requested owner and its kind is the greatest kind the context may write there, so storage may
  compare a row's kind with the permit alone.
\<close>

theorem authorize_write_limit_exact:
  assumes "fst (authorize_write_limit E now now' (FromContext C) w) = Inr p" "eng_resolver E = None"
  shows "wp_owner p = w \<and> (\<forall>j. ac_may_write C w j \<longleftrightarrow> kind_rank j \<le> kind_rank (wp_access_kind p))"
proof -
  from assms(1) obtain au where au: "operation_authority E now (FromContext C) = Inr au"
    and wp: "fst (write_permit E now' (FromContext C) w (OpWrite (write_limit_kind (eo_authz au) w))) = Inr p"
    by (auto simp: authorize_write_limit_def split: sum.splits)
  from au have C: "eo_authz au = C" by (simp add: operation_authority_Inr)
  from write_permit_Inr [OF wp] obtain au' where au': "operation_authority E now' (FromContext C) = Inr au'"
    and g: "fst (gate E (eo_authz au') w (OpWrite (write_limit_kind C w)) (eo_redeemed_phase au')) = Inr (wp_owner p)"
    and k: "wp_access_kind p = write_limit_kind C w" unfolding op_write_kind.simps C by blast
  from au' have C': "eo_authz au' = C" by (simp add: operation_authority_Inr)
  from g assms(2) have w: "wp_owner p = w" and may: "ac_may_write C w (write_limit_kind C w)"
    by (auto simp: gate_Inr C')
  from may obtain r where r: "ac_role_for_owner C w = Some r" and al: "ceiling_allows (role_write r) (write_limit_kind C w)"
    by (auto simp: ac_may_write_def ac_role_for_owner_def roles_may_write_def role_may_write_def is_some_and_iff)
  from al have "ceiling_top (role_write r) \<noteq> None" by (auto simp: ceiling_top_None)
  then obtain t where t: "ceiling_top (role_write r) = Some t" by auto
  with r have "write_limit_kind C w = t" by (simp add: write_limit_kind_def)
  moreover have "ac_may_write C w j \<longleftrightarrow> ceiling_allows (role_write r) j" for j
    using r by (auto simp: ac_may_write_def ac_role_for_owner_def roles_may_write_def role_may_write_def is_some_and_iff
        bind_eq_Some_conv)
  ultimately show ?thesis using w k t by (simp add: ceiling_top_allows)
qed

text \<open>
  The set read returns exactly the readable owners no hook vetoes, in the order of the read set,
  and reports one decision for every readable owner; it fails only for a context that reads nothing
  at all, never because of vetoes.
\<close>

theorem authorize_read_exact:
  assumes "authz_ok C" "ac_auth_path C = HostBearer \<or> ac_auth_path C = System"
  shows "(is_ok (fst (authorize_read E now (FromContext C))) \<longleftrightarrow> (\<exists>w. ac_may_read C w KFact)) \<and>
    (\<forall>ws. fst (authorize_read E now (FromContext C)) = Inr ws \<longrightarrow>
       set ws = {w. ac_may_read C w KFact \<and> list_all (\<lambda>veto. is_ok (veto (read_input C w KFact))) (eng_hooks E)} \<and>
       map (\<lambda>(inp, outcome). (ai_resolved inp, outcome = Allowed)) (snd (authorize_read E now (FromContext C))) =
         map (\<lambda>w. (w, w \<in> set ws)) (ac_readable_owners C KFact))"
proof -
  let ?rd = "ac_readable_owners C KFact"
  let ?ok = "\<lambda>w. list_all (\<lambda>veto. is_ok (veto (read_input C w KFact))) (eng_hooks E)"
  have au: "operation_authority E now (FromContext C) =
      Inr \<lparr>eo_authz = C, eo_redeemed_phase = False, eo_runtime_binding = None\<rparr>"
    using assms(2) by (auto simp: operation_authority_Inr)
  have nd: "ac_auth_path C \<noteq> Denied" using assms(2) by auto
  note rs = ac_readable_set [OF assms(1), of KFact]
  show ?thesis
  proof (cases "?rd = []")
    case True
    with rs have "\<not> ac_may_read C w KFact" for w by auto
    with True nd au show ?thesis by (simp add: authorize_read_def readable_set_def)
  next
    case False
    with nd au have res: "authorize_read E now (FromContext C) = (Inr (fst (veto_filter E C ?rd)), snd (veto_filter E C ?rd))"
      by (simp add: authorize_read_def readable_set_def split_def Let_def)
    have set: "set (fst (veto_filter E C ?rd)) = {w. ac_may_read C w KFact \<and> ?ok w}"
      unfolding veto_filter_eq using rs by auto
    have log: "map (\<lambda>(inp, outcome). (ai_resolved inp, outcome = Allowed)) (snd (veto_filter E C ?rd)) =
        map (\<lambda>w. (w, w \<in> set (fst (veto_filter E C ?rd)))) ?rd"
      unfolding veto_filter_eq by (simp add: read_input_def)
    have "\<exists>w. ac_may_read C w KFact" using False rs by (metis (mono_tags) list.set_sel(1) mem_Collect_eq)
    with res set log show ?thesis by simp
  qed
qed

text \<open>
  C23. Entry reads disclose nothing: the batch succeeds exactly when every stored home is admitted by
  its route and unvetoed, each permit then names that home; every refusal is the same entry-not-found
  error, whatever its reason, so a home the caller may not see is indistinguishable from an absent
  entity.
\<close>

theorem entry_reads_disclose_nothing:
  assumes "operation_authority E now auth = Inr au" "entities \<noteq> []"
    and "fst (row_read_candidates now' gc (eo_authz au)) = Inr rd"
    and "ve (ac_sealed_scope (eo_authz au)) entities rd = Inr homes"
  shows "fst (authorize_entry_reads E now now' gc ve auth entities) =
      (if list_all (\<lambda>home. is_some_and home (entry_discloses E now' (eo_authz au))) homes
       then Inr (map (permit_of \<circ> the) homes) else Inl (forbidden ENTRY_NOT_FOUND_MESSAGE)) \<and>
    (\<forall>xs e ys. homes = xs @ Some e # ys \<and> \<not> entry_discloses E now' (eo_authz au) e \<longrightarrow>
       fst (authorize_entry_reads E now now' gc (\<lambda>_ _ _. Inr (xs @ None # ys)) auth entities) =
       fst (authorize_entry_reads E now now' gc ve auth entities))"
proof -
  obtain log where cand: "row_read_candidates now' gc (eo_authz au) = (Inr rd, log)"
    using assms(3) by (metis fst_conv surj_pair)
  have main: "fst (authorize_entry_reads E now now' gc ve' auth entities) = fst (entry_read_permits E now' (eo_authz au) hs)"
    if "ve' (ac_sealed_scope (eo_authz au)) entities rd = Inr hs" for ve' hs
    using assms(1,2) cand that by (simp add: authorize_entry_reads_def Let_def split_def)
  have absent: "fst (authorize_entry_reads E now now' gc (\<lambda>_ _ _. Inr hs) auth entities) = fst (entry_read_permits E now' (eo_authz au) hs)" for hs
    by (rule main) simp
  show ?thesis
    by (auto simp: main [of ve homes, OF assms(4)] absent entry_permits_fst)
qed

section \<open>Witnesses\<close>

definition demo_engine :: engine where
  "demo_engine = \<lparr>eng_resolver = None, eng_hooks = [\<lambda>inp. if ai_resolved inp = OwnerId 1 then Inl (lit ''frozen'') else Inr ()],
     eng_system_binding = 7, eng_delegation_binding = 8\<rparr>"

lemma role_for_Cons: "role_for \<lparr>or_subject = s, or_roles = (v, r) # rs\<rparr> w =
    (if v = w then Some r else role_for \<lparr>or_subject = s, or_roles = rs\<rparr> w)"
  "role_for \<lparr>or_subject = s, or_roles = []\<rparr> w = None"
  by (auto simp: role_for_def)

lemma is_some_and_if: "is_some_and (if b then x else y) P = (if b then is_some_and x P else is_some_and y P)"
  by simp

lemma demo_roles:
  "ac_auth_path demo_context = HostBearer"
  "ac_role_for_owner demo_context w = (if w = OwnerId 2 then Some role_editor
     else if w = OwnerId 1 then Some role_personal else None)"
  "ac_may_write demo_context w k = (w = OwnerId 2 \<and> role_may_write role_editor k \<or> w = OwnerId 1 \<and> role_may_write role_personal k)"
  "ac_may_read demo_context w k = (w = OwnerId 2 \<and> role_may_read role_editor k \<or> w = OwnerId 1 \<and> role_may_read role_personal k)"
  by (simp_all add: demo_context_def server_resolved_with_writer_def ac_role_for_owner_def ac_may_write_def ac_may_read_def
      roles_may_write_def roles_may_read_def owner_of_group_def owner_of_user_def empty_for_subject_def
      role_for_Cons is_some_and_if)

lemma demo_engine_simps [simp]:
  "eng_resolver demo_engine = None" "eng_delegation_binding demo_engine = 8"
  "list_all (\<lambda>veto. is_ok (veto inp)) (eng_hooks demo_engine) \<longleftrightarrow> ai_resolved inp \<noteq> OwnerId 1"
  by (simp_all add: demo_engine_def)

lemma demo_authority [simp]:
  "operation_authority demo_engine now (FromContext demo_context) =
     Inr \<lparr>eo_authz = demo_context, eo_redeemed_phase = False, eo_runtime_binding = None\<rparr>"
  by (simp add: operation_authority_Inr demo_roles)

lemma demo_permit:
  assumes "role_may_write role_editor k"
  shows "fst (write_permit demo_engine now (FromContext demo_context) (OwnerId 2) (OpWrite k)) =
    Inr (permit_new (OwnerId 2) k None)"
proof -
  have sc: "ac_sealed_scope demo_context = None"
    by (simp add: demo_context_def server_resolved_with_writer_def ac_sealed_scope_def)
  have "fst (gate demo_engine demo_context (OwnerId 2) (OpWrite k) False) = Inr (OwnerId 2)"
    using assms by (simp add: gate_Inr demo_roles)
  then show ?thesis by (simp add: write_permit_def split_def Let_def sc)
qed

theorem authorize_write_sound_witness:
  "\<exists>p. fst (authorize_write demo_engine 0 (FromContext demo_context) (OwnerId 2) KPerspective) = Inr p \<and>
     validate_for_engine 5 p 99 = Inr ()"
proof -
  have p: "fst (authorize_write demo_engine 0 (FromContext demo_context) (OwnerId 2) KPerspective) =
      Inr (permit_new (OwnerId 2) KPerspective None)"
    by (simp add: authorize_write_def demo_permit role_simps)
  from authorize_write_sound [OF p] p show ?thesis by blast
qed

theorem authorize_write_limit_exact_witness:
  "\<exists>p. fst (authorize_write_limit demo_engine 0 1 (FromContext demo_context) (OwnerId 2)) = Inr p \<and>
     (ac_may_write demo_context (OwnerId 2) KGoal \<longleftrightarrow> kind_rank KGoal \<le> kind_rank (wp_access_kind p))"
proof -
  have k: "write_limit_kind demo_context (OwnerId 2) = KPerspective"
    by (simp add: write_limit_kind_def demo_roles role_consts)
  have p: "fst (authorize_write_limit demo_engine 0 1 (FromContext demo_context) (OwnerId 2)) =
      Inr (permit_new (OwnerId 2) KPerspective None)"
    by (simp add: authorize_write_limit_def k demo_permit role_simps)
  from authorize_write_limit_exact [OF p] p show ?thesis by simp
qed

theorem authorize_read_exact_witness:
  "\<exists>ws. fst (authorize_read demo_engine 0 (FromContext demo_context)) = Inr ws \<and> set ws = {OwnerId 2}"
proof -
  have path: "ac_auth_path demo_context = HostBearer \<or> ac_auth_path demo_context = System" by (simp add: demo_roles)
  note th = authorize_read_exact [OF authz_ok_reachable [OF demo_context_reachable] path, of demo_engine 0]
  have "ac_may_read demo_context (OwnerId 2) KFact" by (simp add: demo_roles role_simps)
  with th obtain ws where ws: "fst (authorize_read demo_engine 0 (FromContext demo_context)) = Inr ws"
    by (auto simp: is_ok_iff)
  have "{w. ac_may_read demo_context w KFact \<and> ai_resolved (read_input demo_context w KFact) \<noteq> OwnerId 1} = {OwnerId 2}"
    by (auto simp: demo_roles role_simps read_input_def)
  with th ws show ?thesis by simp
qed

theorem entry_reads_disclose_nothing_witness:
  "fst (authorize_entry_reads demo_engine 0 0 (\<lambda>_. Inr [])
     (\<lambda>_ _ _. Inr [Some \<lparr>ve_owner = OwnerId 1, ve_kind = KFact, ve_schema = None, ve_route = RouteOwner\<rparr>])
     (FromContext demo_context) [EMemory (MemoryId 5)]) = Inl (forbidden ENTRY_NOT_FOUND_MESSAGE)"
proof -
  have "OwnerId 2 \<in> set (ac_readable_owners demo_context KFact)"
    using ac_readable_set [OF authz_ok_reachable [OF demo_context_reachable], of KFact] by (simp add: demo_roles role_simps)
  then have ne: "ac_readable_owners demo_context KFact \<noteq> []" by auto
  have sc: "ac_sealed_scope demo_context = None"
    by (simp add: demo_context_def server_resolved_with_writer_def ac_sealed_scope_def)
  have cand: "fst (row_read_candidates 0 (\<lambda>_. Inr []) demo_context) = Inr (ac_readable_owners demo_context KFact)"
    using ne by (simp add: row_read_candidates_def readable_set_def demo_roles sc)
  show ?thesis
    using entry_reads_disclose_nothing [OF demo_authority [of 0], of "[EMemory (MemoryId 5)]" 0 "\<lambda>_. Inr []"
        "ac_readable_owners demo_context KFact"
        "\<lambda>_ _ _. Inr [Some \<lparr>ve_owner = OwnerId 1, ve_kind = KFact, ve_schema = None, ve_route = RouteOwner\<rparr>]"] cand
    by (simp add: entry_discloses_def read_input_def)
qed

end
