(* ===== verification/Surfaces.thy ===== *)
theory Surfaces
  imports Errors Publication
begin

text \<open>
  How failures reach a client: the storage error taxonomy (\<open>crates/core/src/storage.rs\<close>), the
  engine's mapping of it onto the protocol surface (\<open>crates/core/src/engine/errors.rs\<close>), the MCP tool
  errors with their kinds and client messages (\<open>crates/core/src/mcp/error.rs\<close>), the JSON-RPC
  rendering (\<open>crates/mcp-server/src/handler.rs\<close>) and the RFC 9457 problem documents of the REST
  surface (\<open>crates/mcp-server/src/rest/error.rs\<close>). \<open>hyph\<close> is the uuid printer.
\<close>

section \<open>Storage errors\<close>

datatype replay_drift = FactRefs | DerivedRefs | DerivedIndexRows | DerivedExternalEdges

datatype storage_error =
    SeUnavailable str
  | SeConstraintViolation str
  | SeConflict str
  | SeMemoryIdCollision
  | SeRetryable str
  | SeMembershipIsolation
  | SeForbidden str
  | SeIdempotencyConflict str "uuid option"
  | SeSchemaResetRequired str
  | SeNotFound
  | SeScopeMissing str uuid
  | SeSuppressed str
  | SePublicationRefused publication_error
  | SeGoalChildrenOpen "goal_id list"
  | SeGoalChildrenAllAbandoned
  | SeReplayChanged replay_drift
  | SeInternal str

fun replay_drift_display :: "replay_drift \<Rightarrow> str" where
  "replay_drift_display FactRefs = lit ''fact replay changed declared refs''"
| "replay_drift_display DerivedRefs = lit ''derived replay changed declared refs''"
| "replay_drift_display DerivedIndexRows = lit ''derived replay changed declared index rows''"
| "replay_drift_display DerivedExternalEdges = lit ''derived replay changed declared external edges''"

fun publication_error_display :: "publication_error \<Rightarrow> str" where
  "publication_error_display (PayloadTooLarge bytes limit) =
     lit ''publication envelope is '' @ display_nat bytes @ lit '' bytes, over the '' @ display_nat limit @ lit ''-byte limit''"
| "publication_error_display (CapacityExhausted pending limit) =
     lit ''publication outbox is at capacity ('' @ display_nat (unat pending) @ lit '' pending, limit '' @
     display_nat (unat limit) @ lit '')''"
| "publication_error_display (ExportFailed m) = lit ''publication export failed: '' @ m"
| "publication_error_display (SourceUnbound sid) =
     lit ''schema '' @ sid @ lit '' is listenable but no publication source is configured; set one before admitting listenable Facts''"
| "publication_error_display (UntypedListenableWrite sid) =
     lit ''schema '' @ sid @
     lit '' is listenable and must be written through the typed API; the receipt-only route carries no payload to export''"

definition join_goal_ids :: "(uuid \<Rightarrow> str) \<Rightarrow> goal_id list \<Rightarrow> str" where
  "join_goal_ids hyph ids = join_with (lit '', '') (map (\<lambda>g. hyph (goal_uuid g)) ids)"

fun storage_error_display :: "(uuid \<Rightarrow> str) \<Rightarrow> storage_error \<Rightarrow> str" where
  "storage_error_display hyph (SeUnavailable m) = lit ''storage backend unavailable: '' @ m"
| "storage_error_display hyph (SeConstraintViolation m) = lit ''constraint violation: '' @ m"
| "storage_error_display hyph (SeConflict m) = lit ''conflict: '' @ m"
| "storage_error_display hyph SeMemoryIdCollision = lit ''memory UUID collision''"
| "storage_error_display hyph (SeRetryable m) = lit ''retryable storage error: '' @ m"
| "storage_error_display hyph SeMembershipIsolation = lit ''membership write requires READ COMMITTED isolation''"
| "storage_error_display hyph (SeForbidden m) = lit ''authorization refused: '' @ m"
| "storage_error_display hyph (SeIdempotencyConflict r _) = lit ''idempotency_conflict:'' @ r"
| "storage_error_display hyph (SeSchemaResetRequired d) =
     lit ''database schema does not match this release lane; export/reset is required: '' @ d"
| "storage_error_display hyph SeNotFound = lit ''not found''"
| "storage_error_display hyph (SeScopeMissing k i) = lit ''scope not registered: '' @ k @ lit '':'' @ hyph i"
| "storage_error_display hyph (SeSuppressed m) = lit ''suppressed: '' @ m"
| "storage_error_display hyph (SePublicationRefused p) = lit ''publication refused: '' @ publication_error_display p"
| "storage_error_display hyph (SeGoalChildrenOpen ids) = lit ''goal has open children: '' @ join_goal_ids hyph ids"
| "storage_error_display hyph SeGoalChildrenAllAbandoned =
     lit ''goal children are all abandoned; achieve at least one child first''"
| "storage_error_display hyph (SeReplayChanged d) = replay_drift_display d"
| "storage_error_display hyph (SeInternal m) = lit ''internal storage error: '' @ m"

section \<open>Engine mapping\<close>

definition replay_changed :: "replay_drift \<Rightarrow> protocol_error" where
  "replay_changed d = plain_error IdempotencyConflict
     (replay_drift_display d @ lit ''; resend it unchanged to replay, or write a new version with a new key and supersedes'')"

fun map_publication_error :: "publication_error \<Rightarrow> protocol_error" where
  "map_publication_error (CapacityExhausted p m) = capacity_exhausted (publication_error_display (CapacityExhausted p m))"
| "map_publication_error (SourceUnbound sid) = internal_error (publication_error_display (SourceUnbound sid))"
| "map_publication_error e = invalid_argument (lit ''publication'') (publication_error_display e)"

fun map_write_storage_error :: "(uuid \<Rightarrow> str) \<Rightarrow> storage_error \<Rightarrow> str \<Rightarrow> str \<Rightarrow> protocol_error" where
  "map_write_storage_error hyph SeNotFound field nf = not_found nf"
| "map_write_storage_error hyph (SeScopeMissing k i) field nf = scope_not_registered hyph k i"
| "map_write_storage_error hyph (SeIdempotencyConflict r ex) field nf = idempotency_conflict hyph r ex"
| "map_write_storage_error hyph (SeReplayChanged d) field nf = replay_changed d"
| "map_write_storage_error hyph (SeConstraintViolation m) field nf = invalid_argument field m"
| "map_write_storage_error hyph (SeConflict m) field nf = invalid_argument field m"
| "map_write_storage_error hyph (SeGoalChildrenOpen ids) field nf =
     invalid_argument field (storage_error_display hyph (SeGoalChildrenOpen ids))"
| "map_write_storage_error hyph SeGoalChildrenAllAbandoned field nf =
     invalid_argument field (storage_error_display hyph SeGoalChildrenAllAbandoned)"
| "map_write_storage_error hyph SeMembershipIsolation field nf =
     invalid_argument (lit ''transaction_isolation'') (lit ''membership writes require READ COMMITTED isolation'')"
| "map_write_storage_error hyph (SeForbidden m) field nf = forbidden m"
| "map_write_storage_error hyph (SeSuppressed m) field nf = suppressed m"
| "map_write_storage_error hyph (SePublicationRefused p) field nf = map_publication_error p"
| "map_write_storage_error hyph (SeRetryable m) field nf = internal_error m"
| "map_write_storage_error hyph (SeUnavailable m) field nf = internal_error m"
| "map_write_storage_error hyph (SeInternal m) field nf = internal_error m"
| "map_write_storage_error hyph (SeSchemaResetRequired d) field nf = internal_error d"
| "map_write_storage_error hyph SeMemoryIdCollision field nf = internal_error (lit ''memory UUID collision'')"

definition map_fact_ingest_error :: "(uuid \<Rightarrow> str) \<Rightarrow> storage_error \<Rightarrow> protocol_error" where
  "map_fact_ingest_error hyph err =
     map_write_storage_error hyph err (lit ''fact'') (lit ''fact ingest referenced row not found'')"

definition map_derived_storage_error :: "(uuid \<Rightarrow> str) \<Rightarrow> storage_error \<Rightarrow> protocol_error" where
  "map_derived_storage_error hyph err =
     map_write_storage_error hyph err (lit ''operator_invocation'') (lit ''operator invocation referenced row not found'')"

definition internal_storage_error :: "(uuid \<Rightarrow> str) \<Rightarrow> str \<Rightarrow> storage_error \<Rightarrow> protocol_error" where
  "internal_storage_error hyph context err = internal_error (context @ lit '': '' @ storage_error_display hyph err)"

section \<open>MCP tool errors\<close>

datatype mcp_tool_error =
    MteInvalidInput str
  | MteNotFound str
  | MteNotAuthorized str
  | MteProtocol protocol_error
  | MteLayeringViolation str
  | MteStorage storage_error
  | MteUnavailable str
  | MteStoreUnavailable "16 word"
  | MteFailure str
  | MteOther str

datatype mcp_tool_error_kind =
  KInvalidInput | KNotFound | KInvalidRequest | KCapacityExhausted | KStoreUnavailable | KInternal

datatype tool_error =
    TeInvalidInput str
  | TeNotFound str
  | TeNotAuthorized str
  | TeProtocol protocol_error
  | TeLayeringViolation str
  | TeStorage storage_error
  | TeUnavailable str
  | TeFailure str
  | TeOther str

fun mcp_error_from_tool_error :: "tool_error \<Rightarrow> mcp_tool_error" where
  "mcp_error_from_tool_error (TeInvalidInput m) = MteInvalidInput m"
| "mcp_error_from_tool_error (TeNotFound m) = MteNotFound m"
| "mcp_error_from_tool_error (TeNotAuthorized m) = MteNotAuthorized m"
| "mcp_error_from_tool_error (TeProtocol e) = MteProtocol e"
| "mcp_error_from_tool_error (TeLayeringViolation m) = MteLayeringViolation m"
| "mcp_error_from_tool_error (TeStorage e) = MteStorage e"
| "mcp_error_from_tool_error (TeUnavailable m) = MteUnavailable m"
| "mcp_error_from_tool_error (TeFailure m) = MteFailure m"
| "mcp_error_from_tool_error (TeOther m) = MteOther m"

fun protocol_kind :: "error_code \<Rightarrow> mcp_tool_error_kind" where
  "protocol_kind InvalidArgument = KInvalidInput"
| "protocol_kind NotFound = KNotFound"
| "protocol_kind Internal = KInternal"
| "protocol_kind CapacityExhaustedCode = KCapacityExhausted"
| "protocol_kind _ = KInvalidRequest"

fun publication_kind :: "publication_error \<Rightarrow> mcp_tool_error_kind" where
  "publication_kind (SourceUnbound _) = KInternal"
| "publication_kind (CapacityExhausted _ _) = KCapacityExhausted"
| "publication_kind _ = KInvalidInput"

fun storage_kind :: "storage_error \<Rightarrow> mcp_tool_error_kind" where
  "storage_kind (SeConstraintViolation _) = KInvalidInput"
| "storage_kind SeMembershipIsolation = KInvalidInput"
| "storage_kind (SeGoalChildrenOpen _) = KInvalidInput"
| "storage_kind SeGoalChildrenAllAbandoned = KInvalidInput"
| "storage_kind SeNotFound = KNotFound"
| "storage_kind (SeScopeMissing _ _) = KNotFound"
| "storage_kind (SeForbidden _) = KInvalidRequest"
| "storage_kind (SeConflict _) = KInvalidRequest"
| "storage_kind (SeSuppressed _) = KInvalidRequest"
| "storage_kind (SeIdempotencyConflict _ _) = KInvalidRequest"
| "storage_kind (SeReplayChanged _) = KInvalidRequest"
| "storage_kind (SePublicationRefused p) = publication_kind p"
| "storage_kind (SeRetryable _) = KInternal"
| "storage_kind (SeUnavailable _) = KInternal"
| "storage_kind (SeInternal _) = KInternal"
| "storage_kind SeMemoryIdCollision = KInternal"
| "storage_kind (SeSchemaResetRequired _) = KInternal"

fun mcp_error_kind :: "mcp_tool_error \<Rightarrow> mcp_tool_error_kind" where
  "mcp_error_kind (MteInvalidInput _) = KInvalidInput"
| "mcp_error_kind (MteNotFound _) = KNotFound"
| "mcp_error_kind (MteNotAuthorized _) = KInvalidRequest"
| "mcp_error_kind (MteLayeringViolation _) = KInvalidRequest"
| "mcp_error_kind (MteUnavailable _) = KInvalidRequest"
| "mcp_error_kind (MteProtocol e) = protocol_kind (pe_code e)"
| "mcp_error_kind (MteStorage e) = storage_kind e"
| "mcp_error_kind (MteStoreUnavailable _) = KStoreUnavailable"
| "mcp_error_kind (MteFailure _) = KInvalidRequest"
| "mcp_error_kind (MteOther _) = KInternal"

fun error_code_debug :: "error_code \<Rightarrow> str" where
  "error_code_debug AuthRequired = lit ''AuthRequired''"
| "error_code_debug Forbidden = lit ''Forbidden''"
| "error_code_debug UnknownSchema = lit ''UnknownSchema''"
| "error_code_debug AlreadyIngested = lit ''AlreadyIngested''"
| "error_code_debug IdempotencyConflict = lit ''IdempotencyConflict''"
| "error_code_debug NotFound = lit ''NotFound''"
| "error_code_debug InvalidArgument = lit ''InvalidArgument''"
| "error_code_debug ToolNotRegistered = lit ''ToolNotRegistered''"
| "error_code_debug TriggerConflict = lit ''TriggerConflict''"
| "error_code_debug DuplicateTriggerInRequest = lit ''DuplicateTriggerInRequest''"
| "error_code_debug Suppressed = lit ''Suppressed''"
| "error_code_debug CapacityExhaustedCode = lit ''CapacityExhausted''"
| "error_code_debug Internal = lit ''Internal''"

definition protocol_error_display :: "protocol_error \<Rightarrow> str" where
  "protocol_error_display e = error_code_debug (pe_code e) @ lit '': '' @ pe_message e"

fun mcp_error_display :: "(uuid \<Rightarrow> str) \<Rightarrow> mcp_tool_error \<Rightarrow> str" where
  "mcp_error_display hyph (MteInvalidInput m) = lit ''invalid input: '' @ m"
| "mcp_error_display hyph (MteNotFound m) = m"
| "mcp_error_display hyph (MteNotAuthorized m) = lit ''tool not authorized: '' @ m"
| "mcp_error_display hyph (MteProtocol e) = protocol_error_display e"
| "mcp_error_display hyph (MteLayeringViolation m) = lit ''layering violation: '' @ m"
| "mcp_error_display hyph (MteStorage e) = lit ''storage: '' @ storage_error_display hyph e"
| "mcp_error_display hyph (MteUnavailable m) = m"
| "mcp_error_display hyph (MteStoreUnavailable store) = lit ''store '' @ display_nat (unat store) @ lit '' unavailable''"
| "mcp_error_display hyph (MteFailure m) = m"
| "mcp_error_display hyph (MteOther m) = m"

definition client_message :: "(uuid \<Rightarrow> str) \<Rightarrow> mcp_tool_error \<Rightarrow> str" where
  "client_message hyph e =
     (case e of
        MteNotAuthorized name \<Rightarrow> lit ''tool '' @ name @ lit '' not authorized for this MCP token''
      | _ \<Rightarrow> if mcp_error_kind e = KInternal then lit ''internal server error'' else mcp_error_display hyph e)"

section \<open>JSON-RPC rendering\<close>

text \<open>\<open>rpc_code\<close> names the constructors of the protocol library's error data.\<close>

datatype tool_invocation_error = TieNotAuthorized str | TieToolNotFound str | TieTool mcp_tool_error

fun invocation_from_mcp :: "mcp_tool_error \<Rightarrow> tool_invocation_error" where
  "invocation_from_mcp (MteNotAuthorized tool) = TieNotAuthorized tool"
| "invocation_from_mcp err = TieTool err"

fun invocation_kind :: "tool_invocation_error \<Rightarrow> mcp_tool_error_kind" where
  "invocation_kind (TieNotAuthorized _) = KInvalidRequest"
| "invocation_kind (TieToolNotFound _) = KInvalidInput"
| "invocation_kind (TieTool inner) = mcp_error_kind inner"

datatype rpc_code = RpcInvalidParams | RpcInvalidRequest | RpcServerError | RpcInternalError | RpcResourceNotFound

record error_data =
  ed_code :: rpc_code
  ed_message :: str
  ed_data :: "json option"

definition generic_internal_error :: error_data where
  "generic_internal_error = \<lparr>ed_code = RpcInternalError, ed_message = lit ''internal server error'', ed_data = None\<rparr>"

definition idempotency_conflict_data :: "(uuid \<Rightarrow> str) \<Rightarrow> mcp_tool_error \<Rightarrow> json option" where
  "idempotency_conflict_data hyph err =
     (let render = (\<lambda>existing. Some (JObject ((lit ''code'', JString (lit ''idempotency_conflict'')) #
          (case existing of None \<Rightarrow> [] | Some ex \<Rightarrow> [(lit ''existing'', JString (hyph ex))])))) in
      case err of
        MteProtocol inner \<Rightarrow> if pe_code inner = IdempotencyConflict then render (pe_existing inner) else None
      | MteStorage (SeIdempotencyConflict _ existing) \<Rightarrow> render existing
      | _ \<Rightarrow> None)"

definition mcp_tool_error_to_error_data :: "(uuid \<Rightarrow> str) \<Rightarrow> mcp_tool_error \<Rightarrow> error_data" where
  "mcp_tool_error_to_error_data hyph err =
     (let msg = client_message hyph err in
      case mcp_error_kind err of
        KInvalidInput \<Rightarrow> \<lparr>ed_code = RpcInvalidParams, ed_message = msg, ed_data = None\<rparr>
      | KNotFound \<Rightarrow> \<lparr>ed_code = RpcInvalidParams, ed_message = msg, ed_data = None\<rparr>
      | KInvalidRequest \<Rightarrow> \<lparr>ed_code = RpcInvalidRequest, ed_message = msg, ed_data = idempotency_conflict_data hyph err\<rparr>
      | KCapacityExhausted \<Rightarrow> \<lparr>ed_code = RpcServerError, ed_message = msg,
          ed_data = Some (JObject [(lit ''code'', JString (lit ''capacity_exhausted''))])\<rparr>
      | KStoreUnavailable \<Rightarrow> \<lparr>ed_code = RpcServerError, ed_message = msg,
          ed_data = Some (JObject [(lit ''code'', JString (lit ''store_unavailable'')),
            (lit ''store'', case err of MteStoreUnavailable store \<Rightarrow> JNumber (NumInt (int (unat store))) | _ \<Rightarrow> JNull)])\<rparr>
      | KInternal \<Rightarrow> generic_internal_error)"

fun resource_invocation_error_to_error_data :: "(uuid \<Rightarrow> str) \<Rightarrow> tool_invocation_error \<Rightarrow> error_data" where
  "resource_invocation_error_to_error_data hyph (TieNotAuthorized name) =
     \<lparr>ed_code = RpcInvalidRequest, ed_message = lit ''resource '' @ name @ lit '' not authorized for this MCP token'', ed_data = None\<rparr>"
| "resource_invocation_error_to_error_data hyph (TieToolNotFound name) =
     \<lparr>ed_code = RpcResourceNotFound, ed_message = lit ''unknown resource: '' @ name, ed_data = None\<rparr>"
| "resource_invocation_error_to_error_data hyph (TieTool inner) =
     (if mcp_error_kind inner = KNotFound
      then \<lparr>ed_code = RpcResourceNotFound, ed_message = client_message hyph inner, ed_data = None\<rparr>
      else mcp_tool_error_to_error_data hyph inner)"

section \<open>REST problem documents\<close>

record problem =
  pb_status :: nat
  pb_slug :: str
  pb_title :: str
  pb_detail :: str
  pb_instance :: str
  pb_allow :: "str option"
  pb_existing :: "uuid option"

definition TYPE_BASE :: str where "TYPE_BASE = lit ''https://proxiima.dev/errors/''"

definition problem_new :: "nat \<Rightarrow> str \<Rightarrow> str \<Rightarrow> str \<Rightarrow> str \<Rightarrow> problem" where
  "problem_new status slug title detail inst =
     \<lparr>pb_status = status, pb_slug = slug, pb_title = title, pb_detail = detail, pb_instance = inst,
      pb_allow = None, pb_existing = None\<rparr>"

definition with_allow :: "problem \<Rightarrow> str \<Rightarrow> problem" where
  "with_allow p a = p\<lparr>pb_allow := Some a\<rparr>"

definition with_existing :: "problem \<Rightarrow> uuid \<Rightarrow> problem" where
  "with_existing p ex = p\<lparr>pb_existing := Some ex\<rparr>"

definition problem_auth_required :: "str \<Rightarrow> problem" where
  "problem_auth_required inst = problem_new 401 (lit ''auth-required'') (lit ''Authentication required'')
     (lit ''a bearer token is required on this surface'') inst"

definition problem_invalid_input :: "str \<Rightarrow> str \<Rightarrow> problem" where
  "problem_invalid_input detail inst = problem_new 400 (lit ''invalid-input'') (lit ''Invalid input'') detail inst"

definition problem_not_found :: "str \<Rightarrow> str \<Rightarrow> problem" where
  "problem_not_found detail inst = problem_new 404 (lit ''not-found'') (lit ''Not found'') detail inst"

definition problem_to_json :: "(uuid \<Rightarrow> str) \<Rightarrow> problem \<Rightarrow> json" where
  "problem_to_json hyph p = JObject (
     [(lit ''type'', JString (TYPE_BASE @ pb_slug p)), (lit ''title'', JString (pb_title p)),
      (lit ''status'', JNumber (NumInt (int (pb_status p)))), (lit ''detail'', JString (pb_detail p)),
      (lit ''instance'', JString (pb_instance p))] @
     (case pb_existing p of None \<Rightarrow> [] | Some ex \<Rightarrow> [(lit ''existing'', JString (hyph ex))]))"

fun protocol_status :: "error_code \<Rightarrow> nat \<times> str \<times> str" where
  "protocol_status AuthRequired = (401, lit ''auth-required'', lit ''Authentication required'')"
| "protocol_status Forbidden = (403, lit ''forbidden'', lit ''Forbidden'')"
| "protocol_status UnknownSchema = (400, lit ''unknown-schema'', lit ''Unknown schema'')"
| "protocol_status InvalidArgument = (400, lit ''invalid-argument'', lit ''Invalid argument'')"
| "protocol_status NotFound = (404, lit ''not-found'', lit ''Not found'')"
| "protocol_status ToolNotRegistered = (404, lit ''tool-not-registered'', lit ''Tool not registered'')"
| "protocol_status AlreadyIngested = (409, lit ''already-ingested'', lit ''Already ingested'')"
| "protocol_status IdempotencyConflict = (409, lit ''idempotency-conflict'', lit ''Idempotency conflict'')"
| "protocol_status TriggerConflict = (409, lit ''trigger-conflict'', lit ''Trigger conflict'')"
| "protocol_status DuplicateTriggerInRequest =
     (409, lit ''duplicate-trigger-in-request'', lit ''Duplicate trigger in request'')"
| "protocol_status Suppressed = (409, lit ''suppressed'', lit ''Suppressed'')"
| "protocol_status CapacityExhaustedCode = (503, lit ''capacity-exhausted'', lit ''Capacity exhausted'')"
| "protocol_status Internal = (500, lit ''internal'', lit ''Internal error'')"

fun publication_status :: "publication_error \<Rightarrow> nat \<times> str \<times> str" where
  "publication_status (CapacityExhausted _ _) = (503, lit ''capacity-exhausted'', lit ''Capacity exhausted'')"
| "publication_status (SourceUnbound _) = (500, lit ''internal'', lit ''Internal error'')"
| "publication_status _ = (400, lit ''invalid-input'', lit ''Invalid input'')"

fun storage_status :: "storage_error \<Rightarrow> nat \<times> str \<times> str" where
  "storage_status (SeConstraintViolation _) = (400, lit ''invalid-input'', lit ''Invalid input'')"
| "storage_status SeMembershipIsolation = (400, lit ''invalid-input'', lit ''Invalid input'')"
| "storage_status (SeGoalChildrenOpen _) = (400, lit ''invalid-input'', lit ''Invalid input'')"
| "storage_status SeGoalChildrenAllAbandoned = (400, lit ''invalid-input'', lit ''Invalid input'')"
| "storage_status (SeForbidden _) = (403, lit ''forbidden'', lit ''Membership authorization refused'')"
| "storage_status SeNotFound = (404, lit ''not-found'', lit ''Not found'')"
| "storage_status (SeScopeMissing _ _) = (404, lit ''scope-not-registered'', lit ''Scope not registered'')"
| "storage_status (SeConflict _) = (409, lit ''conflict'', lit ''Conflict'')"
| "storage_status (SeIdempotencyConflict _ _) = (409, lit ''idempotency-conflict'', lit ''Idempotency conflict'')"
| "storage_status (SeReplayChanged _) = (409, lit ''idempotency-conflict'', lit ''Idempotency conflict'')"
| "storage_status (SeSuppressed _) = (409, lit ''suppressed'', lit ''Suppressed'')"
| "storage_status (SePublicationRefused p) = publication_status p"
| "storage_status (SeRetryable _) = (500, lit ''internal'', lit ''Internal error'')"
| "storage_status (SeUnavailable _) = (500, lit ''internal'', lit ''Internal error'')"
| "storage_status (SeInternal _) = (500, lit ''internal'', lit ''Internal error'')"
| "storage_status SeMemoryIdCollision = (500, lit ''internal'', lit ''Internal error'')"
| "storage_status (SeSchemaResetRequired _) = (500, lit ''internal'', lit ''Internal error'')"

fun tool_status :: "mcp_tool_error \<Rightarrow> nat \<times> str \<times> str" where
  "tool_status (MteInvalidInput _) = (400, lit ''invalid-input'', lit ''Invalid input'')"
| "tool_status (MteNotFound _) = (404, lit ''not-found'', lit ''Not found'')"
| "tool_status (MteNotAuthorized _) = (403, lit ''not-authorized'', lit ''Not authorized'')"
| "tool_status (MteLayeringViolation _) = (422, lit ''layering-violation'', lit ''Layering violation'')"
| "tool_status (MteUnavailable _) = (503, lit ''unavailable'', lit ''Capability unavailable'')"
| "tool_status (MteStoreUnavailable _) = (503, lit ''store-unavailable'', lit ''Store unavailable'')"
| "tool_status (MteFailure _) = (422, lit ''tool-failure'', lit ''Tool failed'')"
| "tool_status (MteProtocol e) = protocol_status (pe_code e)"
| "tool_status (MteStorage e) = storage_status e"
| "tool_status (MteOther _) = (500, lit ''internal'', lit ''Internal error'')"

fun idempotency_existing :: "mcp_tool_error \<Rightarrow> uuid option" where
  "idempotency_existing (MteProtocol e) = pe_existing e"
| "idempotency_existing (MteStorage (SeIdempotencyConflict _ existing)) = existing"
| "idempotency_existing _ = None"

definition tool_problem :: "(uuid \<Rightarrow> str) \<Rightarrow> mcp_tool_error \<Rightarrow> str \<Rightarrow> problem" where
  "tool_problem hyph err inst =
     (let (status, slug, title) = tool_status err;
          p = problem_new status slug title (client_message hyph err) inst in
      case idempotency_existing err of None \<Rightarrow> p | Some ex \<Rightarrow> with_existing p ex)"

fun problem_for :: "(uuid \<Rightarrow> str) \<Rightarrow> tool_invocation_error \<Rightarrow> str \<Rightarrow> problem" where
  "problem_for hyph (TieNotAuthorized name) inst =
     problem_new 403 (lit ''not-authorized'') (lit ''Not authorized'') (client_message hyph (MteNotAuthorized name)) inst"
| "problem_for hyph (TieToolNotFound name) inst =
     problem_new 404 (lit ''tool-not-found'') (lit ''Tool not found'') (lit ''tool '' @ name @ lit '' not found'') inst"
| "problem_for hyph (TieTool inner) inst = tool_problem hyph inner inst"

datatype core_mcp_error_kind =
  CkNotAuthorized | CkInvalidInput | CkNotFound | CkInvalidRequest | CkCapacityExhausted | CkStoreUnavailable | CkInternal

datatype core_mcp_error = CmeNotAuthorized str | CmeNotFound str | CmeTool mcp_tool_error_kind str

fun core_mcp_kind :: "core_mcp_error \<Rightarrow> core_mcp_error_kind" where
  "core_mcp_kind (CmeNotAuthorized _) = CkNotAuthorized"
| "core_mcp_kind (CmeNotFound _) = CkNotFound"
| "core_mcp_kind (CmeTool KInvalidInput _) = CkInvalidInput"
| "core_mcp_kind (CmeTool KNotFound _) = CkNotFound"
| "core_mcp_kind (CmeTool KInvalidRequest _) = CkInvalidRequest"
| "core_mcp_kind (CmeTool KCapacityExhausted _) = CkCapacityExhausted"
| "core_mcp_kind (CmeTool KStoreUnavailable _) = CkStoreUnavailable"
| "core_mcp_kind (CmeTool KInternal _) = CkInternal"

fun from_invocation_error :: "(uuid \<Rightarrow> str) \<Rightarrow> tool_invocation_error \<Rightarrow> core_mcp_error" where
  "from_invocation_error hyph (TieNotAuthorized tool) = CmeNotAuthorized tool"
| "from_invocation_error hyph (TieToolNotFound tool) = CmeNotFound tool"
| "from_invocation_error hyph (TieTool err) = CmeTool (mcp_error_kind err) (mcp_error_display hyph err)"

section \<open>Properties\<close>

lemma mapped_codes [simp]:
  "pe_code (replay_changed d) = IdempotencyConflict" "pe_code (scope_not_registered hyph k i) = NotFound"
  "pe_code (suppressed m) = Suppressed"
  by (simp_all add: replay_changed_def scope_not_registered_def suppressed_def plain_error_def)

lemma publication_kind_agrees: "protocol_kind (pe_code (map_publication_error p)) = publication_kind p"
  by (cases p) simp_all

lemma status_internal:
  "fst (protocol_status c) = 500 \<longleftrightarrow> protocol_kind c = KInternal"
  "fst (publication_status p) = 500 \<longleftrightarrow> publication_kind p = KInternal"
  by (cases c; simp) (cases p; simp)

lemma storage_status_internal: "fst (storage_status e) = 500 \<longleftrightarrow> storage_kind e = KInternal"
  by (cases e) (simp_all add: status_internal)

lemma tool_status_internal: "fst (tool_status e) = 500 \<longleftrightarrow> mcp_error_kind e = KInternal"
  by (cases e) (simp_all add: status_internal storage_status_internal)

lemma internal_redacted: "mcp_error_kind e = KInternal \<Longrightarrow> client_message hyph e = lit ''internal server error''"
  by (cases e) (simp_all add: client_message_def)

lemma tool_problem_fields:
  "pb_status (tool_problem hyph e inst) = fst (tool_status e)"
  "pb_detail (tool_problem hyph e inst) = client_message hyph e"
  "pb_existing (tool_problem hyph e inst) = idempotency_existing e"
  by (simp_all add: tool_problem_def split_def Let_def problem_new_def with_existing_def split: option.splits)

text \<open>
  C37. A storage failure has one class whichever channel carries it: rendered directly as a storage
  error, or mapped by the engine onto the protocol surface first, it has the same tool error kind, for
  every field and not-found message. The only exception is a storage conflict, which the engine turns
  into an argument error while the direct path reports an invalid request.
\<close>

theorem storage_channels_agree:
  "mcp_error_kind (MteProtocol (map_write_storage_error hyph e field nf)) = mcp_error_kind (MteStorage e) \<longleftrightarrow>
     (case e of SeConflict _ \<Rightarrow> False | _ \<Rightarrow> True)"
  by (cases e) (simp_all add: publication_kind_agrees)

text \<open>
  Internal faults are redacted on every outward surface. On REST the status is 500 exactly when
  the JSON-RPC code is the internal one and exactly when the in-process facade reports its internal
  kind; both outward surfaces then carry one constant text and JSON-RPC no data, and otherwise they
  carry the same message.
\<close>

theorem internal_faults_redacted:
  "(pb_status (tool_problem hyph e inst) = 500 \<longleftrightarrow> ed_code (mcp_tool_error_to_error_data hyph e) = RpcInternalError) \<and>
   (pb_status (tool_problem hyph e inst) = 500 \<longleftrightarrow> core_mcp_kind (from_invocation_error hyph (TieTool e)) = CkInternal) \<and>
   (if pb_status (tool_problem hyph e inst) = 500
    then pb_detail (tool_problem hyph e inst) = lit ''internal server error'' \<and>
      mcp_tool_error_to_error_data hyph e = generic_internal_error
    else pb_detail (tool_problem hyph e inst) = ed_message (mcp_tool_error_to_error_data hyph e))"
proof -
  have code: "ed_code (mcp_tool_error_to_error_data hyph e) = RpcInternalError \<longleftrightarrow> mcp_error_kind e = KInternal"
    by (simp add: mcp_tool_error_to_error_data_def generic_internal_error_def Let_def split: mcp_tool_error_kind.split)
  have core: "core_mcp_kind (CmeTool (mcp_error_kind e) m) = CkInternal \<longleftrightarrow> mcp_error_kind e = KInternal" for m
    by (cases "mcp_error_kind e") simp_all
  have msg: "mcp_error_kind e \<noteq> KInternal \<Longrightarrow> ed_message (mcp_tool_error_to_error_data hyph e) = client_message hyph e"
    by (simp add: mcp_tool_error_to_error_data_def Let_def split: mcp_tool_error_kind.split)
  have gen: "mcp_error_kind e = KInternal \<Longrightarrow> mcp_tool_error_to_error_data hyph e = generic_internal_error"
    by (simp add: mcp_tool_error_to_error_data_def Let_def)
  show ?thesis
    by (simp add: tool_problem_fields tool_status_internal code core msg gen internal_redacted)
qed

end
