(* ===== verification/Delegation.thy ===== *)
theory Delegation
  imports Pipeline Surfaces
begin

text \<open>
  Delegated authority for background commands
  (\<open>crates/core/src/storage_ports/delegated_authority.rs\<close>) and its Postgres store
  (\<open>crates/storage-pg/src/delegated_authority.rs\<close>).

  The service's collaborators are the fields of \<open>delegation_service\<close>: the membership resolver, the
  authenticator's epochs, the registered tools, the served surface and the runtime binding. The store
  port is passed as its operations on a store state. In the Postgres store a state is the table of
  grants; \<open>pg_time\<close> is the driver's rounding of a time stamp to the database's resolution and
  \<open>unique_violation\<close> the database's text for a duplicate key. Connection failures are not modelled there;
  the service is modelled for every answer of its store.
\<close>

section \<open>Commands\<close>

definition MAX_TOOL_ID_CHARS :: nat where "MAX_TOOL_ID_CHARS = 200"

definition registry_mcp_tool :: "mcp_tool_descriptor list \<Rightarrow> str \<Rightarrow> mcp_tool_descriptor option" where
  "registry_mcp_tool tools name = find (\<lambda>tool. d_name tool = name) tools"

definition tool_id_invalid :: "str \<Rightarrow> protocol_error" where
  "tool_id_invalid reason = invalid_argument (lit ''tool_id'') reason"

definition NOT_CANONICAL :: str where "NOT_CANONICAL = lit ''tool id must be provider-safe canonical id''"
definition LEAF_REGISTERED :: str where "LEAF_REGISTERED = lit ''leaf action scope required and must be registered''"

definition registered_tool_key :: "str \<Rightarrow> mcp_tool_descriptor list \<Rightarrow> (protocol_error, scope_key) result" where
  "registered_tool_key value tools =
     (if 47 \<in> set value then Inl (tool_id_invalid NOT_CANONICAL)
      else (case scope_key_parse value of
          Inl _ \<Rightarrow> Inl (tool_id_invalid (if SEPARATOR \<in> set value then LEAF_REGISTERED else NOT_CANONICAL))
        | Inr (KeyAction t a) \<Rightarrow>
            if is_some_and (registry_mcp_tool tools (tool_str t)) (\<lambda>D. action_str a \<in> set (map fst (d_actions D)))
            then Inr (KeyAction t a) else Inl (tool_id_invalid LEAF_REGISTERED)
        | Inr (KeyTool t) \<Rightarrow>
            (case registry_mcp_tool tools (tool_str t) of
               Some D \<Rightarrow>
                 if d_action_arg_specs D \<noteq> [] \<or> d_argv_action_specs D \<noteq> []
                 then Inl (tool_id_invalid (lit ''leaf action scope required for grouped tools''))
                 else Inr (KeyTool t)
             | None \<Rightarrow> Inl (tool_id_invalid (lit ''tool id is not registered'')))
        | Inr (KeyResource _) \<Rightarrow> Inl (tool_id_invalid LEAF_REGISTERED)))"

record delegated_command =
  dc_tool :: tool_name
  dc_action :: "action_name option"

fun command_from_key :: "scope_key \<Rightarrow> delegated_command option" where
  "command_from_key (KeyTool t) = Some \<lparr>dc_tool = t, dc_action = None\<rparr>"
| "command_from_key (KeyAction t a) = Some \<lparr>dc_tool = t, dc_action = Some a\<rparr>"
| "command_from_key (KeyResource _) = None"

definition command_parse :: "str \<Rightarrow> mcp_tool_descriptor list \<Rightarrow> (protocol_error, delegated_command) result" where
  "command_parse raw tools =
     rbind (map_err (\<lambda>v. tool_id_invalid (violation_reason v (lit ''tool id''))) (check_trimmed_len raw MAX_TOOL_ID_CHARS)) (\<lambda>value.
     rbind (registered_tool_key value tools) (\<lambda>key.
       ok_or (tool_id_invalid (lit ''tool id must name a tool or a leaf action'')) (command_from_key key)))"

definition command_display :: "delegated_command \<Rightarrow> str" where
  "command_display c =
     (case dc_action c of None \<Rightarrow> tool_str (dc_tool c) | Some a \<Rightarrow> tool_str (dc_tool c) @ lit '':'' @ action_str a)"

definition command_not_canonical :: storage_error where
  "command_not_canonical = SeConstraintViolation (lit ''stored delegation command is not canonical'')"

definition command_from_storage_parts :: "str \<Rightarrow> str option \<Rightarrow> (storage_error, delegated_command) result" where
  "command_from_storage_parts tool act =
     rbind (map_err (\<lambda>_. command_not_canonical) (tool_name_parse tool)) (\<lambda>t.
     rbind (case act of
         None \<Rightarrow> Inr (KeyTool t)
       | Some raw \<Rightarrow>
           rbind (map_err (\<lambda>_. command_not_canonical) (action_name_parse raw)) (\<lambda>a.
             map_err (\<lambda>_. command_not_canonical) (scope_key_action t a))) (\<lambda>key.
     rbind (ok_or command_not_canonical (command_from_key key)) (\<lambda>c.
       if length (command_display c) > MAX_TOOL_ID_CHARS then Inl command_not_canonical else Inr c)))"

definition command_scope_key :: "delegated_command \<Rightarrow> (scope_key_error, scope_key) result" where
  "command_scope_key c =
     (case dc_action c of None \<Rightarrow> Inr (KeyTool (dc_tool c)) | Some a \<Rightarrow> scope_key_action (dc_tool c) a)"

definition command_tool_scope :: "delegated_command \<Rightarrow> (scope_key_error, tool_scope) result" where
  "command_tool_scope c = rbind (command_scope_key c) (\<lambda>key. Inr (ScopePalette [key]))"

section \<open>Grants and the store port\<close>

datatype delegation_id = DelegationId (delegation_uuid: uuid)

record delegation_issued =
  di_id :: delegation_id
  di_expires_at :: system_time

datatype delegation_revocation = RevokedNow | AlreadyRevoked

datatype delegated_authority_error =
    HostBearerRequired
  | MissingSubject
  | MissingBearerExpiry
  | DaExpired
  | ManagementNotDelegable
  | RoleCeilingExceeded
  | ToolScopeDenied str
  | CommandUnavailable str
  | DaNotFound
  | DaRevoked
  | CommandMismatch
  | MembershipRevoked
  | RoleCeilingNoLongerHeld
  | AuthEpochRevoked
  | RevocationDenied
  | DaAccess access_error
  | DaStorage storage_error

record delegation_grant =
  gr_delegation_id :: delegation_id
  gr_subject :: user_id
  gr_writer :: writer_attribution
  gr_owner :: owner_id
  gr_command :: delegated_command
  gr_role_ceiling :: role
  gr_expires_at :: system_time
  gr_auth_epoch :: u64
  gr_issued_at :: system_time
  gr_revoked_at :: "system_time option"
  gr_revoked_by :: "user_id option"

record delegation_grant_storage =
  gs_delegation_id :: delegation_id
  gs_subject :: user_id
  gs_writer :: writer_attribution
  gs_owner :: owner_id
  gs_tool :: str
  gs_action :: "str option"
  gs_role_ceiling :: role
  gs_expires_at :: system_time
  gs_auth_epoch :: u64
  gs_issued_at :: system_time
  gs_revoked_at :: "system_time option"
  gs_revoked_by :: "user_id option"

definition grant_issued ::
  "delegation_id \<Rightarrow> owner_scope \<Rightarrow> owner_id \<Rightarrow> delegated_command \<Rightarrow> role \<Rightarrow> system_time \<Rightarrow> u64 \<Rightarrow> system_time \<Rightarrow> delegation_grant" where
  "grant_issued fresh source w c ceiling ex epoch issued_at =
     \<lparr>gr_delegation_id = fresh, gr_subject = os_subject source, gr_writer = os_writer source, gr_owner = w,
      gr_command = c, gr_role_ceiling = ceiling, gr_expires_at = ex, gr_auth_epoch = epoch, gr_issued_at = issued_at,
      gr_revoked_at = None, gr_revoked_by = None\<rparr>"

definition grant_from_storage :: "delegation_grant_storage \<Rightarrow> (storage_error, delegation_grant) result" where
  "grant_from_storage s =
     (if role_manage (gs_role_ceiling s)
      then Inl (SeConstraintViolation (lit ''stored delegation role ceiling includes management''))
      else if gs_expires_at s \<le> gs_issued_at s
      then Inl (SeConstraintViolation (lit ''stored delegation expiry is not after issue time''))
      else if (gs_revoked_at s \<noteq> None) \<noteq> (gs_revoked_by s \<noteq> None)
      then Inl (SeConstraintViolation (lit ''stored delegation revocation shape is invalid''))
      else rbind (command_from_storage_parts (gs_tool s) (gs_action s)) (\<lambda>c.
        Inr \<lparr>gr_delegation_id = gs_delegation_id s, gr_subject = gs_subject s, gr_writer = gs_writer s,
          gr_owner = gs_owner s, gr_command = c, gr_role_ceiling = gs_role_ceiling s, gr_expires_at = gs_expires_at s,
          gr_auth_epoch = gs_auth_epoch s, gr_issued_at = gs_issued_at s, gr_revoked_at = gs_revoked_at s,
          gr_revoked_by = gs_revoked_by s\<rparr>))"

type_synonym 's store_insert = "'s \<Rightarrow> delegation_grant \<Rightarrow> (storage_error, unit) result \<times> 's"
type_synonym 's store_load = "'s \<Rightarrow> delegation_id \<Rightarrow> owner_id \<Rightarrow> (storage_error, delegation_grant option) result"
type_synonym 's store_revoke =
  "'s \<Rightarrow> delegation_id \<Rightarrow> owner_id \<Rightarrow> system_time \<Rightarrow> user_id \<Rightarrow> (storage_error, bool) result \<times> 's"

section \<open>The service\<close>

record delegation_service =
  ds_resolve_roles :: "user_id \<Rightarrow> (access_error, owner_roles) result"
  ds_current_auth_epoch :: "owner_id \<Rightarrow> u64"
  ds_tools :: "mcp_tool_descriptor list"
  ds_served_surface :: served_surface
  ds_runtime_binding :: delegation_runtime_binding

definition validate_host_bearer ::
  "system_time \<Rightarrow> authz_context \<Rightarrow> (delegated_authority_error, user_id \<times> system_time) result" where
  "validate_host_bearer now C =
     (if ac_auth_path C \<noteq> HostBearer \<or> ac_forwarded_owner C \<noteq> None then Inl HostBearerRequired
      else rbind (ok_or MissingSubject (ac_subject C)) (\<lambda>subject.
        rbind (ok_or HostBearerRequired (ac_sealed_scope C)) (\<lambda>scope.
        rbind (ok_or MissingBearerExpiry (ac_expires_at C)) (\<lambda>ex.
        rbind (ok_or MissingBearerExpiry (os_expires_at scope)) (\<lambda>ex'.
          if min ex ex' \<le> now then Inl DaExpired else Inr (subject, min ex ex'))))))"

definition revalidate_epoch :: "delegation_service \<Rightarrow> user_id \<Rightarrow> u64 \<Rightarrow> (delegated_authority_error, unit) result" where
  "revalidate_epoch D subject epoch =
     (if ds_current_auth_epoch D (owner_of_user subject) > epoch then Inl AuthEpochRevoked else Inr ())"

definition current_roles :: "delegation_service \<Rightarrow> user_id \<Rightarrow> (delegated_authority_error, owner_roles) result" where
  "current_roles D subject =
     rbind (map_err DaAccess (ds_resolve_roles D subject)) (\<lambda>R.
       if or_subject R \<noteq> subject
       then Inl (DaAccess (Resolution (lit ''owner access resolver returned roles for a different subject'')))
       else Inr R)"

definition validate_current_command ::
  "delegation_service \<Rightarrow> delegated_command \<Rightarrow> (delegated_authority_error, unit) result" where
  "validate_current_command D c =
     rbind (map_err (\<lambda>e. CommandUnavailable (pe_message e)) (command_parse (command_display c) (ds_tools D))) (\<lambda>current.
       if current \<noteq> c then Inl (CommandUnavailable (command_display c)) else Inr ())"

definition validate_scopes ::
  "delegation_service \<Rightarrow> capability_set \<Rightarrow> delegated_command \<Rightarrow> (delegated_authority_error, unit) result" where
  "validate_scopes D caps c =
     rbind (ok_or (CommandUnavailable (command_display c)) (registry_mcp_tool (ds_tools D) (tool_str (dc_tool c)))) (\<lambda>desc.
     rbind (map_err (\<lambda>_. CommandUnavailable (command_display c)) (command_scope_key c)) (\<lambda>key.
       let declared = d_declaration desc (map_option action_str (dc_action c)) in
       if \<not> caps_admit caps key declared \<or> \<not> surface_admits (ds_served_surface D) key declared
       then Inl (ToolScopeDenied (command_display c)) else Inr ()))"

text \<open>\<open>issue\<close>: every check before the insert, then the store's answer. \<open>fresh\<close> is the minted id.\<close>

definition issue_checks ::
  "delegation_service \<Rightarrow> system_time \<Rightarrow> system_time \<Rightarrow> authz_context \<Rightarrow> owner_id \<Rightarrow> delegated_command \<Rightarrow> role \<Rightarrow>
   (delegated_authority_error, owner_scope \<times> system_time) result" where
  "issue_checks D now now' C w c ceiling =
     rbind (validate_host_bearer now C) (\<lambda>(subject, ex).
     rbind (ok_or HostBearerRequired (ac_sealed_scope C)) (\<lambda>scope.
       if \<not> is_some_and (os_role_for_owner scope w) (\<lambda>r. role_dominates r ceiling) then Inl RoleCeilingExceeded
       else if ex \<le> now' then Inl DaExpired
       else if role_manage ceiling then Inl ManagementNotDelegable
       else rbind (revalidate_epoch D subject (id_auth_epoch (ac_identity C))) (\<lambda>_.
         rbind (current_roles D subject) (\<lambda>R.
         rbind (ok_or RoleCeilingExceeded (role_for R w)) (\<lambda>r.
           if \<not> role_dominates r ceiling then Inl RoleCeilingExceeded
           else rbind (validate_current_command D c) (\<lambda>_.
             rbind (validate_scopes D (ac_capabilities C) c) (\<lambda>_. Inr (scope, ex))))))))"

definition issue ::
  "delegation_service \<Rightarrow> 's store_insert \<Rightarrow> system_time \<Rightarrow> system_time \<Rightarrow> delegation_id \<Rightarrow> 's \<Rightarrow> authz_context \<Rightarrow>
   owner_id \<Rightarrow> delegated_command \<Rightarrow> role \<Rightarrow> (delegated_authority_error, delegation_issued) result \<times> 's" where
  "issue D ins now now' fresh s C w c ceiling =
     (case issue_checks D now now' C w c ceiling of
        Inl err \<Rightarrow> (Inl err, s)
      | Inr (scope, ex) \<Rightarrow>
          let g = grant_issued fresh scope w c ceiling ex (id_auth_epoch (ac_identity C)) now';
              (r, s') = ins s g in
          (rbind (map_err DaStorage r) (\<lambda>_. Inr \<lparr>di_id = gr_delegation_id g, di_expires_at = ex\<rparr>), s'))"

definition phase_context :: "delegation_service \<Rightarrow> delegation_grant \<Rightarrow> owner_id \<Rightarrow> role \<Rightarrow> tool_scope \<Rightarrow> authz_context" where
  "phase_context D g w effective scope =
     with_served_surface (with_tool_scope (with_auth_epoch (with_expires_at
       (server_resolved_with_writer (scoped_to (gr_subject g) w effective) Delegated (gr_writer g))
       (Some (gr_expires_at g))) (gr_auth_epoch g)) scope) (ds_served_surface D)"

definition redeem_phase ::
  "delegation_service \<Rightarrow> 's store_load \<Rightarrow> system_time \<Rightarrow> 's \<Rightarrow> delegation_id \<Rightarrow> owner_id \<Rightarrow> delegated_command \<Rightarrow>
   (delegated_authority_error, delegated_phase) result" where
  "redeem_phase D load now s i w c =
     rbind (map_err DaStorage (load s i w)) (\<lambda>found.
     rbind (ok_or DaNotFound found) (\<lambda>g.
       if gr_delegation_id g \<noteq> i \<or> gr_owner g \<noteq> w then Inl DaNotFound
       else if gr_command g \<noteq> c then Inl CommandMismatch
       else if gr_revoked_at g \<noteq> None then Inl DaRevoked
       else if gr_expires_at g \<le> now then Inl DaExpired
       else rbind (validate_current_command D (gr_command g)) (\<lambda>_.
         rbind (validate_scopes D capability_all (gr_command g)) (\<lambda>_.
         rbind (revalidate_epoch D (gr_subject g) (gr_auth_epoch g)) (\<lambda>_.
         rbind (current_roles D (gr_subject g)) (\<lambda>R.
         rbind (ok_or MembershipRevoked (role_for R w)) (\<lambda>r.
           if \<not> role_dominates r (gr_role_ceiling g) then Inl RoleCeilingNoLongerHeld
           else rbind (map_err (\<lambda>_. CommandUnavailable (command_display (gr_command g)))
                 (command_tool_scope (gr_command g))) (\<lambda>scope.
             rbind (map_err (\<lambda>_. MembershipRevoked)
                 (seal_verified_scope (phase_context D g w (role_meet r (gr_role_ceiling g)) scope))) (\<lambda>C.
               Inr \<lparr>ph_authz = C, ph_expires_at = gr_expires_at g, ph_runtime_binding = ds_runtime_binding D\<rparr>)))))))))"

definition revoke_admitted ::
  "delegation_service \<Rightarrow> 's store_load \<Rightarrow> system_time \<Rightarrow> 's \<Rightarrow> authz_context \<Rightarrow> delegation_id \<Rightarrow> owner_id \<Rightarrow>
   (delegated_authority_error, user_id \<times> delegation_grant) result" where
  "revoke_admitted D load now s C i w =
     rbind (validate_host_bearer now C) (\<lambda>(caller, _).
     rbind (revalidate_epoch D caller (id_auth_epoch (ac_identity C))) (\<lambda>_.
     rbind (map_err DaStorage (load s i w)) (\<lambda>found.
     rbind (ok_or DaNotFound found) (\<lambda>g.
       if gr_delegation_id g \<noteq> i \<or> gr_owner g \<noteq> w then Inl DaNotFound
       else rbind (current_roles D caller) (\<lambda>R.
         rbind (ok_or RevocationDenied (role_for R w)) (\<lambda>r.
           if caller \<noteq> gr_subject g \<and> \<not> role_manage r then Inl RevocationDenied else Inr (caller, g)))))))"

definition revoke_delegation ::
  "delegation_service \<Rightarrow> 's store_load \<Rightarrow> 's store_revoke \<Rightarrow> system_time \<Rightarrow> system_time \<Rightarrow> 's \<Rightarrow> authz_context \<Rightarrow>
   delegation_id \<Rightarrow> owner_id \<Rightarrow> (delegated_authority_error, delegation_revocation) result \<times> 's" where
  "revoke_delegation D load rvk now now' s C i w =
     (case revoke_admitted D load now s C i w of
        Inl err \<Rightarrow> (Inl err, s)
      | Inr (caller, g) \<Rightarrow>
          if gr_revoked_at g \<noteq> None then (Inr AlreadyRevoked, s)
          else let (r, s') = rvk s i w now' caller in
            (rbind (map_err DaStorage r) (\<lambda>hit. Inr (if hit then RevokedNow else AlreadyRevoked)), s'))"

section \<open>The Postgres store\<close>

record grant_row =
  row_delegation_id :: uuid
  row_subject :: uuid
  row_owner :: uuid
  row_tool :: str
  row_action :: "str option"
  row_read :: access_ceiling
  row_write :: access_ceiling
  row_expires_at :: system_time
  row_auth_epoch :: int
  row_issued_at :: system_time
  row_revoked_at :: "system_time option"
  row_revoked_by :: "uuid option"
  row_by :: uuid
  row_via :: "uuid option"

definition pg_insert :: "(system_time \<Rightarrow> system_time) \<Rightarrow> str \<Rightarrow> grant_row list store_insert" where
  "pg_insert pg_time unique_violation s g =
     (if unat (gr_auth_epoch g) \<ge> 2 ^ 63
      then (Inl (SeConstraintViolation (lit ''delegation auth epoch exceeds i64'')), s)
      else if delegation_uuid (gr_delegation_id g) \<in> set (map row_delegation_id s)
      then (Inl (SeConstraintViolation unique_violation), s)
      else (Inr (), s @ [\<lparr>row_delegation_id = delegation_uuid (gr_delegation_id g), row_subject = user_uuid (gr_subject g),
        row_owner = owner_uuid (gr_owner g), row_tool = tool_str (dc_tool (gr_command g)),
        row_action = map_option action_str (dc_action (gr_command g)),
        row_read = role_read (gr_role_ceiling g), row_write = role_write (gr_role_ceiling g),
        row_expires_at = pg_time (gr_expires_at g), row_auth_epoch = int (unat (gr_auth_epoch g)),
        row_issued_at = pg_time (gr_issued_at g), row_revoked_at = None, row_revoked_by = None,
        row_by = wa_by (gr_writer g), row_via = wa_via (gr_writer g)\<rparr>]))"

definition decode_grant :: "(access_error \<Rightarrow> str) \<Rightarrow> grant_row \<Rightarrow> (storage_error, delegation_grant) result" where
  "decode_grant access_text row =
     rbind (map_err (\<lambda>e. SeInternal (access_text e)) (role_new (row_read row) (row_write row) False)) (\<lambda>ceiling.
       if row_auth_epoch row < 0 then Inl (SeInternal (lit ''negative delegation auth epoch''))
       else grant_from_storage \<lparr>gs_delegation_id = DelegationId (row_delegation_id row), gs_subject = UserId (row_subject row),
         gs_writer = \<lparr>wa_by = row_by row, wa_via = row_via row\<rparr>, gs_owner = OwnerId (row_owner row), gs_tool = row_tool row,
         gs_action = row_action row, gs_role_ceiling = ceiling, gs_expires_at = row_expires_at row,
         gs_auth_epoch = word_of_int (row_auth_epoch row), gs_issued_at = row_issued_at row,
         gs_revoked_at = row_revoked_at row, gs_revoked_by = map_option UserId (row_revoked_by row)\<rparr>)"

definition row_is :: "delegation_id \<Rightarrow> owner_id \<Rightarrow> grant_row \<Rightarrow> bool" where
  "row_is i w row \<longleftrightarrow> row_delegation_id row = delegation_uuid i \<and> row_owner row = owner_uuid w"

definition pg_load :: "(access_error \<Rightarrow> str) \<Rightarrow> grant_row list store_load" where
  "pg_load access_text s i w =
     (case find (row_is i w) s of
        None \<Rightarrow> Inr None
      | Some row \<Rightarrow> rbind (decode_grant access_text row) (\<lambda>g. Inr (Some g)))"

definition pg_revoke :: "(system_time \<Rightarrow> system_time) \<Rightarrow> grant_row list store_revoke" where
  "pg_revoke pg_time s i w revoked_at by =
     (let hit = (\<lambda>row. row_is i w row \<and> row_revoked_at row = None) in
      (Inr (length (filter hit s) = 1),
       map (\<lambda>row. if hit row then row\<lparr>row_revoked_at := Some (pg_time revoked_at), row_revoked_by := Some (user_uuid by)\<rparr>
         else row) s))"

section \<open>Redeemed phases\<close>

lemma phase_context_simps [simp]:
  "ac_owner_roles (phase_context D g w r sc) = Some (scoped_to (gr_subject g) w r)"
  "ac_auth_path (phase_context D g w r sc) = Delegated"
  "ac_expires_at (phase_context D g w r sc) = Some (gr_expires_at g)"
  "ac_writer (phase_context D g w r sc) = Some (gr_writer g)"
  "ac_owner_scope (phase_context D g w r sc) = Unsealed None"
  "ac_forwarded_owner (phase_context D g w r sc) = None"
  "ac_system_binding (phase_context D g w r sc) = None"
  "id_auth_epoch (ac_identity (phase_context D g w r sc)) = gr_auth_epoch g"
  "ac_capabilities (phase_context D g w r sc) = \<lparr>cs_tool_scope = sc, cs_served_surface = ds_served_surface D\<rparr>"
  by (simp_all add: phase_context_def with_served_surface_def with_tool_scope_def with_auth_epoch_def with_expires_at_def
      server_resolved_with_writer_def ac_expires_at_def ac_writer_def capability_all_def)

definition sealed_phase :: "delegation_service \<Rightarrow> delegation_grant \<Rightarrow> owner_id \<Rightarrow> role \<Rightarrow> tool_scope \<Rightarrow> authz_context" where
  "sealed_phase D g w r sc = (phase_context D g w r sc)
     \<lparr>ac_owner_scope := Sealed (from_verified_roles (scoped_to (gr_subject g) w r) (Some (gr_expires_at g)) (gr_writer g))\<rparr>"

lemma seal_phase: "seal_verified_scope (phase_context D g w r sc) = Inr (sealed_phase D g w r sc)"
  by (simp add: seal_verified_scope_def sealed_phase_def Let_def)

lemma sealed_phase_simps [simp]:
  "ac_auth_path (sealed_phase D g w r sc) = Delegated"
  "ac_expires_at (sealed_phase D g w r sc) = Some (gr_expires_at g)"
  "ac_capabilities (sealed_phase D g w r sc) = \<lparr>cs_tool_scope = sc, cs_served_surface = ds_served_surface D\<rparr>"
  "ac_role_for_owner (sealed_phase D g w r sc) v = (if v = w then Some r else None)"
  "ac_may_read (sealed_phase D g w r sc) v k \<longleftrightarrow> v = w \<and> role_may_read r k"
  "ac_may_write (sealed_phase D g w r sc) v k \<longleftrightarrow> v = w \<and> role_may_write r k"
  using phase_context_simps(2,3,9) [of D g w r sc]
  by (simp_all add: sealed_phase_def ac_expires_at_def ac_may_read_def ac_may_write_def ac_role_for_owner_def
      roles_may_read_def roles_may_write_def)

lemma redeem_phase_Inr:
  assumes "redeem_phase D load now s i w c = Inr ph"
  obtains g R r scope where "load s i w = Inr (Some g)" "gr_delegation_id g = i" "gr_owner g = w" "gr_command g = c"
    "gr_revoked_at g = None" "now < gr_expires_at g" "validate_current_command D c = Inr ()"
    "validate_scopes D capability_all c = Inr ()" "revalidate_epoch D (gr_subject g) (gr_auth_epoch g) = Inr ()"
    "current_roles D (gr_subject g) = Inr R" "role_for R w = Some r" "role_dominates r (gr_role_ceiling g)"
    "command_tool_scope c = Inr scope"
    "ph = \<lparr>ph_authz = sealed_phase D g w (role_meet r (gr_role_ceiling g)) scope, ph_expires_at = gr_expires_at g,
       ph_runtime_binding = ds_runtime_binding D\<rparr>"
  using assms
  by (auto simp: redeem_phase_def result_simps seal_phase not_le split: if_splits intro: that)

lemma dominates_meet:
  "role_dominates r ceiling \<Longrightarrow> role_may_read (role_meet r ceiling) k = role_may_read ceiling k"
  "role_dominates r ceiling \<Longrightarrow> role_may_write (role_meet r ceiling) k = role_may_write ceiling k"
  by (auto simp: role_dominates_iff)

section \<open>Commands survive storage\<close>

lemma name_parse_self:
  "name_ok (tool_str t) \<Longrightarrow> tool_name_parse (tool_str t) = Inr t"
  "name_ok (action_str a) \<Longrightarrow> action_name_parse (action_str a) = Inr a"
  by (simp_all add: name_parse_ok)

lemma command_key_ok:
  assumes "command_from_key key = Some c" "scope_key_ok key"
  shows "command_display c = scope_key_display key" "command_scope_key c = Inr key"
    "length (scope_key_display key) \<le> MAX_TOOL_ID_CHARS \<Longrightarrow>
       command_from_storage_parts (tool_str (dc_tool c)) (map_option action_str (dc_action c)) = Inr c"
proof -
  from assms show "command_display c = scope_key_display key"
    by (cases key) (auto simp: command_display_def scope_key_display_def)
  then have len: "length (scope_key_display key) = length (command_display c)" by simp
  from assms show "command_scope_key c = Inr key"
    by (cases key) (auto simp: command_scope_key_def scope_key_action_def)
  show "command_from_storage_parts (tool_str (dc_tool c)) (map_option action_str (dc_action c)) = Inr c"
    if "length (scope_key_display key) \<le> MAX_TOOL_ID_CHARS"
    using assms that unfolding len
    by (cases key) (auto simp: command_from_storage_parts_def name_parse_self scope_key_action_def)
qed

lemma validate_current_command_ok:
  assumes "validate_current_command D c = Inr ()"
  obtains key where "command_from_key key = Some c" "scope_key_ok key" "length (scope_key_display key) \<le> MAX_TOOL_ID_CHARS"
proof -
  from assms obtain v key where v: "check_trimmed_len (command_display c) MAX_TOOL_ID_CHARS = Inr v"
    and key: "registered_tool_key v (ds_tools D) = Inr key" "command_from_key key = Some c"
    by (auto simp: validate_current_command_def command_parse_def result_simps split: if_splits)
  from key(1) have "scope_key_parse v = Inr key"
    by (auto simp: registered_tool_key_def split: if_splits sum.splits scope_key.splits option.splits)
  from parse_sound [OF this] v key(2) show ?thesis
    by (intro that [of key]) (auto simp: check_trimmed_len_def Let_def split: if_splits)
qed

section \<open>The store contract\<close>

text \<open>
  What the service relies on in its store: a grant once revoked stays revoked under every later
  insert and revocation, and a revocation the store answers leaves the grant revoked.
\<close>

inductive store_step :: "'s store_insert \<Rightarrow> 's store_revoke \<Rightarrow> 's \<Rightarrow> 's \<Rightarrow> bool"
  for ins rvk where
  step_insert: "store_step ins rvk s (snd (ins s g))"
| step_revoke: "store_step ins rvk s (snd (rvk s i w t u))"

locale delegation_store =
  fixes wf :: "'s \<Rightarrow> bool" and ins :: "'s store_insert" and load :: "'s store_load" and rvk :: "'s store_revoke"
    and revoked :: "'s \<Rightarrow> delegation_id \<Rightarrow> bool"
  assumes wf_insert: "wf s \<Longrightarrow> wf (snd (ins s g))"
    and wf_revoke: "wf s \<Longrightarrow> wf (snd (rvk s i w t u))"
    and load_revoked: "revoked s i \<Longrightarrow> load s i w = Inr (Some g) \<Longrightarrow> gr_revoked_at g \<noteq> None"
    and load_is_revoked: "wf s \<Longrightarrow> load s i w = Inr (Some g) \<Longrightarrow> gr_revoked_at g \<noteq> None \<Longrightarrow> revoked s i"
    and insert_keeps: "revoked s i \<Longrightarrow> revoked (snd (ins s g)) i"
    and revoke_keeps: "revoked s i \<Longrightarrow> revoked (snd (rvk s j w t u)) i"
    and revoke_sets: "wf s \<Longrightarrow> load s i w = Inr (Some g) \<Longrightarrow> fst (rvk s i w t u) = Inr b \<Longrightarrow> revoked (snd (rvk s i w t u)) i"
begin

lemma revoked_steps: "(store_step ins rvk)\<^sup>*\<^sup>* s s' \<Longrightarrow> revoked s i \<Longrightarrow> revoked s' i"
  by (induction rule: rtranclp_induct) (auto elim!: store_step.cases intro: insert_keeps revoke_keeps)

lemma wf_steps: "(store_step ins rvk)\<^sup>*\<^sup>* s s' \<Longrightarrow> wf s \<Longrightarrow> wf s'"
  by (induction rule: rtranclp_induct) (auto elim!: store_step.cases intro: wf_insert wf_revoke)

lemma revoked_not_redeemed:
  assumes "revoked s i"
  shows "\<not> is_ok (redeem_phase D load now s i w c)"
proof
  assume "is_ok (redeem_phase D load now s i w c)"
  then obtain ph where "redeem_phase D load now s i w c = Inr ph" by (auto simp: is_ok_iff)
  then obtain g where g: "load s i w = Inr (Some g)" "gr_revoked_at g = None" by (rule redeem_phase_Inr)
  from load_revoked [OF assms g(1)] g(2) show False by simp
qed

lemma revoke_delegation_sets:
  assumes "revoke_delegation D load rvk now now' s C i w = (Inr out, s')" "wf s"
  shows "revoked s' i"
proof -
  from assms(1) obtain caller g where adm: "revoke_admitted D load now s C i w = Inr (caller, g)"
    by (auto simp: revoke_delegation_def split: sum.splits)
  then have g: "load s i w = Inr (Some g)"
    by (auto simp: revoke_admitted_def result_simps split: if_splits)
  show ?thesis
  proof (cases "gr_revoked_at g = None")
    case True
    obtain r s1 where r: "rvk s i w now' caller = (r, s1)" by (metis surj_pair)
    with True adm assms(1) obtain b where "r = Inr b" "s1 = s'"
      by (auto simp: revoke_delegation_def result_simps)
    with r revoke_sets [OF assms(2) g, of now' caller b] show ?thesis by simp
  next
    case False
    with adm assms(1) have "s' = s" by (auto simp: revoke_delegation_def)
    with False load_is_revoked [OF assms(2) g] show ?thesis by simp
  qed
qed

end

definition pg_wf :: "grant_row list \<Rightarrow> bool" where
  "pg_wf s \<longleftrightarrow> distinct (map row_delegation_id s)"

definition pg_revoked :: "grant_row list \<Rightarrow> delegation_id \<Rightarrow> bool" where
  "pg_revoked s i \<longleftrightarrow> (\<exists>row \<in> set s. row_delegation_id row = delegation_uuid i) \<and>
     (\<forall>row \<in> set s. row_delegation_id row = delegation_uuid i \<longrightarrow> row_revoked_at row \<noteq> None)"

lemma decode_grant_Inr:
  assumes "decode_grant atxt row = Inr g"
  shows "gr_delegation_id g = DelegationId (row_delegation_id row)" "gr_owner g = OwnerId (row_owner row)"
    "gr_revoked_at g = row_revoked_at row" "\<not> role_manage (gr_role_ceiling g)" "role_ok (gr_role_ceiling g)"
    "gr_issued_at g < gr_expires_at g"
  using assms
  by (auto simp: decode_grant_def grant_from_storage_def result_simps not_le split: if_splits dest: role_new_ok)

lemma pg_load_Some:
  assumes "pg_load atxt s i w = Inr (Some g)"
  obtains row where "row \<in> set s" "row_is i w row" "decode_grant atxt row = Inr g"
  using assms by (auto simp: pg_load_def result_simps find_Some_iff split: option.splits intro: that nth_mem)

lemma pg_wf_unique:
  assumes "pg_wf s" "row \<in> set s" "row_is i w row" "r \<in> set s" "row_delegation_id r = delegation_uuid i"
  shows "r = row"
proof -
  from assms(3,5) have "row_delegation_id r = row_delegation_id row" by (simp add: row_is_def)
  moreover from assms(1) have "inj_on row_delegation_id (set s)" by (simp add: pg_wf_def distinct_map)
  ultimately show ?thesis using assms(2,4) by (simp add: inj_on_eq_iff)
qed

lemma pg_revoked_row:
  assumes "pg_wf s" "row \<in> set s" "row_is i w row"
  shows "pg_revoked s i \<longleftrightarrow> row_revoked_at row \<noteq> None"
proof -
  have id: "row_delegation_id row = delegation_uuid i" using assms(3) by (simp add: row_is_def)
  show ?thesis
  proof
    assume "pg_revoked s i"
    then show "row_revoked_at row \<noteq> None" using assms(2) id by (simp add: pg_revoked_def)
  next
    assume ne: "row_revoked_at row \<noteq> None"
    have "row_revoked_at r \<noteq> None" if "r \<in> set s" "row_delegation_id r = delegation_uuid i" for r
      using pg_wf_unique [OF assms that] ne by simp
    with assms(2) id show "pg_revoked s i" unfolding pg_revoked_def by blast
  qed
qed

lemma pg_insert_keeps: "pg_revoked s i \<Longrightarrow> pg_revoked (snd (pg_insert pg_time uv s g)) i"
  by (force simp: pg_revoked_def pg_insert_def)

lemma pg_revoke_keeps: "pg_revoked s i \<Longrightarrow> pg_revoked (snd (pg_revoke pg_time s j w t u)) i"
  by (auto simp: pg_revoked_def pg_revoke_def Let_def)

lemma pg_revoke_ids: "map row_delegation_id (snd (pg_revoke pg_time s j w t u)) = map row_delegation_id s"
  by (auto simp: pg_revoke_def Let_def)

lemma pg_wf_revoke: "pg_wf s \<Longrightarrow> pg_wf (snd (pg_revoke pg_time s j w t u))"
  by (simp add: pg_wf_def pg_revoke_ids)

lemma pg_revoke_sets:
  assumes "pg_wf s" "row \<in> set s" "row_is i w row"
  shows "pg_revoked (snd (pg_revoke pg_time s i w t u)) i"
proof -
  let ?upd = "\<lambda>row. if row_is i w row \<and> row_revoked_at row = None
    then row\<lparr>row_revoked_at := Some (pg_time t), row_revoked_by := Some (user_uuid u)\<rparr> else row"
  have "?upd row \<in> set (snd (pg_revoke pg_time s i w t u))" using assms(2) by (simp add: pg_revoke_def Let_def)
  moreover have "row_is i w (?upd row)" "row_revoked_at (?upd row) \<noteq> None" using assms(3) by (auto simp: row_is_def)
  ultimately show ?thesis using pg_revoked_row [OF pg_wf_revoke [OF assms(1)]] by blast
qed

interpretation pg_store: delegation_store pg_wf "pg_insert pg_time uv" "pg_load atxt" "pg_revoke pg_time" pg_revoked
  for pg_time uv atxt
proof
  fix s g i w t u j b
  show "pg_wf s \<Longrightarrow> pg_wf (snd (pg_insert pg_time uv s g))"
    by (auto simp: pg_wf_def pg_insert_def)
  show "pg_revoked s i \<Longrightarrow> pg_load atxt s i w = Inr (Some g) \<Longrightarrow> gr_revoked_at g \<noteq> None"
    by (erule pg_load_Some) (auto simp: pg_revoked_def row_is_def decode_grant_Inr)
  show "pg_wf s \<Longrightarrow> pg_load atxt s i w = Inr (Some g) \<Longrightarrow> gr_revoked_at g \<noteq> None \<Longrightarrow> pg_revoked s i"
    by (erule pg_load_Some) (simp add: pg_revoked_row decode_grant_Inr(3))
  show "pg_wf s \<Longrightarrow> pg_load atxt s i w = Inr (Some g) \<Longrightarrow> fst (pg_revoke pg_time s i w t u) = Inr b \<Longrightarrow>
      pg_revoked (snd (pg_revoke pg_time s i w t u)) i"
    by (erule pg_load_Some) (rule pg_revoke_sets)
qed (fact pg_wf_revoke pg_insert_keeps pg_revoke_keeps)+

section \<open>Issue\<close>

lemma sealed_subject:
  assumes "authz_ok C" "ac_sealed_scope C = Some scope"
  shows "ac_subject C = Some (os_subject scope)"
proof -
  from assms obtain R where R: "ac_owner_roles C = Some R" by (cases "ac_owner_roles C") (auto simp: authz_ok_def)
  from assms(2) have "ac_owner_scope C = Sealed scope" by (cases "ac_owner_scope C") (simp_all add: ac_sealed_scope_def)
  with authz_okD(1) [OF assms(1) R] show ?thesis
    by (simp add: roles_agree_def scope_agrees_def roles_equiv_def os_subject_def)
qed

lemma issue_checks_Inr:
  assumes "issue_checks D now now' C w c ceiling = Inr (scope, ex)"
  obtains subject R r where "ac_subject C = Some subject" "ac_sealed_scope C = Some scope" "ac_auth_path C = HostBearer"
    "ac_forwarded_owner C = None" "now' < ex" "\<not> role_manage ceiling"
    "\<exists>a b. ac_expires_at C = Some a \<and> os_expires_at scope = Some b \<and> ex = min a b"
    "\<exists>r. os_role_for_owner scope w = Some r \<and> role_dominates r ceiling"
    "revalidate_epoch D subject (id_auth_epoch (ac_identity C)) = Inr ()"
    "current_roles D subject = Inr R" "role_for R w = Some r" "role_dominates r ceiling"
    "validate_current_command D c = Inr ()" "validate_scopes D (ac_capabilities C) c = Inr ()"
proof -
  from assms obtain subject ex' where hb: "validate_host_bearer now C = Inr (subject, ex')"
    and sc: "ac_sealed_scope C = Some scope" and eq: "ex' = ex"
    and rest: "is_some_and (os_role_for_owner scope w) (\<lambda>r. role_dominates r ceiling)" "now' < ex" "\<not> role_manage ceiling"
      "revalidate_epoch D subject (id_auth_epoch (ac_identity C)) = Inr ()"
    and R: "\<exists>R r. current_roles D subject = Inr R \<and> role_for R w = Some r \<and> role_dominates r ceiling"
    and cmd: "validate_current_command D c = Inr ()" "validate_scopes D (ac_capabilities C) c = Inr ()"
    by (auto simp: issue_checks_def result_simps not_le split: if_splits)
  from hb sc have "ac_subject C = Some subject" "ac_auth_path C = HostBearer" "ac_forwarded_owner C = None"
    "\<exists>a b. ac_expires_at C = Some a \<and> os_expires_at scope = Some b \<and> ex = min a b"
    by (auto simp: validate_host_bearer_def result_simps eq split: if_splits)
  with sc rest R cmd show ?thesis by (elim exE conjE, intro that) (auto simp: is_some_and_iff)
qed

lemma issue_Inr:
  assumes "issue D ins now now' fresh s C w c ceiling = (Inr issued, s')"
  obtains scope where "issue_checks D now now' C w c ceiling = Inr (scope, di_expires_at issued)" "di_id issued = fresh"
    "ins s (grant_issued fresh scope w c ceiling (di_expires_at issued) (id_auth_epoch (ac_identity C)) now') = (Inr (), s')"
proof -
  from assms obtain scope ex where ch: "issue_checks D now now' C w c ceiling = Inr (scope, ex)"
    by (auto simp: issue_def split: sum.splits)
  with assms show ?thesis
    by (intro that [of scope]) (auto simp: issue_def grant_issued_def Let_def result_simps split: prod.splits)
qed

lemma surface_only:
  "validate_scopes D caps c = Inr () \<Longrightarrow> validate_scopes D capability_all c = Inr ()"
  by (auto simp: validate_scopes_def result_simps Let_def caps_admit_def capability_all_def surface_admits_def split: if_splits)

lemma decode_inserted:
  assumes "validate_current_command D c = Inr ()" "role_ok ceiling" "\<not> role_manage ceiling"
    and "pg_insert pg_time uv s (grant_issued fresh scope w c ceiling ex epoch issued_at) = (Inr (), s')"
    and "pg_time issued_at < pg_time ex"
  shows "pg_load atxt s' fresh w = Inr (Some (grant_issued fresh scope w c ceiling (pg_time ex) epoch (pg_time issued_at)))"
proof -
  let ?g = "grant_issued fresh scope w c ceiling ex epoch issued_at"
  obtain row where s': "s' = s @ [row]" and fresh: "delegation_uuid fresh \<notin> set (map row_delegation_id s)"
    and row: "row = \<lparr>row_delegation_id = delegation_uuid fresh, row_subject = user_uuid (os_subject scope),
        row_owner = owner_uuid w, row_tool = tool_str (dc_tool c), row_action = map_option action_str (dc_action c),
        row_read = role_read ceiling, row_write = role_write ceiling,
        row_expires_at = pg_time ex, row_auth_epoch = int (unat epoch),
        row_issued_at = pg_time issued_at, row_revoked_at = None, row_revoked_by = None,
        row_by = wa_by (os_writer scope), row_via = wa_via (os_writer scope)\<rparr>"
    using assms(4) by (simp add: pg_insert_def grant_issued_def split: if_splits)
  have role: "role_new (role_read ceiling) (role_write ceiling) False = Inr ceiling"
    using assms(2,3) by (cases ceiling) (auto simp: role_new_def role_ok_def)
  obtain key where key: "command_from_key key = Some c" "scope_key_ok key" "length (scope_key_display key) \<le> MAX_TOOL_ID_CHARS"
    using validate_current_command_ok [OF assms(1)] .
  have "decode_grant atxt row = Inr (grant_issued fresh scope w c ceiling (pg_time ex) epoch (pg_time issued_at))"
    using assms(3,5) command_key_ok(3) [OF key]
    by (simp add: row decode_grant_def role grant_from_storage_def grant_issued_def)
  moreover have "find (row_is fresh w) s' = Some row"
  proof -
    have "find (row_is fresh w) s = None" using fresh by (force simp: find_None_iff row_is_def)
    then have "find (row_is fresh w) (s @ [row]) = find (row_is fresh w) [row]" by (induction s) (auto split: if_splits)
    then show ?thesis by (simp add: s' row row_is_def)
  qed
  ultimately show ?thesis by (simp add: pg_load_def)
qed

lemma issued_grant_phase:
  assumes "reachable_context C" "role_ok ceiling"
    and "issue D (pg_insert pg_time uv) now now' fresh s C w c ceiling = (Inr issued, s')"
    and "pg_time now' < pg_time (di_expires_at issued)" "t < pg_time (di_expires_at issued)"
  obtains g r key where "role_dominates r ceiling"
    "redeem_phase D (pg_load atxt) t s' (di_id issued) w c = Inr \<lparr>ph_authz = sealed_phase D g w (role_meet r ceiling) (ScopePalette [key]),
      ph_expires_at = pg_time (di_expires_at issued), ph_runtime_binding = ds_runtime_binding D\<rparr>"
proof -
  obtain scope where ch: "issue_checks D now now' C w c ceiling = Inr (scope, di_expires_at issued)" and id: "di_id issued = fresh"
    and ins: "pg_insert pg_time uv s (grant_issued fresh scope w c ceiling (di_expires_at issued)
        (id_auth_epoch (ac_identity C)) now') = (Inr (), s')"
    using issue_Inr [OF assms(3)] .
  obtain subject R r where sub: "ac_subject C = Some subject" "ac_sealed_scope C = Some scope"
    and nm: "\<not> role_manage ceiling" and ep: "revalidate_epoch D subject (id_auth_epoch (ac_identity C)) = Inr ()"
    and R: "current_roles D subject = Inr R" "role_for R w = Some r" "role_dominates r ceiling"
    and c: "validate_current_command D c = Inr ()" "validate_scopes D (ac_capabilities C) c = Inr ()"
    using issue_checks_Inr [OF ch] by metis
  let ?g = "grant_issued fresh scope w c ceiling (pg_time (di_expires_at issued)) (id_auth_epoch (ac_identity C)) (pg_time now')"
  have load: "pg_load atxt s' fresh w = Inr (Some ?g)"
    by (rule decode_inserted [OF c(1) assms(2) nm ins assms(4)])
  have subj: "os_subject scope = subject"
    using sealed_subject [OF authz_ok_reachable [OF assms(1)] sub(2)] sub(1) by simp
  obtain key where "command_from_key key = Some c" "scope_key_ok key" using validate_current_command_ok [OF c(1)] .
  then have "command_scope_key c = Inr key" by (rule command_key_ok(2))
  then have "redeem_phase D (pg_load atxt) t s' fresh w c = Inr \<lparr>ph_authz = sealed_phase D ?g w (role_meet r ceiling) (ScopePalette [key]),
      ph_expires_at = pg_time (di_expires_at issued), ph_runtime_binding = ds_runtime_binding D\<rparr>"
    using load assms(5) c(1) surface_only [OF c(2)] ep R
    by (simp add: redeem_phase_def grant_issued_def subj command_tool_scope_def seal_phase)
  then show ?thesis using that [OF R(3)] by (simp add: id)
qed

section \<open>Properties\<close>

text \<open>
  Issuing needs live authority: a grant is stored only for an unforwarded host bearer whose sealed
  scope and current membership both dominate the ceiling, whose command is registered, within the
  caller's palette and the served surface, and whose deadline is the earlier of bearer and scope expiry,
  still in the future; a ceiling never includes management, and any refusal leaves the store as it was.
\<close>

theorem issue_needs_authority:
  "case issue D (pg_insert pg_time uv) now now' fresh s C w c ceiling of
     (Inl _, s') \<Rightarrow> s' = s
   | (Inr issued, s') \<Rightarrow>
       ac_auth_path C = HostBearer \<and> ac_forwarded_owner C = None \<and> \<not> role_manage ceiling \<and> now' < di_expires_at issued \<and>
       (\<exists>scope a b r R q. ac_sealed_scope C = Some scope \<and> ac_expires_at C = Some a \<and> os_expires_at scope = Some b \<and>
          di_expires_at issued = min a b \<and> os_role_for_owner scope w = Some r \<and> role_dominates r ceiling \<and>
          is_some_and (ac_subject C) (\<lambda>u. current_roles D u = Inr R) \<and> role_for R w = Some q \<and> role_dominates q ceiling) \<and>
       validate_current_command D c = Inr () \<and> validate_scopes D (ac_capabilities C) c = Inr () \<and>
       length s' = Suc (length s) \<and> take (length s) s' = s"
proof (cases "issue D (pg_insert pg_time uv) now now' fresh s C w c ceiling")
  case (Pair res s')
  show ?thesis
  proof (cases res)
    case (Inl e)
    then show ?thesis using Pair
      by (auto simp: issue_def pg_insert_def Let_def split: sum.splits prod.splits if_splits)
  next
    case (Inr issued)
    obtain scope where ch: "issue_checks D now now' C w c ceiling = Inr (scope, di_expires_at issued)"
      and ins: "pg_insert pg_time uv s (grant_issued fresh scope w c ceiling (di_expires_at issued)
        (id_auth_epoch (ac_identity C)) now') = (Inr (), s')"
      using issue_Inr [OF Pair [unfolded Inr]] by metis
    have "length s' = Suc (length s) \<and> take (length s) s' = s" using ins by (auto simp: pg_insert_def split: if_splits)
    moreover obtain subject R q where a: "ac_subject C = Some subject" "ac_sealed_scope C = Some scope"
        "ac_auth_path C = HostBearer" "ac_forwarded_owner C = None" "now' < di_expires_at issued" "\<not> role_manage ceiling"
      and b: "\<exists>a b. ac_expires_at C = Some a \<and> os_expires_at scope = Some b \<and> di_expires_at issued = min a b"
        "\<exists>r. os_role_for_owner scope w = Some r \<and> role_dominates r ceiling"
      and c: "current_roles D subject = Inr R" "role_for R w = Some q" "role_dominates q ceiling"
        "validate_current_command D c = Inr ()" "validate_scopes D (ac_capabilities C) c = Inr ()"
      using issue_checks_Inr [OF ch] by metis
    moreover have "\<exists>scope a b r R q. ac_sealed_scope C = Some scope \<and> ac_expires_at C = Some a \<and> os_expires_at scope = Some b \<and>
        di_expires_at issued = min a b \<and> os_role_for_owner scope w = Some r \<and> role_dominates r ceiling \<and>
        is_some_and (ac_subject C) (\<lambda>u. current_roles D u = Inr R) \<and> role_for R w = Some q \<and> role_dominates q ceiling"
      using b a(2) c(1,2,3) unfolding a(1) is_some_and_simps by blast
    ultimately show ?thesis using Pair Inr by simp
  qed
qed

text \<open>
  C6. A redeemed phase holds no more than its grant and the present allow: the stored grant is
  unrevoked and unexpired, the subject's epoch and membership still carry it, the command is still
  registered and served; the phase acts on the granted owner only, exactly up to the recorded ceiling,
  never manages, holds exactly the command's scope key, expires with the grant and is bound to the
  redeeming runtime.
\<close>

theorem redeem_phase_confined:
  assumes "redeem_phase D (pg_load atxt) now s i w c = Inr ph"
  shows "\<exists>g R r key. pg_load atxt s i w = Inr (Some g) \<and> gr_revoked_at g = None \<and> now < gr_expires_at g \<and>
     ds_current_auth_epoch D (owner_of_user (gr_subject g)) \<le> gr_auth_epoch g \<and>
     current_roles D (gr_subject g) = Inr R \<and> role_for R w = Some r \<and> role_dominates r (gr_role_ceiling g) \<and>
     validate_scopes D capability_all c = Inr () \<and> command_scope_key c = Inr key \<and>
     ac_capabilities (ph_authz ph) = \<lparr>cs_tool_scope = ScopePalette [key], cs_served_surface = ds_served_surface D\<rparr> \<and>
     ac_auth_path (ph_authz ph) = Delegated \<and> ac_expires_at (ph_authz ph) = Some (gr_expires_at g) \<and>
     ph_expires_at ph = gr_expires_at g \<and> ph_runtime_binding ph = ds_runtime_binding D \<and>
     (\<forall>v k. (ac_may_read (ph_authz ph) v k \<longleftrightarrow> v = w \<and> role_may_read (gr_role_ceiling g) k) \<and>
        (ac_may_write (ph_authz ph) v k \<longleftrightarrow> v = w \<and> role_may_write (gr_role_ceiling g) k) \<and>
        \<not> ac_may_manage (ph_authz ph) v)"
proof -
  from assms obtain g R r scope where g: "pg_load atxt s i w = Inr (Some g)" "gr_revoked_at g = None" "now < gr_expires_at g"
    and ep: "revalidate_epoch D (gr_subject g) (gr_auth_epoch g) = Inr ()"
    and R: "current_roles D (gr_subject g) = Inr R" "role_for R w = Some r" "role_dominates r (gr_role_ceiling g)"
    and c: "validate_scopes D capability_all c = Inr ()" "command_tool_scope c = Inr scope"
    and ph: "ph = \<lparr>ph_authz = sealed_phase D g w (role_meet r (gr_role_ceiling g)) scope,
      ph_expires_at = gr_expires_at g, ph_runtime_binding = ds_runtime_binding D\<rparr>"
    by (rule redeem_phase_Inr)
  from c(2) obtain key where key: "command_scope_key c = Inr key" "scope = ScopePalette [key]"
    by (auto simp: command_tool_scope_def result_simps)
  from g(1) have nm: "\<not> role_manage (gr_role_ceiling g)" by (rule pg_load_Some) (simp add: decode_grant_Inr(4))
  have "ac_may_manage (ph_authz ph) v \<Longrightarrow> False" for v
    using nm by (auto simp: ph sealed_phase_def ac_may_manage_def roles_may_manage_def is_some_and_iff split: if_splits)
  moreover have "ds_current_auth_epoch D (owner_of_user (gr_subject g)) \<le> gr_auth_epoch g"
    using ep by (auto simp: revalidate_epoch_def not_less split: if_splits)
  ultimately show ?thesis
    using g R c(1) key
    by (intro exI [of _ g] exI [of _ R] exI [of _ r] exI [of _ key])
      (auto simp: ph dominates_meet [OF R(3)] simp del: role_may_meet)
qed

text \<open>
  C7. Revocation is final. Once the service has answered a revocation, whether fresh or repeated, no
  later sequence of inserts and revocations on the store makes the grant redeemable again: not by any
  service, at any time, for any owner or command.
\<close>

theorem revocation_is_final:
  assumes "distinct (map row_delegation_id s)"
    and "revoke_delegation D (pg_load atxt) (pg_revoke pg_time) now now' s C i w = (Inr out, s1)"
    and "(store_step (pg_insert pg_time uv) (pg_revoke pg_time))\<^sup>*\<^sup>* s1 s2"
  shows "\<not> is_ok (redeem_phase D' (pg_load atxt) t s2 i v c)"
proof -
  from assms(1) have "pg_wf s" by (simp add: pg_wf_def)
  from pg_store.revoke_delegation_sets [OF assms(2) this] have "pg_revoked s1 i" .
  from pg_store.revoked_steps [OF assms(3) this] show ?thesis by (rule pg_store.revoked_not_redeemed)
qed

text \<open>
  C31. An issued grant is redeemable: with the deployment and membership unchanged, redeeming the fresh
  id for its owner and command succeeds at every instant before the stored deadline, and the phase
  grants exactly the requested ceiling on the owner.
\<close>

theorem issued_grant_redeems:
  assumes "reachable_context C" "role_ok ceiling"
    and "issue D (pg_insert pg_time uv) now now' fresh s C w c ceiling = (Inr issued, s')"
    and "pg_time now' < pg_time (di_expires_at issued)" "t < pg_time (di_expires_at issued)"
  shows "\<exists>ph. redeem_phase D (pg_load atxt) t s' (di_id issued) w c = Inr ph \<and>
     ph_expires_at ph = pg_time (di_expires_at issued) \<and>
     (\<forall>v k. (ac_may_read (ph_authz ph) v k \<longleftrightarrow> v = w \<and> role_may_read ceiling k) \<and>
        (ac_may_write (ph_authz ph) v k \<longleftrightarrow> v = w \<and> role_may_write ceiling k))"
  using issued_grant_phase [OF assms, of atxt] by (force simp: dominates_meet simp del: role_may_meet)

section \<open>Witnesses\<close>

definition demo_scan :: mcp_tool_descriptor where
  "demo_scan = \<lparr>d_name = lit ''scan'', d_title = lit ''Scan'', d_action_arg_specs = [], d_argv_action_specs = [],
     d_effect = Some (Additive Idempotent), d_audience = Shared\<rparr>"

definition demo_service :: delegation_service where
  "demo_service = \<lparr>ds_resolve_roles = (\<lambda>u. Inr (with_group_role (empty_for_subject u) (GroupId 2) role_editor)),
     ds_current_auth_epoch = (\<lambda>_. 0), ds_tools = [demo_scan], ds_served_surface = ServeAll, ds_runtime_binding = 8\<rparr>"

definition demo_command :: delegated_command where
  "demo_command = \<lparr>dc_tool = ToolName (lit ''scan''), dc_action = None\<rparr>"

definition demo_bearer :: authz_context where
  "demo_bearer = (with_expires_at demo_context (Some 100))\<lparr>ac_owner_scope := Sealed (os_with_goal_principal
     (from_verified_roles (with_group_role (empty_for_subject (UserId 1)) (GroupId 2) role_editor) (Some 100)
        \<lparr>wa_by = 1, wa_via = None\<rparr>) (GoalPrincipalScope (UserId 1)))\<rparr>"

lemma demo_bearer_reachable: "reachable_context demo_bearer"
proof -
  have "seal_verified_scope (with_expires_at demo_context (Some 100)) = Inr demo_bearer"
    by (simp add: seal_verified_scope_def demo_bearer_def with_expires_at_def demo_context_def server_resolved_with_writer_def
        ac_accessors Let_def from_verified_roles_def os_subject_def empty_for_subject_def)
  then have "builder_step (with_expires_at demo_context (Some 100)) demo_bearer" by (rule step_seal)
  moreover have "builder_step demo_context (with_expires_at demo_context (Some 100))" by (rule step_expires)
  ultimately show ?thesis using demo_context_reachable by (blast intro: reachable_context.intros)
qed

lemma demo_command_current: "validate_current_command demo_service demo_command = Inr ()"
  by code_simp

lemma demo_command_served: "validate_scopes demo_service capability_all demo_command = Inr ()"
  by code_simp

definition demo_member :: owner_roles where
  "demo_member = with_group_role (empty_for_subject (UserId 1)) (GroupId 2) role_editor"

lemma demo_member_simps [simp]: "role_for demo_member (OwnerId 2) = Some role_editor" "or_subject demo_member = UserId 1"
  by (simp_all add: demo_member_def owner_of_group_def owner_of_user_def empty_for_subject_def)

lemma demo_current: "current_roles demo_service (UserId 1) = Inr demo_member" "ds_current_auth_epoch demo_service w = 0"
  by (simp_all add: current_roles_def demo_service_def demo_member_def [symmetric])

lemma demo_bearer_simps:
  "ac_auth_path demo_bearer = HostBearer" "ac_forwarded_owner demo_bearer = None" "ac_subject demo_bearer = Some (UserId 1)"
  "ac_expires_at demo_bearer = Some 100" "ac_capabilities demo_bearer = capability_all"
  "id_auth_epoch (ac_identity demo_bearer) = 0"
  by (simp_all add: demo_bearer_def with_expires_at_def demo_context_def server_resolved_with_writer_def ac_accessors
      empty_for_subject_def)

lemma demo_scope:
  obtains scope where "ac_sealed_scope demo_bearer = Some scope" "os_expires_at scope = Some 100"
    "os_role_for_owner scope (OwnerId 2) = Some role_editor" "os_subject scope = UserId 1"
  using that [of "os_with_goal_principal (from_verified_roles demo_member (Some 100) \<lparr>wa_by = 1, wa_via = None\<rparr>)
      (GoalPrincipalScope (UserId 1))"]
  by (simp add: demo_bearer_def ac_sealed_scope_def os_with_goal_principal_def from_verified_roles_def
      os_role_for_owner_def os_subject_def demo_member_def [symmetric])

lemma demo_issue_ceiling:
  assumes "role_dominates role_editor ceiling" "\<not> role_manage ceiling"
  obtains scope where
    "issue demo_service (pg_insert id uv) 0 1 (DelegationId 5) [] demo_bearer (OwnerId 2) demo_command ceiling =
       (Inr \<lparr>di_id = DelegationId 5, di_expires_at = 100\<rparr>,
        snd (pg_insert id uv [] (grant_issued (DelegationId 5) scope (OwnerId 2) demo_command ceiling 100 0 1)))"
    "os_subject scope = UserId 1"
proof -
  obtain scope where sc: "ac_sealed_scope demo_bearer = Some scope" "os_expires_at scope = Some 100"
    "os_role_for_owner scope (OwnerId 2) = Some role_editor" "os_subject scope = UserId 1"
    by (rule demo_scope)
  have "issue_checks demo_service 0 1 demo_bearer (OwnerId 2) demo_command ceiling = Inr (scope, 100)"
    using sc demo_command_current demo_command_served assms
    by (simp add: issue_checks_def validate_host_bearer_def demo_bearer_simps revalidate_epoch_def current_roles_def
        demo_service_def demo_member_def [symmetric])
  then show ?thesis
    by (intro that [OF _ sc(4)]) (simp add: issue_def demo_bearer_simps pg_insert_def grant_issued_def)
qed

lemma demo_ceilings: "role_dominates role_editor role_viewer" "role_dominates role_editor role_editor"
  "\<not> role_manage role_viewer" "\<not> role_manage role_editor"
  by code_simp+

lemmas demo_issue = demo_issue_ceiling [OF demo_ceilings(1,3)]

lemma demo_editor_phase:
  obtains s g r key where "role_dominates r role_editor"
    "redeem_phase demo_service (pg_load (\<lambda>_. [])) 50 s (DelegationId 5) (OwnerId 2) demo_command =
      Inr \<lparr>ph_authz = sealed_phase demo_service g (OwnerId 2) (role_meet r role_editor) (ScopePalette [key]), ph_expires_at = 100,
        ph_runtime_binding = ds_runtime_binding demo_service\<rparr>"
proof -
  obtain s where s: "issue demo_service (pg_insert id []) 0 1 (DelegationId 5) [] demo_bearer (OwnerId 2) demo_command role_editor =
      (Inr \<lparr>di_id = DelegationId 5, di_expires_at = 100\<rparr>, s)"
    using demo_issue_ceiling [OF demo_ceilings(2,4)] by metis
  show ?thesis
    by (rule issued_grant_phase [OF demo_bearer_reachable role_ok_consts(4) s, of 50 "\<lambda>_. []"]) (auto intro: that)
qed

lemma demo_redeem:
  obtains s ph where "redeem_phase demo_service (pg_load (\<lambda>_. [])) 50 s (DelegationId 5) (OwnerId 2) demo_command = Inr ph"
proof -
  obtain s where s: "issue demo_service (pg_insert id []) 0 1 (DelegationId 5) [] demo_bearer (OwnerId 2) demo_command role_viewer =
      (Inr \<lparr>di_id = DelegationId 5, di_expires_at = 100\<rparr>, s)"
    using demo_issue by metis
  have "\<exists>ph. redeem_phase demo_service (pg_load (\<lambda>_. [])) 50 s (DelegationId 5) (OwnerId 2) demo_command = Inr ph"
    by (rule issued_grant_phase [OF demo_bearer_reachable role_ok_consts(2) s, of 50 "\<lambda>_. []"]) auto
  with that show ?thesis by blast
qed

theorem issued_grant_redeems_witness:
  "\<exists>s' ph. redeem_phase demo_service (pg_load (\<lambda>_. [])) 50 s' (DelegationId 5) (OwnerId 2) demo_command = Inr ph \<and>
     ph_expires_at ph = 100"
proof -
  obtain s where "issue demo_service (pg_insert id []) 0 1 (DelegationId 5) [] demo_bearer (OwnerId 2) demo_command role_viewer =
      (Inr \<lparr>di_id = DelegationId 5, di_expires_at = 100\<rparr>, s)"
    using demo_issue by metis
  from issued_grant_redeems [OF demo_bearer_reachable role_ok_consts(2) this, of 50 "\<lambda>_. []"] show ?thesis
    by auto
qed

theorem redeem_phase_confined_witness:
  "\<exists>s ph. redeem_phase demo_service (pg_load (\<lambda>_. [])) 50 s (DelegationId 5) (OwnerId 2) demo_command = Inr ph \<and>
     \<not> ac_may_manage (ph_authz ph) (OwnerId 2) \<and> \<not> ac_may_read (ph_authz ph) (OwnerId 1) KFact"
proof -
  obtain s ph where ph: "redeem_phase demo_service (pg_load (\<lambda>_. [])) 50 s (DelegationId 5) (OwnerId 2) demo_command = Inr ph"
    using demo_redeem by metis
  have "\<not> ac_may_manage (ph_authz ph) (OwnerId 2) \<and> \<not> ac_may_read (ph_authz ph) (OwnerId 1) KFact"
    using redeem_phase_confined [OF ph] by (elim exE conjE) simp
  with ph show ?thesis by blast
qed

theorem revocation_is_final_witness:
  "\<exists>s1. fst (revoke_delegation demo_service (pg_load (\<lambda>_. [])) (pg_revoke id) 2 3 s1 demo_bearer (DelegationId 5) (OwnerId 2)) =
       Inr RevokedNow \<and>
     \<not> is_ok (redeem_phase demo_service (pg_load (\<lambda>_. [])) 50
       (snd (revoke_delegation demo_service (pg_load (\<lambda>_. [])) (pg_revoke id) 2 3 s1 demo_bearer (DelegationId 5) (OwnerId 2)))
       (DelegationId 5) (OwnerId 2) demo_command)"
proof -
  obtain scope where sub: "os_subject scope = UserId 1" using demo_scope by metis
  let ?g = "grant_issued (DelegationId 5) scope (OwnerId 2) demo_command role_viewer 100 0 1"
  obtain s where s: "pg_insert id [] [] ?g = (Inr (), s)" by (simp add: pg_insert_def grant_issued_def)
  have load: "pg_load (\<lambda>_. []) s (DelegationId 5) (OwnerId 2) = Inr (Some ?g)"
    using decode_inserted [OF demo_command_current role_ok_consts(2) _ s, of "\<lambda>_. []"] by (simp add: role_viewer_def)
  have single: "\<exists>row. s = [row] \<and> row_is (DelegationId 5) (OwnerId 2) row \<and> row_revoked_at row = None"
    using s by (auto simp: pg_insert_def grant_issued_def row_is_def)
  have hb: "validate_host_bearer 2 demo_bearer = Inr (UserId 1, 100)"
    by (rule demo_scope) (simp add: validate_host_bearer_def demo_bearer_simps)
  have adm: "revoke_admitted demo_service (pg_load (\<lambda>_. [])) 2 s demo_bearer (DelegationId 5) (OwnerId 2) = Inr (UserId 1, ?g)"
    using load hb sub
    by (simp add: revoke_admitted_def revalidate_epoch_def demo_bearer_simps demo_current grant_issued_def)
  obtain s1 where rv: "revoke_delegation demo_service (pg_load (\<lambda>_. [])) (pg_revoke id) 2 3 s demo_bearer (DelegationId 5) (OwnerId 2) =
      (Inr RevokedNow, s1)"
    using single by (auto simp: revoke_delegation_def adm grant_issued_def pg_revoke_def Let_def)
  have "distinct (map row_delegation_id s)" using single by auto
  from revocation_is_final [OF this rv, of "[]" s1 demo_service 50 "OwnerId 2" demo_command] rv show ?thesis
    by (intro exI [of _ s]) simp
qed

end
