(* ===== verification/Quiesce.thy ===== *)
theory Quiesce
  imports Prelude
begin

text \<open>
  The pause gate of a background worker (\<open>crates/core/src/quiesce.rs\<close>). The gate's shared state
  is the value of a watch channel; each closure the code passes to the channel is one function on it.
  The worker's task and the host's calls interleave: \<open>gate_step\<close> is one atomic action of either
  side, between two accesses to the channel. Of the channel, the model keeps its documented contract:
  a receiver has an unseen change after a modification until it looks, and waiting for a change
  resolves exactly when there is an unseen one.

  The worker's phases follow its contract with the gate: it enters a checkpoint before every claim
  and holds no claim there.
\<close>

section \<open>Gate state\<close>

datatype feature_status = Running | Quiescing | Quiescent | Stopped

datatype feature_control_error = FcStopped | FcResumed

datatype checkpoint = Proceed | Cancelled

record gate_state =
  gt_status :: feature_status
  gt_cycle :: u64

definition gate_new :: gate_state where
  "gate_new = \<lparr>gt_status = Running, gt_cycle = 0\<rparr>"

text \<open>The closing closure of \<open>quiesce\<close>: the state, whether it changed, and the cycle the call waits on.\<close>

definition quiesce_close :: "gate_state \<Rightarrow> gate_state \<times> bool \<times> u64" where
  "quiesce_close G =
     (let closes = (gt_status G = Running);
          G' = (if closes then G\<lparr>gt_status := Quiescing, gt_cycle := gt_cycle G + 1\<rparr> else G)
      in (G', closes, gt_cycle G'))"

text \<open>One round of the waiting loop of \<open>quiesce\<close>: None is another wait for a change.\<close>

definition quiesce_poll :: "u64 \<Rightarrow> gate_state \<Rightarrow> (feature_control_error, unit) result option" where
  "quiesce_poll cycle G =
     (if gt_cycle G \<noteq> cycle then Some (Inl FcResumed)
      else (case gt_status G of
          Quiescent \<Rightarrow> Some (Inr ())
        | Stopped \<Rightarrow> Some (Inl FcStopped)
        | Running \<Rightarrow> Some (Inl FcResumed)
        | Quiescing \<Rightarrow> None))"

definition gate_resume :: "gate_state \<Rightarrow> (feature_control_error, unit) result \<times> gate_state \<times> bool" where
  "gate_resume G =
     (case gt_status G of
        Stopped \<Rightarrow> (Inl FcStopped, G, False)
      | Running \<Rightarrow> (Inr (), G, False)
      | _ \<Rightarrow> (Inr (), G\<lparr>gt_status := Running\<rparr>, True))"

definition is_closing :: "gate_state \<Rightarrow> bool" where
  "is_closing G \<longleftrightarrow> gt_status G \<noteq> Running"

text \<open>The acknowledging closure of \<open>checkpoint\<close>, and the drop of the worker half.\<close>

definition gate_ack :: "gate_state \<Rightarrow> gate_state \<times> bool" where
  "gate_ack G =
     (let parks = (gt_status G = Quiescing) in (if parks then G\<lparr>gt_status := Quiescent\<rparr> else G, parks))"

definition gate_drop :: "gate_state \<Rightarrow> gate_state" where
  "gate_drop G = G\<lparr>gt_status := Stopped\<rparr>"

section \<open>The interleaved system\<close>

text \<open>
  \<open>WHead\<close> is the head of the checkpoint loop, \<open>WAck\<close> has read a requested pause, \<open>WWaiting\<close> waits
  for a change or the cancellation, \<open>WReturned\<close> has the checkpoint's answer; outside a checkpoint the
  worker is idle or holds a claim.
\<close>

datatype worker_phase = WIdle | WHolding | WHead | WAck | WWaiting | WReturned checkpoint | WEnded

record gate_sys =
  sy_gate :: gate_state
  sy_phase :: worker_phase
  sy_unseen :: bool

datatype gate_event =
  EvEnter | EvLook | EvAck | EvWake | EvCancel | EvClaim | EvSkip | EvSettle | EvDrop | EvClose | EvResume

definition gate_init :: gate_sys where
  "gate_init = \<lparr>sy_gate = gate_new, sy_phase = WIdle, sy_unseen = False\<rparr>"

definition notify :: "bool \<Rightarrow> gate_sys \<Rightarrow> gate_sys" where
  "notify modified S = (if modified then S\<lparr>sy_unseen := True\<rparr> else S)"

fun gate_step :: "gate_event \<Rightarrow> gate_sys \<Rightarrow> gate_sys option" where
  "gate_step EvEnter S = (if sy_phase S = WIdle then Some (S\<lparr>sy_phase := WHead\<rparr>) else None)"
| "gate_step EvLook S =
     (if sy_phase S \<noteq> WHead then None
      else Some (S\<lparr>sy_unseen := False, sy_phase :=
        (case gt_status (sy_gate S) of
           Running \<Rightarrow> WReturned Proceed | Quiescing \<Rightarrow> WAck | Quiescent \<Rightarrow> WWaiting | Stopped \<Rightarrow> WWaiting)\<rparr>))"
| "gate_step EvAck S =
     (if sy_phase S \<noteq> WAck then None
      else let (G, parks) = gate_ack (sy_gate S) in Some (notify parks (S\<lparr>sy_gate := G, sy_phase := WWaiting\<rparr>)))"
| "gate_step EvWake S =
     (if sy_phase S = WWaiting \<and> sy_unseen S then Some (S\<lparr>sy_unseen := False, sy_phase := WHead\<rparr>) else None)"
| "gate_step EvCancel S =
     (if sy_phase S = WHead \<or> sy_phase S = WWaiting then Some (S\<lparr>sy_phase := WReturned Cancelled\<rparr>) else None)"
| "gate_step EvClaim S = (if sy_phase S = WReturned Proceed then Some (S\<lparr>sy_phase := WHolding\<rparr>) else None)"
| "gate_step EvSkip S = (if sy_phase S = WReturned Proceed then Some (S\<lparr>sy_phase := WIdle\<rparr>) else None)"
| "gate_step EvSettle S = (if sy_phase S = WHolding then Some (S\<lparr>sy_phase := WIdle\<rparr>) else None)"
| "gate_step EvDrop S =
     (if sy_phase S = WEnded then None
      else Some (notify True (S\<lparr>sy_gate := gate_drop (sy_gate S), sy_phase := WEnded\<rparr>)))"
| "gate_step EvClose S = (let (G, modified, _) = quiesce_close (sy_gate S) in Some (notify modified (S\<lparr>sy_gate := G\<rparr>)))"
| "gate_step EvResume S = (let (_, G, modified) = gate_resume (sy_gate S) in Some (notify modified (S\<lparr>sy_gate := G\<rparr>)))"

fun gate_run :: "gate_event list \<Rightarrow> gate_sys \<Rightarrow> gate_sys option" where
  "gate_run [] S = Some S"
| "gate_run (ev # evs) S = Option.bind (gate_step ev S) (gate_run evs)"

section \<open>Invariant\<close>

fun in_checkpoint :: "worker_phase \<Rightarrow> bool" where
  "in_checkpoint WHead = True"
| "in_checkpoint WAck = True"
| "in_checkpoint WWaiting = True"
| "in_checkpoint _ = False"

definition gate_ok :: "gate_sys \<Rightarrow> bool" where
  "gate_ok S \<longleftrightarrow>
     (gt_status (sy_gate S) = Stopped \<longleftrightarrow> sy_phase S = WEnded) \<and>
     (gt_status (sy_gate S) = Quiescent \<longrightarrow> sy_phase S \<in> {WHead, WWaiting, WReturned Cancelled}) \<and>
     (sy_phase S = WAck \<and> \<not> sy_unseen S \<longrightarrow> gt_status (sy_gate S) = Quiescing) \<and>
     (sy_phase S = WWaiting \<and> \<not> sy_unseen S \<longrightarrow> gt_status (sy_gate S) = Quiescent)"

lemmas gate_defs = quiesce_close_def gate_resume_def gate_ack_def gate_drop_def notify_def

lemma gate_ok_init: "gate_ok gate_init"
  by (simp add: gate_ok_def gate_init_def gate_new_def)

lemma gate_ok_step: "gate_step ev S = Some S' \<Longrightarrow> gate_ok S \<Longrightarrow> gate_ok S'"
  by (cases ev; cases "gt_status (sy_gate S)"; cases "sy_phase S")
    (auto simp: gate_ok_def gate_defs Let_def split: if_splits)

lemma gate_ok_run: "gate_run evs S = Some S' \<Longrightarrow> gate_ok S \<Longrightarrow> gate_ok S'"
  by (induction evs arbitrary: S) (auto simp: bind_eq_Some_conv intro: gate_ok_step)

section \<open>A pause holds until it is resumed\<close>

definition held :: "gate_sys \<Rightarrow> bool" where
  "held S \<longleftrightarrow> gate_ok S \<and> gt_status (sy_gate S) \<in> {Quiescent, Stopped}"

lemma held_step:
  assumes "gate_step ev S = Some S'" "held S" "ev \<noteq> EvResume"
  shows "held S'" "ev \<noteq> EvClaim" "gt_cycle (sy_gate S') = gt_cycle (sy_gate S)"
proof -
  have "gate_ok S'" using gate_ok_step [OF assms(1)] assms(2) by (simp add: held_def)
  moreover have "gt_status (sy_gate S') \<in> {Quiescent, Stopped}"
    using assms by (cases ev) (auto simp: held_def gate_defs Let_def split: if_splits)
  ultimately show "held S'" by (simp add: held_def)
  show "ev \<noteq> EvClaim" using assms by (auto simp: held_def gate_ok_def split: if_splits)
  show "gt_cycle (sy_gate S') = gt_cycle (sy_gate S)"
    using assms by (cases ev) (auto simp: held_def gate_defs Let_def split: if_splits)
qed

lemma held_run:
  "gate_run evs S = Some S' \<Longrightarrow> held S \<Longrightarrow> EvResume \<notin> set evs \<Longrightarrow> held S' \<and> EvClaim \<notin> set evs"
proof (induction evs arbitrary: S)
  case (Cons ev evs)
  then obtain S1 where "gate_step ev S = Some S1" "gate_run evs S1 = Some S'" by (auto simp: bind_eq_Some_conv)
  with Cons.prems(2,3) Cons.IH [of S1] held_step [of ev S S1] show ?case by auto
qed simp

text \<open>Closings: how far the cycle advances along a run.\<close>

lemma of_nat_eq_0_iff_u64: "n < 2 ^ 64 \<Longrightarrow> of_nat n = (0 :: u64) \<longleftrightarrow> n = 0"
  by (auto simp: word_of_nat_eq_0_iff dest: dvd_imp_le)

fun closings :: "gate_event list \<Rightarrow> gate_sys \<Rightarrow> nat" where
  "closings [] S = 0"
| "closings (ev # evs) S =
     (if ev = EvClose \<and> gt_status (sy_gate S) = Running then 1 else 0) +
     (case gate_step ev S of None \<Rightarrow> 0 | Some S' \<Rightarrow> closings evs S')"

lemma closings_le: "closings evs S \<le> length evs"
  by (induction evs arbitrary: S) (auto split: option.split simp: le_SucI)

lemma cycle_run:
  "gate_run evs S = Some S' \<Longrightarrow> gt_cycle (sy_gate S') = gt_cycle (sy_gate S) + of_nat (closings evs S)"
proof (induction evs arbitrary: S)
  case (Cons ev evs)
  then obtain S1 where s1: "gate_step ev S = Some S1" "gate_run evs S1 = Some S'" by (auto simp: bind_eq_Some_conv)
  have "gt_cycle (sy_gate S1) = gt_cycle (sy_gate S) + (if ev = EvClose \<and> gt_status (sy_gate S) = Running then 1 else 0)"
    using s1(1) by (cases ev; cases "gt_status (sy_gate S)") (auto simp: gate_defs Let_def split: if_splits)
  with Cons.IH [OF s1(2)] s1(1) show ?case by simp
qed simp

lemma reopened_run:
  assumes "gate_run evs S = Some S'" "closings evs S = 0" "gt_status (sy_gate S) \<in> {Running, Stopped}"
  shows "gt_status (sy_gate S') \<in> {Running, Stopped}"
  using assms
proof (induction evs arbitrary: S)
  case (Cons ev evs)
  then obtain S1 where s1: "gate_step ev S = Some S1" "gate_run evs S1 = Some S'" by (auto simp: bind_eq_Some_conv)
  have "gt_status (sy_gate S1) \<in> {Running, Stopped}"
    using s1(1) Cons.prems(2,3) by (cases ev) (auto simp: gate_defs Let_def split: if_splits)
  with Cons.IH [OF s1(2)] Cons.prems(2) s1(1) show ?case by (auto split: if_splits)
qed simp

lemma no_resume_run:
  assumes "gate_run evs S = Some S'" "closings evs S = 0" "gt_status (sy_gate S') = Quiescent"
  shows "EvResume \<notin> set evs"
  using assms
proof (induction evs arbitrary: S)
  case (Cons ev evs)
  then obtain S1 where s1: "gate_step ev S = Some S1" "gate_run evs S1 = Some S'" by (auto simp: bind_eq_Some_conv)
  have c: "closings evs S1 = 0" using Cons.prems(2) s1(1) by (auto split: if_splits)
  have "ev \<noteq> EvResume"
  proof
    assume "ev = EvResume"
    then have "gt_status (sy_gate S1) \<in> {Running, Stopped}"
      using s1(1) by (auto simp: gate_defs Let_def split: feature_status.splits)
    from reopened_run [OF s1(2) c this] Cons.prems(3) show False by simp
  qed
  with Cons.IH [OF s1(2) c Cons.prems(3)] show ?case by simp
qed simp

section \<open>Worker progress\<close>

text \<open>The step the worker takes when only it is scheduled and it is not cancelled.\<close>

definition worker_event :: "gate_sys \<Rightarrow> gate_event option" where
  "worker_event S =
     (case sy_phase S of
        WHead \<Rightarrow> Some EvLook
      | WAck \<Rightarrow> Some EvAck
      | WWaiting \<Rightarrow> if sy_unseen S then Some EvWake else None
      | _ \<Rightarrow> None)"

function checkpoint_loop :: "gate_sys \<Rightarrow> gate_sys" where
  "checkpoint_loop S =
     (case worker_event S of
        None \<Rightarrow> S
      | Some ev \<Rightarrow> (case gate_step ev S of None \<Rightarrow> S | Some S' \<Rightarrow> checkpoint_loop S'))"
  by pat_completeness auto

definition loop_measure :: "gate_sys \<Rightarrow> nat" where
  "loop_measure S =
     (case sy_phase S of
        WHead \<Rightarrow> if gt_status (sy_gate S) = Quiescing then 5 else 2
      | WAck \<Rightarrow> 4
      | WWaiting \<Rightarrow> if \<not> sy_unseen S then 0 else if gt_status (sy_gate S) = Quiescing then 6 else 3
      | _ \<Rightarrow> 0)"

lemma loop_measure_step:
  "worker_event S = Some ev \<Longrightarrow> gate_step ev S = Some S' \<Longrightarrow> loop_measure S' < loop_measure S"
  by (cases "sy_phase S"; cases "gt_status (sy_gate S)")
    (auto simp: worker_event_def loop_measure_def gate_defs Let_def split: if_splits)

termination checkpoint_loop
  by (relation "measure loop_measure") (auto dest: loop_measure_step)

declare checkpoint_loop.simps [simp del]

lemma worker_event_enabled: "worker_event S = Some ev \<Longrightarrow> \<exists>S'. gate_step ev S = Some S'"
  by (auto simp: worker_event_def Let_def split: worker_phase.splits if_splits prod.splits)

lemma checkpoint_loop_ok: "gate_ok S \<Longrightarrow> gate_ok (checkpoint_loop S)"
  by (induction S rule: checkpoint_loop.induct)
    (subst checkpoint_loop.simps, auto split: option.splits intro: gate_ok_step)

lemma checkpoint_loop_stops: "worker_event (checkpoint_loop S) = None"
  by (induction S rule: checkpoint_loop.induct)
    (subst checkpoint_loop.simps, auto split: option.splits dest: worker_event_enabled)

lemma loop_event_keeps:
  assumes "worker_event S = Some ev" "gate_step ev S = Some S'" "gate_ok S" "in_checkpoint (sy_phase S)"
  shows "gt_cycle (sy_gate S') = gt_cycle (sy_gate S)"
    and "gt_status (sy_gate S) = Running \<Longrightarrow> gt_status (sy_gate S') = Running \<and>
      (in_checkpoint (sy_phase S') \<or> sy_phase S' = WReturned Proceed)"
    and "gt_status (sy_gate S) \<in> {Quiescing, Quiescent} \<Longrightarrow> gt_status (sy_gate S') \<in> {Quiescing, Quiescent} \<and> in_checkpoint (sy_phase S')"
  using assms by (cases "sy_phase S"; cases "gt_status (sy_gate S)";
      auto simp: worker_event_def gate_defs Let_def split: if_splits)+

lemma checkpoint_loop_running:
  assumes "gate_ok S" "in_checkpoint (sy_phase S)" "gt_status (sy_gate S) = Running"
  shows "sy_phase (checkpoint_loop S) = WReturned Proceed"
  using assms
proof (induction S rule: checkpoint_loop.induct)
  case (1 S)
  show ?case
  proof (cases "worker_event S")
    case None
    with "1.prems" show ?thesis by (cases "sy_phase S") (auto simp: worker_event_def gate_ok_def split: if_splits)
  next
    case (Some ev)
    with worker_event_enabled obtain S' where S': "gate_step ev S = Some S'" by blast
    note keeps = loop_event_keeps(2) [OF Some S' "1.prems"]
    have eq: "checkpoint_loop S = checkpoint_loop S'" by (simp add: checkpoint_loop.simps [of S] Some S')
    show ?thesis
    proof (cases "in_checkpoint (sy_phase S')")
      case True
      with "1.IH" [OF Some S' gate_ok_step [OF S' "1.prems"(1)]] keeps eq show ?thesis by simp
    next
      case False
      with keeps have "worker_event S' = None" by (simp add: worker_event_def)
      with False keeps eq show ?thesis by (simp add: checkpoint_loop.simps [of S'])
    qed
  qed
qed

lemma checkpoint_loop_closed:
  assumes "gate_ok S" "in_checkpoint (sy_phase S)" "gt_status (sy_gate S) \<in> {Quiescing, Quiescent}"
  shows "gt_status (sy_gate (checkpoint_loop S)) = Quiescent \<and> gt_cycle (sy_gate (checkpoint_loop S)) = gt_cycle (sy_gate S) \<and>
    sy_phase (checkpoint_loop S) = WWaiting \<and> \<not> sy_unseen (checkpoint_loop S)"
  using assms
proof (induction S rule: checkpoint_loop.induct)
  case (1 S)
  show ?case
  proof (cases "worker_event S")
    case None
    with "1.prems" show ?thesis
      by (cases "sy_phase S") (auto simp: checkpoint_loop.simps [of S] worker_event_def gate_ok_def split: if_splits)
  next
    case (Some ev)
    with worker_event_enabled obtain S' where S': "gate_step ev S = Some S'" by blast
    note keeps = loop_event_keeps [OF Some S' "1.prems"(1,2)]
    have "checkpoint_loop S = checkpoint_loop S'" by (simp add: checkpoint_loop.simps [of S] Some S')
    with "1.IH" [OF Some S' gate_ok_step [OF S' "1.prems"(1)]] keeps(1) keeps(3) [OF "1.prems"(3)] show ?thesis by simp
  qed
qed

section \<open>Properties\<close>

text \<open>
  C9. A pause that is reported holds. When a \<open>quiesce\<close> call returns success, the worker is inside its
  checkpoint (or leaving it cancelled) and holds no claim; along every later interleaving in which the
  host does not resume, no claim starts.
\<close>

theorem quiesce_holds:
  assumes "gate_run evs gate_init = Some S" "quiesce_poll c (sy_gate S) = Some (Inr ())"
    and "gate_run evs' S = Some S'" "EvResume \<notin> set evs'"
  shows "sy_phase S \<in> {WHead, WWaiting, WReturned Cancelled} \<and> EvClaim \<notin> set evs' \<and> sy_phase S' \<noteq> WHolding"
proof -
  have ok: "gate_ok S" using gate_ok_run [OF assms(1) gate_ok_init] .
  from assms(2) have q: "gt_status (sy_gate S) = Quiescent"
    by (auto simp: quiesce_poll_def split: if_splits feature_status.splits)
  with ok have "held S" by (simp add: held_def)
  from held_run [OF assms(3) this assms(4)] ok q show ?thesis by (auto simp: held_def gate_ok_def)
qed

text \<open>
  A \<open>quiesce\<close> call answers for its own pause only. From the state its close left, if it returns
  success within fewer than 2 to the 64 steps, the gate was not resumed in between: a call overtaken by
  a resume never takes a later pause for its own.
\<close>

theorem quiesce_own_cycle:
  assumes "quiesce_close (sy_gate S) = (G, m, c)" "gate_run evs (notify m (S\<lparr>sy_gate := G\<rparr>)) = Some S'"
    and "quiesce_poll c (sy_gate S') = Some (Inr ())" "length evs < 2 ^ 64"
  shows "EvResume \<notin> set evs"
proof -
  let ?S = "notify m (S\<lparr>sy_gate := G\<rparr>)"
  have g: "sy_gate ?S = G" and c: "gt_cycle G = c" using assms(1) by (auto simp: notify_def quiesce_close_def Let_def)
  from assms(3) have q: "gt_status (sy_gate S') = Quiescent" "gt_cycle (sy_gate S') = c"
    by (auto simp: quiesce_poll_def split: if_splits feature_status.splits)
  from cycle_run [OF assms(2)] q(2) have "of_nat (closings evs ?S) = (0 :: u64)" by (simp add: g c)
  moreover have "closings evs ?S < 2 ^ 64" using closings_le [of evs ?S] assms(4) by simp
  ultimately have "closings evs ?S = 0" by (simp add: of_nat_eq_0_iff_u64)
  from no_resume_run [OF assms(2) this q(1)] show ?thesis .
qed

text \<open>
  C24. The checkpoint loop terminates and no wake-up is lost: run alone from any reachable state inside a
  checkpoint, the worker returns to claim when the gate is open, and when a pause was requested it
  acknowledges it and parks, which makes the pending \<open>quiesce\<close> succeed.
\<close>

theorem checkpoint_progress:
  assumes "gate_run evs gate_init = Some S" "in_checkpoint (sy_phase S)"
  shows "(gt_status (sy_gate S) = Running \<longrightarrow> sy_phase (checkpoint_loop S) = WReturned Proceed) \<and>
    (gt_status (sy_gate S) \<noteq> Running \<longrightarrow> sy_phase (checkpoint_loop S) = WWaiting \<and>
       quiesce_poll (gt_cycle (sy_gate S)) (sy_gate (checkpoint_loop S)) = Some (Inr ()))"
proof -
  have ok: "gate_ok S" using gate_ok_run [OF assms(1) gate_ok_init] .
  then have "gt_status (sy_gate S) \<noteq> Stopped" using assms(2) by (auto simp: gate_ok_def)
  then have "gt_status (sy_gate S) \<noteq> Running \<Longrightarrow> gt_status (sy_gate S) \<in> {Quiescing, Quiescent}"
    by (cases "gt_status (sy_gate S)") simp_all
  with checkpoint_loop_running [OF ok assms(2)] checkpoint_loop_closed [OF ok assms(2)] show ?thesis
    by (simp add: quiesce_poll_def)
qed

section \<open>Witnesses\<close>

definition demo_paused :: gate_sys where
  "demo_paused = \<lparr>sy_gate = \<lparr>gt_status = Quiescent, gt_cycle = 1\<rparr>, sy_phase = WWaiting, sy_unseen = True\<rparr>"

lemma demo_pause_run:
  "gate_run [EvEnter, EvLook, EvClaim, EvClose, EvSettle, EvEnter, EvLook, EvAck] gate_init = Some demo_paused"
  by (simp add: gate_init_def gate_new_def gate_defs demo_paused_def)

theorem quiesce_holds_witness:
  "gate_run [EvWake, EvLook, EvCancel] demo_paused \<noteq> None \<and> EvClaim \<notin> set [EvWake, EvLook, EvCancel]"
proof -
  obtain S' where S': "gate_run [EvWake, EvLook, EvCancel] demo_paused = Some S'" by (simp add: demo_paused_def)
  have "quiesce_poll 1 (sy_gate demo_paused) = Some (Inr ())" by (simp add: quiesce_poll_def demo_paused_def)
  from quiesce_holds [OF demo_pause_run this S'] S' show ?thesis by simp
qed

theorem quiesce_own_cycle_witness:
  "\<exists>S'. gate_run [EvEnter, EvLook, EvAck] (notify True (gate_init\<lparr>sy_gate := \<lparr>gt_status = Quiescing, gt_cycle = 1\<rparr>\<rparr>)) = Some S' \<and>
     quiesce_poll 1 (sy_gate S') = Some (Inr ()) \<and> EvResume \<notin> set [EvEnter, EvLook, EvAck]"
proof -
  let ?S = "notify True (gate_init\<lparr>sy_gate := \<lparr>gt_status = Quiescing, gt_cycle = 1\<rparr>\<rparr>)"
  have c: "quiesce_close (sy_gate gate_init) = (\<lparr>gt_status = Quiescing, gt_cycle = 1\<rparr>, True, 1)"
    by (simp add: quiesce_close_def gate_init_def gate_new_def)
  obtain S' where S': "gate_run [EvEnter, EvLook, EvAck] ?S = Some S'"
    and p: "quiesce_poll 1 (sy_gate S') = Some (Inr ())"
    by (simp add: gate_init_def gate_defs quiesce_poll_def)
  from quiesce_own_cycle [OF c S' p] S' p show ?thesis by auto
qed

theorem checkpoint_progress_witness:
  "sy_phase (checkpoint_loop demo_paused) = WWaiting"
  using checkpoint_progress [OF demo_pause_run] by (simp add: demo_paused_def)

end
