(* ===== verification/Framing.thy ===== *)
theory Framing
  imports Prelude
begin

text \<open>
  Byte framing: big-endian integers, UTF-8 text and length prefixes
  (\<open>crates/core/src/count.rs\<close> and the raw writers of \<open>crates/core/src/payload.rs\<close> and
  \<open>crates/core/src/verbs/idempotency.rs\<close>). The locale \<open>frame_code\<close> is the contract an encoding needs
  so that concatenated frames can be read back: no frame is a prefix of another.
\<close>

section \<open>Encodings\<close>

text \<open>\<open>to_be_bytes\<close> of an unsigned integer of \<open>n\<close> bytes.\<close>

fun be_bytes :: "nat \<Rightarrow> nat \<Rightarrow> byte list" where
  "be_bytes 0 v = []"
| "be_bytes (Suc n) v = be_bytes n (v div 256) @ [of_nat v]"

definition word_be_bytes :: "nat \<Rightarrow> 'a::len word \<Rightarrow> byte list" where
  "word_be_bytes n w = be_bytes n (unat w)"

definition uuid_bytes :: "uuid \<Rightarrow> byte list" where
  "uuid_bytes u = word_be_bytes 16 u"

text \<open>\<open>count_u64\<close> saturates: a length of 2 to the 64 or more would be written as the greatest u64.\<close>

definition count_u64 :: "nat \<Rightarrow> u64" where
  "count_u64 n = (if n < 2 ^ 64 then of_nat n else - 1)"

definition raw_len :: "nat \<Rightarrow> byte list" where
  "raw_len n = word_be_bytes 8 (count_u64 n)"

definition raw_bytes :: "byte list \<Rightarrow> byte list" where
  "raw_bytes bs = raw_len (length bs) @ bs"

definition raw_str :: "str \<Rightarrow> byte list" where
  "raw_str s = raw_bytes (utf8 s)"

text \<open>An optional value is a presence byte and, when present, the value; a list is its count and elements.\<close>

fun option_bytes :: "('a \<Rightarrow> byte list) \<Rightarrow> 'a option \<Rightarrow> byte list" where
  "option_bytes enc (Some v) = 1 # enc v"
| "option_bytes enc None = [0]"

definition counted :: "('a \<Rightarrow> byte list) \<Rightarrow> 'a list \<Rightarrow> byte list" where
  "counted enc vs = raw_len (length vs) @ concat (map enc vs)"

section \<open>Frame codes\<close>

locale frame_code =
  fixes ok :: "'a \<Rightarrow> bool" and enc :: "'a \<Rightarrow> byte list"
  assumes frame: "ok x \<Longrightarrow> ok y \<Longrightarrow> enc x @ r = enc y @ r' \<Longrightarrow> x = y \<and> r = r'"
begin

lemma enc_inj: "ok x \<Longrightarrow> ok y \<Longrightarrow> enc x = enc y \<Longrightarrow> x = y"
  using frame [of x y "[]" "[]"] by simp

lemma frame_list:
  "length xs = length ys \<Longrightarrow> list_all ok xs \<Longrightarrow> list_all ok ys \<Longrightarrow>
   concat (map enc xs) @ r = concat (map enc ys) @ r' \<Longrightarrow> xs = ys \<and> r = r'"
proof (induction xs ys rule: list_induct2)
  case (Cons x xs y ys)
  have "enc x @ (concat (map enc xs) @ r) = enc y @ (concat (map enc ys) @ r')" using Cons.prems(3) by simp
  moreover have "ok x" "ok y" using Cons.prems by simp_all
  ultimately have "x = y \<and> concat (map enc xs) @ r = concat (map enc ys) @ r'" by (intro frame)
  with Cons.IH Cons.prems(1,2) show ?case by simp
qed simp

lemma frame_stream:
  assumes ne: "\<And>x. ok x \<Longrightarrow> enc x \<noteq> []"
  shows "list_all ok xs \<Longrightarrow> list_all ok ys \<Longrightarrow> concat (map enc xs) = concat (map enc ys) \<Longrightarrow> xs = ys"
proof (induction xs arbitrary: ys)
  case Nil
  then show ?case using ne [of "hd ys"] by (cases ys) simp_all
next
  case (Cons x xs)
  show ?case
  proof (cases ys)
    case Nil
    with Cons.prems ne [of x] show ?thesis by simp
  next
    case ys: (Cons y ys')
    have "enc x @ concat (map enc xs) = enc y @ concat (map enc ys')" using Cons.prems(3) ys by simp
    moreover have "ok x" "ok y" using Cons.prems(1,2) ys by simp_all
    ultimately have "x = y \<and> concat (map enc xs) = concat (map enc ys')" by (intro frame)
    with Cons.IH [of ys'] Cons.prems(1,2) ys show ?thesis by simp
  qed
qed

lemma frame_iff: "ok x \<Longrightarrow> ok y \<Longrightarrow> enc x @ r = enc y @ r' \<longleftrightarrow> x = y \<and> r = r'"
  using frame by blast

lemma frame_terminated:
  assumes "\<And>x. ok x \<Longrightarrow> enc x \<noteq> [] \<and> hd (enc x) \<noteq> t"
  shows "list_all ok xs \<Longrightarrow> list_all ok ys \<Longrightarrow> concat (map enc xs) @ t # r = concat (map enc ys) @ t # r' \<Longrightarrow> xs = ys \<and> r = r'"
proof (induction xs arbitrary: ys)
  case Nil
  then show ?case using assms [of "hd ys"] by (cases ys) (auto dest: arg_cong [of _ _ hd])
next
  case (Cons x xs)
  show ?case
  proof (cases ys)
    case Nil
    with Cons.prems assms [of x] show ?thesis by (auto dest: arg_cong [of _ _ hd])
  next
    case ys: (Cons y ys')
    have "enc x @ (concat (map enc xs) @ t # r) = enc y @ (concat (map enc ys') @ t # r')" using Cons.prems(3) ys by simp
    moreover have "ok x" "ok y" using Cons.prems(1,2) ys by simp_all
    ultimately have "x = y \<and> concat (map enc xs) @ t # r = concat (map enc ys') @ t # r'" by (intro frame)
    with Cons.IH [of ys'] Cons.prems(1,2) ys show ?thesis by simp
  qed
qed

lemma option_frame_iff:
  "pred_option ok x \<Longrightarrow> pred_option ok y \<Longrightarrow> option_bytes enc x @ r = option_bytes enc y @ r' \<longleftrightarrow> x = y \<and> r = r'"
  by (cases x; cases y) (simp_all add: frame_iff)

end

lemma be_bytes_numeral: "be_bytes (numeral k) v = be_bytes (pred_numeral k) (v div 256) @ [of_nat v]"
  by (simp only: numeral_eq_Suc [of k] be_bytes.simps)

lemma length_be_bytes [simp]: "length (be_bytes n v) = n"
  by (induction n arbitrary: v) simp_all

lemma be_bytes_inj: "v < 256 ^ n \<Longrightarrow> w < 256 ^ n \<Longrightarrow> be_bytes n v = be_bytes n w \<Longrightarrow> v = w"
proof (induction n arbitrary: v w)
  case (Suc n)
  then have "be_bytes n (v div 256) = be_bytes n (w div 256)" and b: "(of_nat v :: byte) = of_nat w" by auto
  moreover have "v div 256 < 256 ^ n" "w div 256 < 256 ^ n"
    using Suc.prems(1,2) by (simp_all add: div_less_iff_less_mult mult.commute)
  ultimately have "v div 256 = w div 256" using Suc.IH by blast
  moreover from b have "unat (of_nat v :: byte) = unat (of_nat w :: byte)" by simp
  then have "v mod 256 = w mod 256" by (simp add: unat_of_nat)
  ultimately show ?case by (metis div_mult_mod_eq)
qed simp

lemma append_same_length: "length a = length b \<Longrightarrow> a @ r = b @ r' \<longleftrightarrow> a = b \<and> r = r'"
  by simp

lemma word_be_bytes_frame:
  fixes v w :: "'a::len word"
  assumes "LENGTH('a) = 8 * n"
  shows "word_be_bytes n v @ r = word_be_bytes n w @ r' \<longleftrightarrow> v = w \<and> r = r'"
proof -
  have "unat u < 256 ^ n" for u :: "'a word"
  proof -
    have "unat u < 2 ^ LENGTH('a)" by (rule unsigned_less)
    also have "(2 :: nat) ^ LENGTH('a) = 256 ^ n" unfolding assms power_mult by simp
    finally show ?thesis .
  qed
  then have "be_bytes n (unat v) = be_bytes n (unat w) \<longleftrightarrow> v = w"
    using be_bytes_inj [of "unat v" n "unat w"] by (auto intro: unsigned_word_eqI)
  then show ?thesis by (simp add: word_be_bytes_def)
qed

interpretation u32_frame: frame_code "\<lambda>_. True" "word_be_bytes 4 :: u32 \<Rightarrow> byte list"
  by unfold_locales (simp add: word_be_bytes_frame)

interpretation u64_frame: frame_code "\<lambda>_. True" "word_be_bytes 8 :: u64 \<Rightarrow> byte list"
  by unfold_locales (simp add: word_be_bytes_frame)

interpretation uuid_frame: frame_code "\<lambda>_. True" uuid_bytes
  by unfold_locales (simp add: uuid_bytes_def word_be_bytes_frame)

interpretation time_frame: frame_code "\<lambda>_. True" "word_be_bytes 16 :: 128 word \<Rightarrow> byte list"
  by unfold_locales (simp add: word_be_bytes_frame)

interpretation byte_frame: frame_code "\<lambda>_. True" "\<lambda>b :: byte. [b]"
  by unfold_locales simp

interpretation len_frame: frame_code "\<lambda>n. n < 2 ^ 64" raw_len
proof
  fix m n :: nat and r r'
  assume len: "m < 2 ^ 64" "n < 2 ^ 64" and "raw_len m @ r = raw_len n @ r'"
  then have "(of_nat m :: u64) = of_nat n" "r = r'" by (auto simp: raw_len_def count_u64_def word_be_bytes_frame)
  then have "unat (of_nat m :: u64) = unat (of_nat n :: u64)" by simp
  with len \<open>r = r'\<close> show "m = n \<and> r = r'" by (simp add: unat_of_nat)
qed

interpretation bytes_frame: frame_code "\<lambda>bs. length bs < 2 ^ 64" raw_bytes
proof
  fix a b :: "byte list" and r r'
  assume len: "length a < 2 ^ 64" "length b < 2 ^ 64" and "raw_bytes a @ r = raw_bytes b @ r'"
  then have "raw_len (length a) @ (a @ r) = raw_len (length b) @ (b @ r')" by (simp add: raw_bytes_def)
  from len_frame.frame [OF len this] have "length a = length b" "a @ r = b @ r'" by blast+
  then show "a = b \<and> r = r'" by simp
qed

section \<open>UTF-8 is injective\<close>

text \<open>A Rust \<open>char\<close> is a Unicode scalar value.\<close>

definition scalar :: "nat \<Rightarrow> bool" where
  "scalar c \<longleftrightarrow> c < 55296 \<or> (57344 \<le> c \<and> c < 1114112)"

definition str_ok :: "str \<Rightarrow> bool" where
  "str_ok s \<longleftrightarrow> list_all scalar s \<and> str_len s < 2 ^ 64"

fun utf8_head :: "nat \<Rightarrow> nat" where
  "utf8_head c = (if c < 128 then c else if c < 2048 then 192 + c div 64 else if c < 65536 then 224 + c div 4096
     else 240 + c div 262144)"

fun utf8_tail :: "nat \<Rightarrow> nat list" where
  "utf8_tail c = (if c < 128 then [] else if c < 2048 then [128 + c mod 64]
     else if c < 65536 then [128 + c div 64 mod 64, 128 + c mod 64]
     else [128 + c div 4096 mod 64, 128 + c div 64 mod 64, 128 + c mod 64])"

lemma byte_unat: "n < 256 \<Longrightarrow> unat (of_nat n :: byte) = n"
  by (simp add: unat_of_nat)

lemma utf8_char_nats:
  assumes "c < 1114112"
  shows "map unat (utf8_char c) = utf8_head c # utf8_tail c"
proof -
  have b: "240 + c div 262144 < 256" using assms by linarith
  have "c < 65536 \<Longrightarrow> 224 + c div 4096 < 256" "c < 2048 \<Longrightarrow> 192 + c div 64 < 256" by linarith+
  moreover have "128 + c mod 64 < 256" "128 + c div 64 mod 64 < 256" "128 + c div 4096 mod 64 < 256"
    using mod_less_divisor [of 64 c] mod_less_divisor [of 64 "c div 64"] mod_less_divisor [of 64 "c div 4096"] by linarith+
  ultimately show ?thesis using b
    by (simp add: utf8_char_def byte_unat del: of_nat_add)
qed

lemma utf8_head_class:
  assumes "c < 1114112" "d < 1114112" "utf8_head c = utf8_head d"
  shows "c < 128 \<longleftrightarrow> d < 128" "c < 2048 \<longleftrightarrow> d < 2048" "c < 65536 \<longleftrightarrow> d < 65536"
  using assms by (auto split: if_splits)

lemma div_mod_64_eq: "c div 64 = d div 64 \<Longrightarrow> c mod 64 = d mod 64 \<Longrightarrow> c = (d :: nat)"
  by (metis div_mult_mod_eq)

lemma div_4096: "(c :: nat) div 4096 = c div 64 div 64" "(c :: nat) div 262144 = c div 64 div 64 div 64"
  by (simp_all add: div_mult2_eq [symmetric])

lemma utf8_class2: "\<not> c < 128 \<Longrightarrow> c < 2048 \<Longrightarrow> utf8_head c = 192 + c div 64 \<and> utf8_tail c = [128 + c mod 64]"
  by simp

lemma utf8_class3: "\<not> c < 2048 \<Longrightarrow> c < 65536 \<Longrightarrow>
    utf8_head c = 224 + c div 4096 \<and> utf8_tail c = [128 + c div 64 mod 64, 128 + c mod 64]"
  by simp

lemma utf8_class4: "\<not> c < 65536 \<Longrightarrow>
    utf8_head c = 240 + c div 262144 \<and> utf8_tail c = [128 + c div 4096 mod 64, 128 + c div 64 mod 64, 128 + c mod 64]"
  by simp

lemma utf8_nats_inj:
  assumes "c < 1114112" "d < 1114112" "utf8_head c = utf8_head d" "utf8_tail c = utf8_tail d"
  shows "c = d"
proof -
  note cls = utf8_head_class [OF assms(1-3)]
  note eqs = assms(3,4)
  show ?thesis
  proof (cases "c < 128")
    case True
    with cls(1) eqs(1) show ?thesis by simp
  next
    case n1: False
    show ?thesis
    proof (cases "c < 2048")
      case True
      note c = utf8_class2 [OF n1 True] and d = utf8_class2 [OF n1 [unfolded cls(1)] True [unfolded cls(2)]]
      from eqs have "192 + c div 64 = 192 + d div 64" "[128 + c mod 64] = [128 + d mod 64]"
        unfolding c [THEN conjunct1] d [THEN conjunct1] c [THEN conjunct2] d [THEN conjunct2] .
      then have "c div 64 = d div 64" "c mod 64 = d mod 64" unfolding list.inject add_left_cancel by blast+
      then show ?thesis by (rule div_mod_64_eq)
    next
      case n2: False
      show ?thesis
      proof (cases "c < 65536")
        case True
        note c = utf8_class3 [OF n2 True] and d = utf8_class3 [OF n2 [unfolded cls(2)] True [unfolded cls(3)]]
        from eqs have "224 + c div 4096 = 224 + d div 4096" "[128 + c div 64 mod 64, 128 + c mod 64] = [128 + d div 64 mod 64, 128 + d mod 64]"
          unfolding c [THEN conjunct1] d [THEN conjunct1] c [THEN conjunct2] d [THEN conjunct2] .
        then have h: "c div 4096 = d div 4096" "c div 64 mod 64 = d div 64 mod 64" and m: "c mod 64 = d mod 64"
          unfolding list.inject add_left_cancel by blast+
        from h have "c div 64 = d div 64" unfolding div_4096 by (rule div_mod_64_eq)
        then show ?thesis using m by (rule div_mod_64_eq)
      next
        case n3: False
        note c = utf8_class4 [OF n3] and d = utf8_class4 [OF n3 [unfolded cls(3)]]
        from eqs have "240 + c div 262144 = 240 + d div 262144" "[128 + c div 4096 mod 64, 128 + c div 64 mod 64, 128 + c mod 64] =
            [128 + d div 4096 mod 64, 128 + d div 64 mod 64, 128 + d mod 64]"
          unfolding c [THEN conjunct1] d [THEN conjunct1] c [THEN conjunct2] d [THEN conjunct2] .
        then have h: "c div 262144 = d div 262144" "c div 4096 mod 64 = d div 4096 mod 64"
          and t: "c div 64 mod 64 = d div 64 mod 64" "c mod 64 = d mod 64"
          unfolding list.inject add_left_cancel by blast+
        from h have "c div 64 div 64 = d div 64 div 64" unfolding div_4096 by (rule div_mod_64_eq)
        then have "c div 64 = d div 64" using t(1) by (rule div_mod_64_eq)
        then show ?thesis using t(2) by (rule div_mod_64_eq)
      qed
    qed
  qed
qed

lemma utf8_tail_length:
  assumes "utf8_head c = utf8_head d" "c < 1114112" "d < 1114112"
  shows "length (utf8_tail c) = length (utf8_tail d)"
  unfolding utf8_tail.simps utf8_head_class [OF assms(2,3,1)] by simp

interpretation char_frame: frame_code scalar utf8_char
proof
  fix c d r r'
  assume sc: "scalar c" "scalar d" and eq: "utf8_char c @ r = utf8_char d @ r'"
  from sc have lt: "c < 1114112" "d < 1114112" by (auto simp: scalar_def)
  from eq have "map unat (utf8_char c) @ map unat r = map unat (utf8_char d) @ map unat r'" by (metis map_append)
  then have heads: "utf8_head c = utf8_head d" and tails: "utf8_tail c @ map unat r = utf8_tail d @ map unat r'"
    by (simp_all add: utf8_char_nats [OF lt(1)] utf8_char_nats [OF lt(2)] del: utf8_head.simps utf8_tail.simps)
  from tails utf8_tail_length [OF heads lt] have "utf8_tail c = utf8_tail d" by simp
  with utf8_nats_inj [OF lt heads] have "c = d" .
  with eq show "c = d \<and> r = r'" by simp
qed

lemma utf8_inj: "list_all scalar s \<Longrightarrow> list_all scalar t \<Longrightarrow> utf8 s = utf8 t \<Longrightarrow> s = t"
  unfolding utf8_def by (rule char_frame.frame_stream) (simp_all add: utf8_char_def)

interpretation str_frame: frame_code str_ok raw_str
proof
  fix s t r r'
  assume ok: "str_ok s" "str_ok t" and eq: "raw_str s @ r = raw_str t @ r'"
  from ok have "length (utf8 s) < 2 ^ 64" "length (utf8 t) < 2 ^ 64" by (simp_all add: str_ok_def str_len_def)
  from bytes_frame.frame [OF this eq [unfolded raw_str_def]] have "utf8 s = utf8 t" "r = r'" by blast+
  with ok utf8_inj [of s t] show "s = t \<and> r = r'" by (simp add: str_ok_def)
qed

context frame_code
begin

lemma counted_frame_iff:
  assumes "list_all ok xs" "list_all ok ys" "length xs < 2 ^ 64" "length ys < 2 ^ 64"
  shows "counted enc xs @ r = counted enc ys @ r' \<longleftrightarrow> xs = ys \<and> r = r'"
proof
  assume "counted enc xs @ r = counted enc ys @ r'"
  then have "raw_len (length xs) @ (concat (map enc xs) @ r) = raw_len (length ys) @ (concat (map enc ys) @ r')"
    by (simp add: counted_def)
  from len_frame.frame [OF assms(3,4) this] frame_list [OF _ assms(1,2)] show "xs = ys \<and> r = r'" by blast
qed simp

end

lemmas frame_iffs = u32_frame.frame_iff [OF TrueI TrueI] u64_frame.frame_iff [OF TrueI TrueI] uuid_frame.frame_iff [OF TrueI TrueI]
  time_frame.frame_iff [OF TrueI TrueI]
  len_frame.frame_iff bytes_frame.frame_iff str_frame.frame_iff
  u32_frame.option_frame_iff u64_frame.option_frame_iff uuid_frame.option_frame_iff time_frame.option_frame_iff byte_frame.option_frame_iff
  bytes_frame.option_frame_iff str_frame.option_frame_iff str_frame.counted_frame_iff uuid_frame.counted_frame_iff

text \<open>Every byte string of the right length is the encoding of some number; sixteen bytes are always those of a UUID.\<close>

lemma be_bytes_surj: "\<exists>v < 256 ^ length bs. be_bytes (length bs) v = bs"
proof (induction bs rule: rev_induct)
  case (snoc b bs)
  then obtain v where v: "v < 256 ^ length bs" "be_bytes (length bs) v = bs" by blast
  have "unat b < 2 ^ LENGTH(8)" by (rule unsigned_less)
  then have b: "unat b < 256" by simp
  let ?v = "v * 256 + unat b"
  have "?v < 256 ^ length (bs @ [b])"
  proof -
    from v(1) have "(v + 1) * 256 \<le> 256 ^ length bs * 256" by (intro mult_right_mono) simp_all
    with b show ?thesis by simp
  qed
  moreover have "?v div 256 = v" using b by simp
  moreover have "(of_nat ?v :: byte) = b"
  proof -
    have zero: "(256 :: byte) = 0" by simp
    have "(of_nat ?v :: byte) = of_nat v * 256 + b" by simp
    then show ?thesis unfolding zero by simp
  qed
  ultimately show ?case using v(2) by (intro exI [of _ ?v]) simp
qed simp

lemma uuid_bytes_surj: "(\<exists>w. uuid_bytes w = bs) \<longleftrightarrow> length bs = 16"
proof
  assume "length bs = 16"
  with be_bytes_surj [of bs] obtain v where v: "v < 256 ^ 16" "be_bytes 16 v = bs" by auto
  then have "unat (of_nat v :: uuid) = v" by (simp add: unat_of_nat)
  with v show "\<exists>w. uuid_bytes w = bs" by (intro exI [of _ "of_nat v"]) (simp add: uuid_bytes_def word_be_bytes_def)
qed (auto simp: uuid_bytes_def word_be_bytes_def)

end
