(* ===== verification/PayloadKey.thy ===== *)
theory PayloadKey
  imports Framing
begin

text \<open>
  The payload key builder (\<open>crates/core/src/payload.rs\<close>): one definition per method, each
  appending its frame to the builder's bytes. \<open>key_value\<close> names every call a schema can make, so a
  declaration is a list of named values and its key the bytes the calls produce.
\<close>

section \<open>Builder\<close>

datatype key_tag =
    TAG_STR | TAG_BOOL | TAG_U8 | TAG_U32 | TAG_I32 | TAG_I64
  | TAG_U64 | TAG_UUID | TAG_BYTES | TAG_TIME | TAG_OPTION_STR | TAG_OPTION_BOOL
  | TAG_OPTION_U8 | TAG_OPTION_U32 | TAG_OPTION_I32 | TAG_OPTION_I64 | TAG_OPTION_U64 | TAG_OPTION_UUID
  | TAG_OPTION_BYTES | TAG_OPTION_TIME | TAG_LIST

fun tag_byte :: "key_tag \<Rightarrow> byte" where
  "tag_byte TAG_STR = 115"
| "tag_byte TAG_BOOL = 98"
| "tag_byte TAG_U8 = 49"
| "tag_byte TAG_U32 = 52"
| "tag_byte TAG_I32 = 73"
| "tag_byte TAG_I64 = 76"
| "tag_byte TAG_U64 = 56"
| "tag_byte TAG_UUID = 117"
| "tag_byte TAG_BYTES = 66"
| "tag_byte TAG_TIME = 116"
| "tag_byte TAG_OPTION_STR = 83"
| "tag_byte TAG_OPTION_BOOL = 79"
| "tag_byte TAG_OPTION_U8 = 50"
| "tag_byte TAG_OPTION_U32 = 53"
| "tag_byte TAG_OPTION_I32 = 105"
| "tag_byte TAG_OPTION_I64 = 108"
| "tag_byte TAG_OPTION_U64 = 57"
| "tag_byte TAG_OPTION_UUID = 85"
| "tag_byte TAG_OPTION_BYTES = 67"
| "tag_byte TAG_OPTION_TIME = 84"
| "tag_byte TAG_LIST = 91"

lemmas tag_defs = tag_byte.simps

definition builder_new :: "str \<Rightarrow> u32 \<Rightarrow> byte list" where
  "builder_new schema_id version = utf8 (lit ''PKEY1'') @ [0] @ raw_str schema_id @ word_be_bytes 4 version"

definition field_frame :: "byte list \<Rightarrow> str \<Rightarrow> byte \<Rightarrow> byte list" where
  "field_frame bytes name tag = bytes @ raw_str name @ [tag]"

definition bool_byte :: "bool \<Rightarrow> byte list" where
  "bool_byte b = [if b then 1 else 0]"

definition field_str :: "byte list \<Rightarrow> str \<Rightarrow> str \<Rightarrow> byte list" where
  "field_str bytes name v = field_frame bytes name (tag_byte TAG_STR) @ raw_str v"

definition field_bool :: "byte list \<Rightarrow> str \<Rightarrow> bool \<Rightarrow> byte list" where
  "field_bool bytes name v = field_frame bytes name (tag_byte TAG_BOOL) @ bool_byte v"

definition field_u8 :: "byte list \<Rightarrow> str \<Rightarrow> byte \<Rightarrow> byte list" where
  "field_u8 bytes name v = field_frame bytes name (tag_byte TAG_U8) @ [v]"

definition field_u32 :: "byte list \<Rightarrow> str \<Rightarrow> u32 \<Rightarrow> byte list" where
  "field_u32 bytes name v = field_frame bytes name (tag_byte TAG_U32) @ word_be_bytes 4 v"

definition field_i32 :: "byte list \<Rightarrow> str \<Rightarrow> u32 \<Rightarrow> byte list" where
  "field_i32 bytes name v = field_frame bytes name (tag_byte TAG_I32) @ word_be_bytes 4 v"

definition field_i64 :: "byte list \<Rightarrow> str \<Rightarrow> u64 \<Rightarrow> byte list" where
  "field_i64 bytes name v = field_frame bytes name (tag_byte TAG_I64) @ word_be_bytes 8 v"

definition field_u64 :: "byte list \<Rightarrow> str \<Rightarrow> u64 \<Rightarrow> byte list" where
  "field_u64 bytes name v = field_frame bytes name (tag_byte TAG_U64) @ word_be_bytes 8 v"

definition field_usize :: "byte list \<Rightarrow> str \<Rightarrow> nat \<Rightarrow> byte list" where
  "field_usize bytes name v = field_u64 bytes name (count_u64 v)"

definition field_uuid :: "byte list \<Rightarrow> str \<Rightarrow> uuid \<Rightarrow> byte list" where
  "field_uuid bytes name v = field_frame bytes name (tag_byte TAG_UUID) @ uuid_bytes v"

definition field_bytes :: "byte list \<Rightarrow> str \<Rightarrow> byte list \<Rightarrow> byte list" where
  "field_bytes bytes name v = field_frame bytes name (tag_byte TAG_BYTES) @ raw_bytes v"

text \<open>A time is given by its i128 count of nanoseconds since the epoch.\<close>

definition field_time :: "byte list \<Rightarrow> str \<Rightarrow> 128 word \<Rightarrow> byte list" where
  "field_time bytes name v = field_frame bytes name (tag_byte TAG_TIME) @ word_be_bytes 16 v"

definition field_option_str :: "byte list \<Rightarrow> str \<Rightarrow> str option \<Rightarrow> byte list" where
  "field_option_str bytes name v = field_frame bytes name (tag_byte TAG_OPTION_STR) @ option_bytes raw_str v"

definition field_option_uuid :: "byte list \<Rightarrow> str \<Rightarrow> uuid option \<Rightarrow> byte list" where
  "field_option_uuid bytes name v = field_frame bytes name (tag_byte TAG_OPTION_UUID) @ option_bytes uuid_bytes v"

definition field_option_bool :: "byte list \<Rightarrow> str \<Rightarrow> bool option \<Rightarrow> byte list" where
  "field_option_bool bytes name v = field_frame bytes name (tag_byte TAG_OPTION_BOOL) @ option_bytes bool_byte v"

definition field_option_time :: "byte list \<Rightarrow> str \<Rightarrow> 128 word option \<Rightarrow> byte list" where
  "field_option_time bytes name v = field_frame bytes name (tag_byte TAG_OPTION_TIME) @ option_bytes (word_be_bytes 16) v"

definition field_option_u8 :: "byte list \<Rightarrow> str \<Rightarrow> byte option \<Rightarrow> byte list" where
  "field_option_u8 bytes name v = field_frame bytes name (tag_byte TAG_OPTION_U8) @ option_bytes (\<lambda>b. [b]) v"

definition field_option_u32 :: "byte list \<Rightarrow> str \<Rightarrow> u32 option \<Rightarrow> byte list" where
  "field_option_u32 bytes name v = field_frame bytes name (tag_byte TAG_OPTION_U32) @ option_bytes (word_be_bytes 4) v"

definition field_option_i32 :: "byte list \<Rightarrow> str \<Rightarrow> u32 option \<Rightarrow> byte list" where
  "field_option_i32 bytes name v = field_frame bytes name (tag_byte TAG_OPTION_I32) @ option_bytes (word_be_bytes 4) v"

definition field_option_i64 :: "byte list \<Rightarrow> str \<Rightarrow> u64 option \<Rightarrow> byte list" where
  "field_option_i64 bytes name v = field_frame bytes name (tag_byte TAG_OPTION_I64) @ option_bytes (word_be_bytes 8) v"

definition field_option_u64 :: "byte list \<Rightarrow> str \<Rightarrow> u64 option \<Rightarrow> byte list" where
  "field_option_u64 bytes name v = field_frame bytes name (tag_byte TAG_OPTION_U64) @ option_bytes (word_be_bytes 8) v"

definition field_option_usize :: "byte list \<Rightarrow> str \<Rightarrow> nat option \<Rightarrow> byte list" where
  "field_option_usize bytes name v = field_option_u64 bytes name (map_option count_u64 v)"

definition field_option_bytes :: "byte list \<Rightarrow> str \<Rightarrow> byte list option \<Rightarrow> byte list" where
  "field_option_bytes bytes name v = field_frame bytes name (tag_byte TAG_OPTION_BYTES) @ option_bytes raw_bytes v"

definition field_str_list :: "byte list \<Rightarrow> str \<Rightarrow> str list \<Rightarrow> byte list" where
  "field_str_list bytes name vs = field_frame bytes name (tag_byte TAG_LIST) @ raw_len (length vs) @ concat (map raw_str vs)"

definition field_uuid_list :: "byte list \<Rightarrow> str \<Rightarrow> uuid list \<Rightarrow> byte list" where
  "field_uuid_list bytes name vs = field_frame bytes name (tag_byte TAG_LIST) @ raw_len (length vs) @ concat (map uuid_bytes vs)"

definition key_list :: "byte list \<Rightarrow> str \<Rightarrow> nat \<Rightarrow> byte list" where
  "key_list bytes name n = field_frame bytes name (tag_byte TAG_LIST) @ raw_len n"

definition schema_only_key :: "str \<Rightarrow> u32 \<Rightarrow> byte list" where
  "schema_only_key schema_id version = builder_new schema_id version"

section \<open>Declarations\<close>

datatype key_value =
    VStr str | VBool bool | VU8 byte | VU32 u32 | VI32 u32 | VI64 u64 | VU64 u64 | VUuid uuid | VBytes "byte list" | VTime "128 word"
  | VOStr "str option" | VOBool "bool option" | VOU8 "byte option" | VOU32 "u32 option" | VOI32 "u32 option" | VOI64 "u64 option"
  | VOU64 "u64 option" | VOUuid "uuid option" | VOBytes "byte list option" | VOTime "128 word option"
  | VStrList "str list" | VUuidList "uuid list" | VUsize nat | VOUsize "nat option" | VList nat

fun declare_field :: "byte list \<Rightarrow> str \<times> key_value \<Rightarrow> byte list" where
  "declare_field bs (name, VStr v) = field_str bs name v"
| "declare_field bs (name, VBool v) = field_bool bs name v"
| "declare_field bs (name, VU8 v) = field_u8 bs name v"
| "declare_field bs (name, VU32 v) = field_u32 bs name v"
| "declare_field bs (name, VI32 v) = field_i32 bs name v"
| "declare_field bs (name, VI64 v) = field_i64 bs name v"
| "declare_field bs (name, VU64 v) = field_u64 bs name v"
| "declare_field bs (name, VUuid v) = field_uuid bs name v"
| "declare_field bs (name, VBytes v) = field_bytes bs name v"
| "declare_field bs (name, VTime v) = field_time bs name v"
| "declare_field bs (name, VOStr v) = field_option_str bs name v"
| "declare_field bs (name, VOBool v) = field_option_bool bs name v"
| "declare_field bs (name, VOU8 v) = field_option_u8 bs name v"
| "declare_field bs (name, VOU32 v) = field_option_u32 bs name v"
| "declare_field bs (name, VOI32 v) = field_option_i32 bs name v"
| "declare_field bs (name, VOI64 v) = field_option_i64 bs name v"
| "declare_field bs (name, VOU64 v) = field_option_u64 bs name v"
| "declare_field bs (name, VOUuid v) = field_option_uuid bs name v"
| "declare_field bs (name, VOBytes v) = field_option_bytes bs name v"
| "declare_field bs (name, VOTime v) = field_option_time bs name v"
| "declare_field bs (name, VStrList v) = field_str_list bs name v"
| "declare_field bs (name, VUuidList v) = field_uuid_list bs name v"
| "declare_field bs (name, VUsize v) = field_usize bs name v"
| "declare_field bs (name, VOUsize v) = field_option_usize bs name v"
| "declare_field bs (name, VList n) = key_list bs name n"

definition payload_key :: "str \<Rightarrow> u32 \<Rightarrow> (str \<times> key_value) list \<Rightarrow> byte list" where
  "payload_key schema_id version fields = foldl declare_field (builder_new schema_id version) fields"

lemmas field_defs = field_str_def field_bool_def field_u8_def field_u32_def field_i32_def field_i64_def field_u64_def
  field_uuid_def field_bytes_def field_time_def field_option_str_def field_option_bool_def field_option_u8_def
  field_option_u32_def field_option_i32_def field_option_i64_def field_option_u64_def field_option_uuid_def
  field_option_bytes_def field_option_time_def field_str_list_def field_uuid_list_def field_frame_def
  field_usize_def field_option_usize_def key_list_def

section \<open>Injectivity\<close>

text \<open>Every call appends: the frame a call writes does not depend on what precedes it.\<close>

definition field_enc :: "str \<times> key_value \<Rightarrow> byte list" where
  "field_enc f = declare_field [] f"

lemma declare_field_append: "declare_field bs f = bs @ field_enc f"
  by (cases f; cases "snd f") (auto simp: field_enc_def field_defs)

lemma payload_key_concat: "payload_key sid v fs = builder_new sid v @ concat (map field_enc fs)"
proof -
  have "foldl declare_field bs fs = bs @ concat (map field_enc fs)" for bs
    by (induction fs arbitrary: bs) (simp_all add: declare_field_append)
  then show ?thesis by (simp add: payload_key_def)
qed

text \<open>A \<open>usize\<close> is declared as the \<open>u64\<close> it converts to.\<close>

fun normal_value :: "key_value \<Rightarrow> key_value" where
  "normal_value (VUsize n) = VU64 (count_u64 n)"
| "normal_value (VOUsize n) = VOU64 (map_option count_u64 n)"
| "normal_value v = v"

text \<open>
  Text and byte strings fit their length prefix, and a list field has the element type its name has in the
  schema: \<open>list_kind\<close> tells whether a name is declared by \<open>field_str_list\<close>, by \<open>field_uuid_list\<close> or by \<open>list\<close>, which
  writes the length of a list whose elements are the fields that follow.
\<close>

datatype list_kind = StrElements | UuidElements | FieldElements

fun value_ok :: "list_kind \<Rightarrow> key_value \<Rightarrow> bool" where
  "value_ok k (VStr s) = str_ok s"
| "value_ok k (VBytes bs) = (length bs < 2 ^ 64)"
| "value_ok k (VOStr s) = pred_option str_ok s"
| "value_ok k (VOBytes bs) = pred_option (\<lambda>bs. length bs < 2 ^ 64) bs"
| "value_ok k (VStrList ss) = (k = StrElements \<and> list_all str_ok ss \<and> length ss < 2 ^ 64)"
| "value_ok k (VUuidList us) = (k = UuidElements \<and> length us < 2 ^ 64)"
| "value_ok k (VList n) = (k = FieldElements \<and> n < 2 ^ 64)"
| "value_ok k _ = True"

definition field_ok :: "(str \<Rightarrow> list_kind) \<Rightarrow> str \<times> key_value \<Rightarrow> bool" where
  "field_ok list_field f \<longleftrightarrow> str_ok (fst f) \<and> value_ok (list_field (fst f)) (snd f)"

definition normal_field_ok :: "(str \<Rightarrow> list_kind) \<Rightarrow> str \<times> key_value \<Rightarrow> bool" where
  "normal_field_ok list_field f \<longleftrightarrow> field_ok list_field f \<and> normal_value (snd f) = snd f"

lemma normal_field:
  "field_enc (apsnd normal_value f) = field_enc f" "field_ok lk f \<Longrightarrow> normal_field_ok lk (apsnd normal_value f)"
  by (cases f; cases "snd f"; simp add: field_enc_def field_usize_def field_option_usize_def field_ok_def normal_field_ok_def)+

lemma bool_byte_frame_iff: "bool_byte b @ r = bool_byte c @ r' \<longleftrightarrow> b = c \<and> r = r'"
  by (simp add: bool_byte_def)

interpretation bool_frame: frame_code "\<lambda>_. True" bool_byte
  by unfold_locales (simp add: bool_byte_frame_iff)

lemmas value_frame_iffs = frame_iffs [unfolded append_assoc] bool_byte_frame_iff bool_frame.option_frame_iff

lemma pred_option_True [simp]: "pred_option (\<lambda>_. True) x"
  by (cases x) simp_all

definition value_enc :: "key_value \<Rightarrow> byte list" where
  "value_enc v = drop 8 (field_enc ([], v))"

lemma field_enc_split: "field_enc (n, v) = raw_str n @ value_enc v"
  by (cases v) (simp_all add: value_enc_def field_enc_def field_defs raw_str_def raw_bytes_def raw_len_def word_be_bytes_def utf8_def)

lemma value_enc_eqs:
  "value_enc (VStr a) = (tag_byte TAG_STR) # raw_str a" "value_enc (VBool b) = (tag_byte TAG_BOOL) # bool_byte b" "value_enc (VU8 c) = (tag_byte TAG_U8) # [c]"
  "value_enc (VU32 d) = (tag_byte TAG_U32) # word_be_bytes 4 d" "value_enc (VI32 d) = (tag_byte TAG_I32) # word_be_bytes 4 d"
  "value_enc (VI64 e) = (tag_byte TAG_I64) # word_be_bytes 8 e" "value_enc (VU64 e) = (tag_byte TAG_U64) # word_be_bytes 8 e"
  "value_enc (VUuid u) = (tag_byte TAG_UUID) # uuid_bytes u" "value_enc (VBytes bs) = (tag_byte TAG_BYTES) # raw_bytes bs"
  "value_enc (VTime t) = (tag_byte TAG_TIME) # word_be_bytes 16 t"
  "value_enc (VOStr oa) = (tag_byte TAG_OPTION_STR) # option_bytes raw_str oa" "value_enc (VOBool ob) = (tag_byte TAG_OPTION_BOOL) # option_bytes bool_byte ob"
  "value_enc (VOU8 oc) = (tag_byte TAG_OPTION_U8) # option_bytes (\<lambda>b. [b]) oc" "value_enc (VOU32 od) = (tag_byte TAG_OPTION_U32) # option_bytes (word_be_bytes 4) od"
  "value_enc (VOI32 od) = (tag_byte TAG_OPTION_I32) # option_bytes (word_be_bytes 4) od" "value_enc (VOI64 oe) = (tag_byte TAG_OPTION_I64) # option_bytes (word_be_bytes 8) oe"
  "value_enc (VOU64 oe) = (tag_byte TAG_OPTION_U64) # option_bytes (word_be_bytes 8) oe" "value_enc (VOUuid ou) = (tag_byte TAG_OPTION_UUID) # option_bytes uuid_bytes ou"
  "value_enc (VOBytes obs) = (tag_byte TAG_OPTION_BYTES) # option_bytes raw_bytes obs" "value_enc (VOTime ot) = (tag_byte TAG_OPTION_TIME) # option_bytes (word_be_bytes 16) ot"
  "value_enc (VStrList ss) = (tag_byte TAG_LIST) # counted raw_str ss" "value_enc (VUuidList us) = (tag_byte TAG_LIST) # counted uuid_bytes us"
  "value_enc (VList n) = (tag_byte TAG_LIST) # raw_len n"
  by (simp_all add: value_enc_def field_enc_def field_defs raw_str_def raw_bytes_def raw_len_def word_be_bytes_def utf8_def counted_def)

lemma value_frame:
  assumes "value_ok k v" "value_ok k w" "normal_value v = v" "normal_value w = w" "value_enc v @ r = value_enc w @ r'"
  shows "v = w \<and> r = r'"
  using assms by (cases v; cases w) (simp_all add: value_enc_eqs tag_defs value_frame_iffs list.pred_True)

interpretation field_frame_code: frame_code "normal_field_ok lk" field_enc for lk
proof
  fix f g r r'
  assume ok: "normal_field_ok lk f" "normal_field_ok lk g" and eq: "field_enc f @ r = field_enc g @ r'"
  obtain n v m w where fg: "f = (n, v)" "g = (m, w)" by (cases f, cases g)
  from eq have "raw_str n @ (value_enc v @ r) = raw_str m @ (value_enc w @ r')" by (simp add: fg field_enc_split)
  moreover have "str_ok n" "str_ok m" using ok by (simp_all add: fg field_ok_def normal_field_ok_def)
  ultimately have nm: "n = m" and "value_enc v @ r = value_enc w @ r'" using str_frame.frame by blast+
  with ok value_frame [of "lk n" v w r r'] show "f = g \<and> r = r'" by (simp add: fg field_ok_def normal_field_ok_def)
qed

lemma field_enc_nonempty: "field_enc f \<noteq> []"
  by (cases f) (simp add: field_enc_split raw_str_def raw_bytes_def raw_len_def word_be_bytes_def flip: length_0_conv)

lemma builder_new_frame:
  assumes "str_ok sid" "str_ok sid'" "builder_new sid v @ r = builder_new sid' v' @ r'"
  shows "sid = sid' \<and> v = v' \<and> r = r'"
  using assms by (simp add: builder_new_def frame_iffs)

section \<open>Properties\<close>

text \<open>
  C33. A payload key identifies what was declared: two declarations have the same key exactly when they have the
  same schema id and version and declare the same fields with the same values in the same order, a \<open>usize\<close> counting as the
  \<open>u64\<close> it converts to, provided a list field has one element type per field name.
\<close>

theorem payload_key_identifies:
  assumes "str_ok sid" "str_ok sid'" "list_all (field_ok list_field) fs" "list_all (field_ok list_field) gs"
  shows "payload_key sid v fs = payload_key sid' v' gs \<longleftrightarrow>
    sid = sid' \<and> v = v' \<and> map (apsnd normal_value) fs = map (apsnd normal_value) gs"
proof -
  have enc: "map field_enc (map (apsnd normal_value) xs) = map field_enc xs" for xs by (simp add: normal_field(1))
  have ok: "list_all (normal_field_ok list_field) (map (apsnd normal_value) fs)" "list_all (normal_field_ok list_field) (map (apsnd normal_value) gs)"
    using assms(3,4) normal_field(2) by (auto simp: list_all_iff)
  show ?thesis
  proof
    assume "payload_key sid v fs = payload_key sid' v' gs"
    then have "builder_new sid v @ concat (map field_enc fs) = builder_new sid' v' @ concat (map field_enc gs)"
      by (simp add: payload_key_concat)
    from builder_new_frame [OF assms(1,2) this]
    have "sid = sid'" "v = v'" and "concat (map field_enc fs) = concat (map field_enc gs)" by blast+
    then show "sid = sid' \<and> v = v' \<and> map (apsnd normal_value) fs = map (apsnd normal_value) gs"
      using field_frame_code.frame_stream [OF field_enc_nonempty ok] by (simp only: enc)
  next
    assume "sid = sid' \<and> v = v' \<and> map (apsnd normal_value) fs = map (apsnd normal_value) gs"
    then show "payload_key sid v fs = payload_key sid' v' gs" by (metis enc payload_key_concat)
  qed
qed

theorem payload_key_identifies_witness:
  "payload_key (lit ''core/fact'') 1 [(lit ''a'', VOStr None), (lit ''b'', VUuidList [7]), (lit ''c'', VList 1), (lit ''d'', VUsize 4)] \<noteq>
   payload_key (lit ''core/fact'') 1 [(lit ''a'', VOStr (Some [])), (lit ''b'', VUuidList [7]), (lit ''c'', VList 1), (lit ''d'', VUsize 4)]"
  using payload_key_identifies [of "lit ''core/fact''" "lit ''core/fact''" "\<lambda>n. if n = lit ''b'' then UuidElements else FieldElements"
    "[(lit ''a'', VOStr None), (lit ''b'', VUuidList [7]), (lit ''c'', VList 1), (lit ''d'', VUsize 4)]"
    "[(lit ''a'', VOStr (Some [])), (lit ''b'', VUuidList [7]), (lit ''c'', VList 1), (lit ''d'', VUsize 4)]" 1 1]
  by (simp add: str_ok_def scalar_def field_ok_def lit_def str_len_def utf8_def utf8_char_def)

text \<open>
  The element type of a list is not part of its frame, so one element type per field name is needed: a list of strings has
  the key of some list of UUIDs under the same name exactly when its strings are eight bytes long on average.
\<close>

lemma uuid_list_surj: "length bs = 16 * k \<Longrightarrow> \<exists>us. length us = k \<and> concat (map uuid_bytes us) = bs"
proof (induction k arbitrary: bs)
  case (Suc k)
  then have "length (drop 16 bs) = 16 * k" by simp
  from Suc.IH [OF this] obtain us where us: "length us = k" "concat (map uuid_bytes us) = drop 16 bs" by blast
  obtain u where "uuid_bytes u = take 16 bs" using Suc.prems uuid_bytes_surj [of "take 16 bs"] by auto
  with us show ?case by (intro exI [of _ "u # us"]) simp
qed simp

lemma length_uuid_list: "length (concat (map uuid_bytes us)) = 16 * length us"
  by (induction us) (simp_all add: uuid_bytes_def word_be_bytes_def)

lemma length_str_list: "length (concat (map raw_str ss)) = 8 * length ss + sum_list (map str_len ss)"
  by (induction ss) (simp_all add: raw_str_def raw_bytes_def raw_len_def word_be_bytes_def str_len_def)

lemma list_element_type_not_framed:
  assumes "length ss < 2 ^ 64"
  shows "(\<exists>us. length us < 2 ^ 64 \<and> payload_key sid v [(n, VUuidList us)] = payload_key sid v [(n, VStrList ss)]) \<longleftrightarrow>
    sum_list (map str_len ss) = 8 * length ss"
proof -
  have key: "payload_key sid v [(n, VUuidList us)] = payload_key sid v [(n, VStrList ss)] \<longleftrightarrow>
      length us = length ss \<and> concat (map uuid_bytes us) = concat (map raw_str ss)" if "length us < 2 ^ 64" for us
    using len_frame.frame_iff [OF that assms] by (simp add: payload_key_concat field_enc_split value_enc_eqs counted_def)
  show ?thesis
  proof
    assume "\<exists>us. length us < 2 ^ 64 \<and> payload_key sid v [(n, VUuidList us)] = payload_key sid v [(n, VStrList ss)]"
    then obtain us where "length us = length ss" "concat (map uuid_bytes us) = concat (map raw_str ss)" using key by blast
    with length_uuid_list [of us] length_str_list [of ss] show "sum_list (map str_len ss) = 8 * length ss" by simp
  next
    assume "sum_list (map str_len ss) = 8 * length ss"
    with length_str_list [of ss] have "length (concat (map raw_str ss)) = 16 * length ss" by simp
    from uuid_list_surj [OF this] obtain us where "length us = length ss" "concat (map uuid_bytes us) = concat (map raw_str ss)" by blast
    with key assms show "\<exists>us. length us < 2 ^ 64 \<and> payload_key sid v [(n, VUuidList us)] = payload_key sid v [(n, VStrList ss)]" by metis
  qed
qed

end
