(* ===== verification/CanonicalJson.thy ===== *)
theory CanonicalJson
  imports Framing "HOL-Library.Multiset"
begin

text \<open>
  The canonical JSON writer (\<open>crates/core/src/canonical_json.rs\<close>). Number and string formatting is
  serde_json's: \<open>num\<close> and \<open>qt\<close> are parameters, and \<open>serde_scalars\<close> states what is relied on: a number starts
  with a digit or a minus sign, has no structural byte and is written one way; a string starts with a quote and
  says where it ends. The keys of an object are distinct, so looking each sorted key up again finds the member it
  came from: the members are written in key order.
\<close>

section \<open>Writer\<close>

text \<open>Keys are sorted as strings, by their bytes.\<close>

definition key_bytes :: "str \<times> 'v \<Rightarrow> byte list" where
  "key_bytes kv = utf8 (fst kv)"

fun comma_separated :: "byte list list \<Rightarrow> byte list" where
  "comma_separated [] = []"
| "comma_separated [x] = x"
| "comma_separated (x # y # xs) = x @ 44 # comma_separated (y # xs)"

fun write_canonical_json :: "(json_number \<Rightarrow> byte list) \<Rightarrow> (str \<Rightarrow> byte list) \<Rightarrow> json \<Rightarrow> byte list" where
  "write_canonical_json num qt JNull = utf8 (lit ''null'')"
| "write_canonical_json num qt (JBool b) = (if b then utf8 (lit ''true'') else utf8 (lit ''false''))"
| "write_canonical_json num qt (JNumber n) = num n"
| "write_canonical_json num qt (JString s) = qt s"
| "write_canonical_json num qt (JArray items) =
     91 # comma_separated (map (write_canonical_json num qt) items) @ [93]"
| "write_canonical_json num qt (JObject m) =
     123 # comma_separated (map (\<lambda>(k, bytes). qt k @ 58 # bytes)
       (sort_key key_bytes (map (\<lambda>(k, v). (k, write_canonical_json num qt v)) m))) @ [125]"

definition canonical_json_bytes :: "(json_number \<Rightarrow> byte list) \<Rightarrow> (str \<Rightarrow> byte list) \<Rightarrow> json \<Rightarrow> byte list" where
  "canonical_json_bytes num qt v = write_canonical_json num qt v"

text \<open>A JSON value with the members of its objects in key order, at every depth.\<close>

fun key_ordered :: "json \<Rightarrow> json" where
  "key_ordered (JArray items) = JArray (map key_ordered items)"
| "key_ordered (JObject m) = JObject (sort_key key_bytes (map (\<lambda>(k, v). (k, key_ordered v)) m))"
| "key_ordered v = v"

section \<open>The bytes of a key-ordered value\<close>

fun emit :: "(json_number \<Rightarrow> byte list) \<Rightarrow> (str \<Rightarrow> byte list) \<Rightarrow> json \<Rightarrow> byte list" where
  "emit num qt JNull = utf8 (lit ''null'')"
| "emit num qt (JBool b) = (if b then utf8 (lit ''true'') else utf8 (lit ''false''))"
| "emit num qt (JNumber n) = num n"
| "emit num qt (JString s) = qt s"
| "emit num qt (JArray items) = 91 # comma_separated (map (emit num qt) items) @ [93]"
| "emit num qt (JObject m) = 123 # comma_separated (map (\<lambda>(k, v). qt k @ 58 # emit num qt v) m) @ [125]"

lemma insort_key_map_snd:
  "insort_key key_bytes (k, f v) (map (\<lambda>(k, v). (k, f v)) m) = map (\<lambda>(k, v). (k, f v)) (insort_key key_bytes (k, v) m)"
  by (induction m) (auto simp: key_bytes_def)

lemma sort_key_map_snd: "sort_key key_bytes (map (\<lambda>(k, v). (k, f v)) m) = map (\<lambda>(k, v). (k, f v)) (sort_key key_bytes m)"
  by (induction m) (auto simp: insort_key_map_snd [symmetric])

lemma write_canonical_emit: "write_canonical_json num qt v = emit num qt (key_ordered v)"
proof (induction v)
  case (JArray items)
  then have "map (write_canonical_json num qt) items = map (emit num qt) (map key_ordered items)" by simp
  then show ?case by (simp del: map_map)
next
  case (JObject m)
  then have "map (\<lambda>(k, v). (k, write_canonical_json num qt v)) m = map (\<lambda>(k, v). (k, emit num qt v)) (map (\<lambda>(k, v). (k, key_ordered v)) m)"
    by (force simp: snds.simps)
  then have "sort_key key_bytes (map (\<lambda>(k, v). (k, write_canonical_json num qt v)) m) =
      map (\<lambda>(k, v). (k, emit num qt v)) (sort_key key_bytes (map (\<lambda>(k, v). (k, key_ordered v)) m))"
    by (simp only: sort_key_map_snd)
  then show ?case by (simp del: sort_key_def add: comp_def case_prod_unfold)
qed simp_all

definition delimited :: "byte list \<Rightarrow> bool" where
  "delimited r \<longleftrightarrow> r = [] \<or> hd r \<in> {44, 93, 125}"

definition serde_scalars :: "(json_number \<Rightarrow> byte list) \<Rightarrow> (str \<Rightarrow> byte list) \<Rightarrow> bool" where
  "serde_scalars num qt \<longleftrightarrow>
     inj num \<and> (\<forall>n. num n \<noteq> [] \<and> hd (num n) \<in> set (45 # map of_nat [48..<58]) \<and> set (num n) \<inter> {44, 93, 125} = {}) \<and>
     (\<forall>s. \<exists>t. qt s = 34 # t) \<and>
     frame_code str_ok qt"

lemma serde_number: "serde_scalars num qt \<Longrightarrow>
    num n \<noteq> [] \<and> hd (num n) \<in> set (45 # map of_nat [48..<58]) \<and> set (num n) \<inter> {44, 93, 125} = {}"
  unfolding serde_scalars_def by blast

lemma serde_quote: "serde_scalars num qt \<Longrightarrow> \<exists>t. qt s = 34 # t"
  unfolding serde_scalars_def by blast

lemma serde_num_inj: "serde_scalars num qt \<Longrightarrow> num n = num n' \<Longrightarrow> n = n'"
  unfolding serde_scalars_def by (elim conjE) (rule injD)

lemma serde_str: "serde_scalars num qt \<Longrightarrow> str_ok s \<Longrightarrow> str_ok t \<Longrightarrow> qt s @ r = qt t @ r' \<Longrightarrow> s = t \<and> r = r'"
  unfolding serde_scalars_def by (elim conjE) (rule frame_code.frame)

fun json_ok :: "json \<Rightarrow> bool" where
  "json_ok (JString s) = str_ok s"
| "json_ok (JArray items) = list_all json_ok items"
| "json_ok (JObject m) = list_all (\<lambda>(k, v). str_ok k \<and> json_ok v) m"
| "json_ok _ = True"

text \<open>The first byte tells the kind of a value.\<close>

fun json_kind :: "json \<Rightarrow> nat" where
  "json_kind JNull = 0"
| "json_kind (JBool b) = (if b then 1 else 2)"
| "json_kind (JNumber n) = 3"
| "json_kind (JString s) = 4"
| "json_kind (JArray items) = 5"
| "json_kind (JObject m) = 6"

definition kind_of_byte :: "byte \<Rightarrow> nat" where
  "kind_of_byte b = (if b = 110 then 0 else if b = 116 then 1 else if b = 102 then 2
     else if b \<in> set (45 # map of_nat [48..<58]) then 3 else if b = 34 then 4 else if b = 91 then 5 else if b = 123 then 6 else 7)"

lemma kind_of_byte_emit:
  assumes "serde_scalars num qt"
  shows "emit num qt v \<noteq> [] \<and> kind_of_byte (hd (emit num qt v)) = json_kind v"
proof (cases v)
  case (JNumber n)
  have h: "num n \<noteq> []" "hd (num n) \<in> set (45 # map of_nat [48..<58])" using serde_number [OF assms] by blast+
  from h(2) have "hd (num n) \<noteq> 110 \<and> hd (num n) \<noteq> 116 \<and> hd (num n) \<noteq> 102" by (auto simp: upt_rec)
  with h show ?thesis using JNumber by (simp add: kind_of_byte_def)
next
  case (JString s)
  obtain t where "qt s = 34 # t" using serde_quote [OF assms] ..
  with JString show ?thesis by (simp add: kind_of_byte_def upt_rec)
qed (simp_all add: kind_of_byte_def utf8_char_def upt_rec)

lemma emit_not_delimited: "serde_scalars num qt \<Longrightarrow> emit num qt v \<noteq> [] \<and> \<not> delimited (emit num qt v @ r)"
proof -
  assume "serde_scalars num qt"
  then have h: "emit num qt v \<noteq> []" "kind_of_byte (hd (emit num qt v)) = json_kind v" using kind_of_byte_emit by blast+
  have "json_kind v < 7" by (cases v) auto
  moreover have "kind_of_byte 44 = 7" "kind_of_byte 93 = 7" "kind_of_byte 125 = 7" by (simp_all add: kind_of_byte_def upt_rec)
  ultimately show ?thesis using h by (auto simp: delimited_def)
qed

section \<open>Reading the bytes back\<close>

lemma comma_separated_Cons:
  "comma_separated (map enc (x # xs)) @ t = enc x @ (if xs = [] then t else 44 # comma_separated (map enc xs) @ t)"
  by (cases xs) simp_all

lemma separated_frame:
  assumes el: "\<And>x y r r'. x \<in> set xs \<Longrightarrow> y \<in> set ys \<Longrightarrow> delimited r \<Longrightarrow> delimited r' \<Longrightarrow> enc x @ r = enc y @ r' \<Longrightarrow> x = y \<and> r = r'"
    and nd: "\<And>x r. \<not> delimited (enc x @ r)" and c: "c \<in> {93, 125}"
    and eq: "comma_separated (map enc xs) @ c # r = comma_separated (map enc ys) @ c # r'"
  shows "xs = ys \<and> r = r'"
  using el eq
proof (induction xs arbitrary: ys)
  case Nil
  have "delimited (c # r)" using c by (auto simp: delimited_def)
  then show ?case
  proof (cases ys)
    case (Cons y ys')
    with Nil.prems(2) obtain t where "c # r = enc y @ t" unfolding Cons comma_separated_Cons by simp
    with \<open>delimited (c # r)\<close> nd [of y t] show ?thesis by simp
  qed (use Nil.prems(2) in simp)
next
  case (Cons x xs)
  let ?tail = "\<lambda>zs t. if zs = [] then c # t else 44 # comma_separated (map enc zs) @ c # t"
  have d: "delimited (?tail zs t)" for zs t using c by (auto simp: delimited_def)
  show ?case
  proof (cases ys)
    case Nil
    have "delimited (c # r')" using c by (auto simp: delimited_def)
    moreover obtain t where "enc x @ t = c # r'" using Cons.prems(2) unfolding Nil comma_separated_Cons by simp
    ultimately show ?thesis using nd [of x t] by simp
  next
    case ys: (Cons y ys')
    have "enc x @ ?tail xs r = enc y @ ?tail ys' r'" using Cons.prems(2) unfolding ys comma_separated_Cons .
    from Cons.prems(1) [OF _ _ d d this] ys have xy: "x = y" and t: "?tail xs r = ?tail ys' r'" by simp_all
    show ?thesis
    proof (cases "xs = [] \<or> ys' = []")
      case True
      with t xy ys c show ?thesis by (auto split: if_splits)
    next
      case False
      with t have "comma_separated (map enc xs) @ c # r = comma_separated (map enc ys') @ c # r'" by simp
      note eq' = this
      have "a = b \<and> t = t'" if ab: "a \<in> set xs" "b \<in> set ys'" and rest: "delimited t" "delimited t'" "enc a @ t = enc b @ t'" for a b t t'
        using Cons.prems(1) [OF _ _ rest] ab unfolding ys list.set by blast
      from Cons.IH [OF this eq'] have "xs = ys' \<and> r = r'" .
      with xy ys show ?thesis by simp
    qed
  qed
qed

lemma num_frame:
  assumes "serde_scalars num qt" "delimited r" "delimited r'" "num n @ r = num n' @ r'"
  shows "n = n' \<and> r = r'"
proof -
  define p where "p \<equiv> \<lambda>b :: byte. b \<notin> {44, 93, 125}"
  have "takeWhile p (num m @ t) = num m" if "delimited t" for m t
  proof -
    have "\<forall>b \<in> set (num m). p b" using serde_number [OF assms(1), of m] by (auto simp: p_def)
    moreover have "takeWhile p t = []" using that by (cases t) (auto simp: delimited_def p_def)
    ultimately show ?thesis by simp
  qed
  from this [OF assms(2), of n] this [OF assms(3), of n'] assms(4) have "num n = num n'" by simp
  with assms(4) serde_num_inj [OF assms(1)] show ?thesis by simp
qed

lemma emit_same_kind:
  assumes "serde_scalars num qt" "emit num qt v @ r = emit num qt w @ r'"
  shows "json_kind v = json_kind w"
proof -
  have "emit num qt v \<noteq> []" "emit num qt w \<noteq> []"
    and k: "kind_of_byte (hd (emit num qt v)) = json_kind v" "kind_of_byte (hd (emit num qt w)) = json_kind w"
    using kind_of_byte_emit [OF assms(1)] by blast+
  then have "hd (emit num qt v) = hd (emit num qt w)" using arg_cong [OF assms(2), of hd] by (simp add: hd_append)
  with k show ?thesis by simp
qed

lemma json_kind_eqs:
  "json_kind w = 0 \<longleftrightarrow> w = JNull" "json_kind w = 1 \<longleftrightarrow> w = JBool True" "json_kind w = 2 \<longleftrightarrow> w = JBool False"
  "json_kind w = 3 \<longleftrightarrow> (\<exists>n. w = JNumber n)" "json_kind w = 4 \<longleftrightarrow> (\<exists>s. w = JString s)"
  "json_kind w = 5 \<longleftrightarrow> (\<exists>xs. w = JArray xs)" "json_kind w = 6 \<longleftrightarrow> (\<exists>m. w = JObject m)"
  by (cases w; simp)+

lemma member_not_delimited: "serde_scalars num qt \<Longrightarrow> \<not> delimited ((case kv of (k, v) \<Rightarrow> qt k @ 58 # emit num qt v) @ r)"
  using serde_quote [of num qt "fst kv"] by (auto simp: delimited_def split: prod.split)

lemma emit_frame:
  assumes ser: "serde_scalars num qt"
  shows "json_ok v \<Longrightarrow> json_ok w \<Longrightarrow> delimited r \<Longrightarrow> delimited r' \<Longrightarrow> emit num qt v @ r = emit num qt w @ r' \<Longrightarrow> v = w \<and> r = r'"
proof (induction v arbitrary: w r r')
  case (JNumber n)
  from emit_same_kind [OF ser JNumber(5)] obtain n' where w: "w = JNumber n'" by (auto simp: json_kind_eqs)
  with num_frame [OF ser JNumber(3,4), of n n'] JNumber(5) show ?case by simp
next
  case (JString s)
  from emit_same_kind [OF ser JString(5)] obtain t where w: "w = JString t" by (auto simp: json_kind_eqs)
  with serde_str [OF ser, of s t r r'] JString(1,2,5) show ?case by simp
next
  case (JArray xs)
  from emit_same_kind [OF ser JArray(6)] obtain ys where w: "w = JArray ys" by (auto simp: json_kind_eqs)
  from JArray(6) have eq: "comma_separated (map (emit num qt) xs) @ 93 # r = comma_separated (map (emit num qt) ys) @ 93 # r'"
    by (simp add: w)
  have "x = y \<and> t = t'" if "x \<in> set xs" "y \<in> set ys" "delimited t" "delimited t'" "emit num qt x @ t = emit num qt y @ t'" for x y t t'
    using JArray(2,3) that(1,2) by (intro JArray(1) [OF that(1) _ _ that(3-5)]) (auto simp: w list_all_iff)
  from separated_frame [OF this _ _ eq] emit_not_delimited [OF ser] have "xs = ys \<and> r = r'" by blast
  with w show ?case by simp
next
  case (JObject m)
  from emit_same_kind [OF ser JObject(6)] obtain m' where w: "w = JObject m'" by (auto simp: json_kind_eqs)
  let ?e = "\<lambda>(k, v). qt k @ 58 # emit num qt v"
  from JObject(6) have eq: "comma_separated (map ?e m) @ 125 # r = comma_separated (map ?e m') @ 125 # r'" by (simp add: w)
  have "a = b \<and> t = t'" if ab: "a \<in> set m" "b \<in> set m'" and d: "delimited t" "delimited t'" and e: "?e a @ t = ?e b @ t'" for a b t t'
  proof -
    obtain k x l y where kv: "a = (k, x)" "b = (l, y)" by (cases a, cases b)
    have ok: "str_ok k" "json_ok x" "str_ok l" "json_ok y" using JObject(2,3) ab by (auto simp: w kv list_all_iff)
    from e have "qt k @ (58 # emit num qt x @ t) = qt l @ (58 # emit num qt y @ t')" by (simp add: kv)
    from serde_str [OF ser ok(1,3) this] have "k = l" "emit num qt x @ t = emit num qt y @ t'" by simp_all
    moreover have "x \<in> Basic_BNFs.snds a" by (simp add: kv)
    ultimately show ?thesis using JObject(1) [OF ab(1) _ ok(2,4) d] by (simp add: kv)
  qed
  from separated_frame [OF this _ _ eq] member_not_delimited [OF ser] have "m = m' \<and> r = r'" by blast
  with w show ?case by simp
next
  case JNull
  from emit_same_kind [OF ser JNull(5)] have "w = JNull" by (simp add: json_kind_eqs flip: json_kind_eqs(1))
  with JNull(5) show ?case by simp
next
  case (JBool b)
  from emit_same_kind [OF ser JBool(5)] have "w = JBool b" by (cases b; cases w) (simp_all split: if_splits)
  with JBool(5) show ?case by simp
qed

section \<open>Properties\<close>

lemma json_ok_key_ordered: "json_ok v \<Longrightarrow> json_ok (key_ordered v)"
proof (induction v)
  case (JObject m)
  then have "json_ok (key_ordered x)" if "(k, x) \<in> set m" for k x
    using that JObject.IH [OF that, of x] by (auto simp: list_all_iff)
  with JObject.prems show ?case by (auto simp: list_all_iff)
qed (simp_all add: list_all_iff)

lemma key_ordered_mset:
  assumes "mset m = mset m'" "distinct (map fst m)" "json_ok (JObject m)"
  shows "key_ordered (JObject m) = key_ordered (JObject m')"
proof -
  let ?n = "\<lambda>(k, v). (k, key_ordered v)"
  have "(k, v) = (k', v')" if "(k, v) \<in> set m" "(k', v') \<in> set m" "utf8 k = utf8 k'" for k v k' v'
  proof -
    have "list_all scalar k" "list_all scalar k'" using assms(3) that(1,2) by (auto simp: list_all_iff str_ok_def)
    from utf8_inj [OF this that(3)] show ?thesis using assms(2) that(1,2) by (auto dest: eq_key_imp_eq_value)
  qed
  then have inj: "inj_on key_bytes (set m)" by (auto simp: inj_on_def key_bytes_def)
  have "sort_key key_bytes m = sort_key key_bytes m'"
    using assms(1) inj by (intro sort_key_inj_key_eq) simp_all
  then show ?thesis by (simp add: sort_key_map_snd)
qed

text \<open>
  C32. Canonical bytes identify a JSON value up to the order of object members: two values have the same bytes
  exactly when they are equal once the members of every object are put in key order; in particular the order the
  members of an object came in does not show.
\<close>

theorem canonical_json_identifies:
  assumes "serde_scalars num qt" "json_ok v" "json_ok w"
  shows "(canonical_json_bytes num qt v = canonical_json_bytes num qt w \<longleftrightarrow> key_ordered v = key_ordered w) \<and>
    (v = JObject m \<and> distinct (map fst m) \<and> mset m' = mset m \<longrightarrow>
       canonical_json_bytes num qt (JObject m') = canonical_json_bytes num qt v)"
proof -
  have "key_ordered v = key_ordered w" if "emit num qt (key_ordered v) = emit num qt (key_ordered w)"
    using emit_frame [OF assms(1) json_ok_key_ordered [OF assms(2)] json_ok_key_ordered [OF assms(3)], of "[]" "[]"] that
    by (simp add: delimited_def)
  moreover have "key_ordered (JObject m') = key_ordered v" if "v = JObject m" "distinct (map fst m)" "mset m' = mset m"
    using key_ordered_mset [of m m'] that assms(2) by simp
  ultimately show ?thesis unfolding canonical_json_bytes_def write_canonical_emit by metis
qed

section \<open>A formatter with serde's scalars\<close>

definition escape_char :: "nat \<Rightarrow> byte list" where
  "escape_char c = (if c = 34 then [92, 34] else if c = 92 then [92, 92] else utf8_char c)"

definition quote_string :: "str \<Rightarrow> byte list" where
  "quote_string s = 34 # concat (map escape_char s) @ [34]"

fun number_text :: "json_number \<Rightarrow> str" where
  "number_text (NumInt i) = (if i < 0 then 45 # display_nat (nat (- i)) else display_nat (nat i))"
| "number_text (NumFloat b) = display_nat (unat b) @ [46]"

definition number_bytes :: "json_number \<Rightarrow> byte list" where
  "number_bytes n = map of_nat (number_text n)"

lemma utf8_char_ascii_head:
  assumes "scalar c" "c \<noteq> d" "d < 128"
  shows "hd (utf8_char c) \<noteq> of_nat d \<and> utf8_char c \<noteq> []"
proof -
  from assms(1) have "map unat (utf8_char c) = utf8_head c # utf8_tail c" by (intro utf8_char_nats) (auto simp: scalar_def)
  then have "unat (hd (utf8_char c)) = utf8_head c" "utf8_char c \<noteq> []" by (auto simp: map_eq_Cons_conv)
  moreover have "utf8_head c \<noteq> d" using assms(2,3) by auto
  ultimately show ?thesis using assms(3) byte_unat [of d] by auto
qed

interpretation escape_frame: frame_code scalar escape_char
proof
  fix c d r r'
  assume sc: "scalar c" "scalar d" and eq: "escape_char c @ r = escape_char d @ r'"
  have head: "hd (escape_char e) = 92 \<longleftrightarrow> e = 34 \<or> e = 92" if "scalar e" for e
    using utf8_char_ascii_head [OF that, of 92] by (auto simp: escape_char_def)
  have ne: "escape_char e \<noteq> []" for e using utf8_char_len(1) [of e] by (auto simp: escape_char_def)
  have "hd (escape_char c) = hd (escape_char d)" using arg_cong [OF eq, of hd] ne by (simp add: hd_append)
  then have "(c = 34 \<or> c = 92) \<longleftrightarrow> (d = 34 \<or> d = 92)" using head [OF sc(1)] head [OF sc(2)] by simp
  then show "c = d \<and> r = r'"
    using eq char_frame.frame [OF sc, of r r'] by (auto simp: escape_char_def split: if_splits)
qed

lemma quote_string_frame: "frame_code str_ok quote_string"
proof
  fix s t r r'
  assume ok: "str_ok s" "str_ok t" and "quote_string s @ r = quote_string t @ r'"
  then have eq: "concat (map escape_char s) @ 34 # r = concat (map escape_char t) @ 34 # r'" by (simp add: quote_string_def)
  have "escape_char c \<noteq> [] \<and> hd (escape_char c) \<noteq> 34" if "scalar c" for c
    using utf8_char_ascii_head [OF that, of 34] by (auto simp: escape_char_def)
  from escape_frame.frame_terminated [OF this _ _ eq] ok show "s = t \<and> r = r'" by (auto simp: str_ok_def)
qed

lemma display_nat_range: "c \<in> set (display_nat n) \<Longrightarrow> 48 \<le> c \<and> c \<le> 57"
  using display_nat_digits [of c n] by (simp add: is_ascii_digit_def)

lemma display_nat_nonempty: "display_nat n \<noteq> []"
  by (subst display_nat.simps) simp

lemma display_nat_inj: "display_nat m = display_nat n \<Longrightarrow> m = n"
  by (metis digits_value_display)

lemma number_text_range: "c \<in> set (number_text n) \<Longrightarrow> c = 45 \<or> c = 46 \<or> (48 \<le> c \<and> c \<le> 57)"
  by (cases n) (auto simp: split: if_splits dest: display_nat_range)

lemma number_text_head: "number_text n \<noteq> [] \<and> (hd (number_text n) = 45 \<or> (48 \<le> hd (number_text n) \<and> hd (number_text n) \<le> 57))"
proof (cases n)
  case (NumInt i)
  then show ?thesis using display_nat_range [OF hd_in_set [OF display_nat_nonempty]] display_nat_nonempty by simp
next
  case (NumFloat b)
  then show ?thesis using display_nat_range [OF hd_in_set [OF display_nat_nonempty]] display_nat_nonempty by (simp add: hd_append)
qed

lemma display_nat_ne: "display_nat m \<noteq> 45 # s" "display_nat m \<noteq> s @ [46]"
  using display_nat_range [of 45 m] display_nat_range [of 46 m] by auto

lemma number_text_inj: "number_text m = number_text n \<Longrightarrow> m = n"
proof (cases m; cases n)
  fix i j
  assume "number_text m = number_text n" "m = NumInt i" "n = NumInt j"
  then show ?thesis
    by (auto simp: display_nat_ne display_nat_ne(1) [THEN not_sym] split: if_splits dest!: display_nat_inj)
next
  fix i b
  assume "number_text m = number_text n" "m = NumInt i" "n = NumFloat b"
  then have "46 \<in> set (number_text (NumInt i))" by simp
  then show ?thesis by (auto split: if_splits dest: display_nat_range)
next
  fix i b
  assume "number_text m = number_text n" "m = NumFloat b" "n = NumInt i"
  then have "46 \<in> set (number_text (NumInt i))" by (metis in_set_conv_decomp number_text.simps(2))
  then show ?thesis by (auto split: if_splits dest: display_nat_range)
next
  fix a b
  assume "number_text m = number_text n" "m = NumFloat a" "n = NumFloat b"
  then show ?thesis by (auto intro: unsigned_word_eqI dest!: display_nat_inj)
qed

lemma number_bytes_text: "map unat (number_bytes n) = number_text n"
  unfolding number_bytes_def map_map
  by (rule map_idI) (use number_text_range in \<open>fastforce simp: byte_unat\<close>)

lemma serde_scalars_instance: "serde_scalars number_bytes quote_string"
  unfolding serde_scalars_def
proof (intro conjI allI)
  show "inj number_bytes" by (rule injI) (metis number_bytes_text number_text_inj)
next
  fix n
  show "number_bytes n \<noteq> []" using number_text_head [of n] by (simp add: number_bytes_def)
next
  fix n
  define c where "c = hd (number_text n)"
  have "hd (number_bytes n) = of_nat c" using number_text_head [of n] by (simp add: number_bytes_def hd_map c_def)
  moreover have "c = 45 \<or> c \<in> set [48..<58]" using number_text_head [of n] by (auto simp: c_def simp del: upt_rec_numeral)
  ultimately show "hd (number_bytes n) \<in> set (45 # map of_nat [48..<58])" by (auto simp del: upt_rec_numeral)
next
  fix n
  have "unat b \<noteq> 44 \<and> unat b \<noteq> 93 \<and> unat b \<noteq> 125" if "b \<in> set (number_bytes n)" for b
    using number_text_range [of "unat b" n] that by (auto simp flip: number_bytes_text)
  from this [of 44] this [of 93] this [of 125] show "set (number_bytes n) \<inter> {44, 93, 125} = {}" by auto
next
  fix s
  show "\<exists>t. quote_string s = 34 # t" by (simp add: quote_string_def)
next
  show "frame_code str_ok quote_string" by (rule quote_string_frame)
qed

theorem canonical_json_identifies_witness:
  "canonical_json_bytes number_bytes quote_string (JObject [(lit ''b'', JNumber (NumInt 1)), (lit ''a'', JNull)]) =
     canonical_json_bytes number_bytes quote_string (JObject [(lit ''a'', JNull), (lit ''b'', JNumber (NumInt 1))]) \<and>
   canonical_json_bytes number_bytes quote_string (JObject [(lit ''b'', JNumber (NumInt 1)), (lit ''a'', JNull)]) \<noteq>
     canonical_json_bytes number_bytes quote_string (JArray [JNull])"
proof -
  have ok: "json_ok (JObject [(lit ''b'', JNumber (NumInt 1)), (lit ''a'', JNull)])" "json_ok (JArray [JNull])"
    by (simp_all add: str_ok_def scalar_def str_len_def utf8_char_def)
  from canonical_json_identifies [OF serde_scalars_instance ok,
      of "[(lit ''b'', JNumber (NumInt 1)), (lit ''a'', JNull)]" "[(lit ''a'', JNull), (lit ''b'', JNumber (NumInt 1))]"]
  show ?thesis by simp
qed

end
