(* ===== verification/Idempotency.thy ===== *)
theory Idempotency
  imports CanonicalJson
begin

text \<open>
  Idempotency keys, content fingerprints and the verdict on a keyed request
  (\<open>crates/core/src/verbs/idempotency.rs\<close>). The BLAKE3 hash \<open>b3\<close>, hexadecimal encoding \<open>hx\<close>, the
  uuid crate's hyphenated form \<open>hyph\<close> and serde's scalar formatting \<open>num\<close>, \<open>qt\<close> are parameters; a hasher is the
  list of bytes it was fed. A \<open>len() as u64\<close> is the length modulo 2 to the 64.
\<close>

section \<open>Keys\<close>

definition MAX_CHARS :: nat where "MAX_CHARS = 180"

definition idempotency_key_new :: "str \<Rightarrow> (str, str) result" where
  "idempotency_key_new raw = map_err (\<lambda>v. violation_reason v (lit ''idempotency_key'')) (check_trimmed_len raw MAX_CHARS)"

definition new_bounded :: "str \<Rightarrow> nat \<Rightarrow> str \<Rightarrow> (str, str) result" where
  "new_bounded raw bound hint =
     map_err (\<lambda>v. violation_reason v (lit ''idempotency_key'') @ lit '' '' @ hint) (check_trimmed_len raw (min bound MAX_CHARS))"

definition generated :: "(uuid \<Rightarrow> str) \<Rightarrow> str \<Rightarrow> uuid \<Rightarrow> str" where
  "generated hyph pfx now_v7 = pfx @ lit '':'' @ hyph now_v7"

definition optional_or_generated :: "(uuid \<Rightarrow> str) \<Rightarrow> str \<Rightarrow> str option \<Rightarrow> uuid \<Rightarrow> (str, str) result" where
  "optional_or_generated hyph pfx raw now_v7 = (case raw of None \<Rightarrow> Inr (generated hyph pfx now_v7) | Some r \<Rightarrow> idempotency_key_new r)"

definition child_key :: "str \<Rightarrow> str \<Rightarrow> nat \<Rightarrow> (str, str) result" where
  "child_key key pfx index = idempotency_key_new (pfx @ lit '':'' @ key @ lit '':'' @ display_nat index)"

section \<open>Scopes\<close>

datatype key_scope = KsNote | KsUtterance | KsAbstraction | KsPerspective
  | KsGoalAbstraction goal_handle user_id | KsGoalPerspective goal_handle user_id

fun key_scope_str :: "key_scope \<Rightarrow> str" where
  "key_scope_str KsNote = lit ''note''"
| "key_scope_str KsUtterance = lit ''utterance''"
| "key_scope_str KsAbstraction = lit ''abstraction''"
| "key_scope_str KsPerspective = lit ''perspective''"
| "key_scope_str (KsGoalAbstraction _ _) = lit ''goal/abstraction''"
| "key_scope_str (KsGoalPerspective _ _) = lit ''goal/perspective''"

fun ledger_source :: "(uuid \<Rightarrow> str) \<Rightarrow> key_scope \<Rightarrow> str" where
  "ledger_source hyph (KsGoalAbstraction goal subject) =
     lit ''core/key/'' @ key_scope_str (KsGoalAbstraction goal subject) @ lit ''/'' @ hyph (goal_handle_uuid goal) @ lit ''/'' @ hyph (user_uuid subject)"
| "ledger_source hyph (KsGoalPerspective goal subject) =
     lit ''core/key/'' @ key_scope_str (KsGoalPerspective goal subject) @ lit ''/'' @ hyph (goal_handle_uuid goal) @ lit ''/'' @ hyph (user_uuid subject)"
| "ledger_source hyph scope = lit ''core/key/'' @ key_scope_str scope"

section \<open>Fingerprints\<close>

definition len_be :: "nat \<Rightarrow> byte list" where
  "len_be n = word_be_bytes 8 (of_nat n :: u64)"

definition FINGERPRINT_DOMAIN :: "byte list" where
  "FINGERPRINT_DOMAIN = utf8 (lit ''proxiima-request-v1'')"

definition fp_new :: "key_scope \<Rightarrow> byte list" where
  "fp_new scope = FINGERPRINT_DOMAIN @ [0] @ utf8 (key_scope_str scope)"

definition fp_tag :: "byte list \<Rightarrow> byte list \<Rightarrow> byte list" where
  "fp_tag h name = h @ [0] @ len_be (length name) @ name"

definition fp_present :: "byte list \<Rightarrow> str \<Rightarrow> byte list" where
  "fp_present h field = fp_tag h (utf8 field) @ [1]"

definition fp_absent :: "byte list \<Rightarrow> str \<Rightarrow> byte list" where
  "fp_absent h field = fp_tag h (utf8 field) @ [0]"

definition fp_bytes :: "byte list \<Rightarrow> str \<Rightarrow> byte list \<Rightarrow> byte list" where
  "fp_bytes h field v = fp_present h field @ len_be (length v) @ v"

definition fp_text :: "byte list \<Rightarrow> str \<Rightarrow> str \<Rightarrow> byte list" where
  "fp_text h field v = fp_bytes h field (utf8 (trim v))"

definition schema_payload_bytes :: "(json_number \<Rightarrow> byte list) \<Rightarrow> (str \<Rightarrow> byte list) \<Rightarrow> str \<Rightarrow> u32 \<Rightarrow> json \<Rightarrow> byte list" where
  "schema_payload_bytes num qt sid version payload =
     len_be (str_len sid) @ utf8 sid @ word_be_bytes 4 version @ canonical_json_bytes num qt payload"

definition fp_schema_payload ::
  "(json_number \<Rightarrow> byte list) \<Rightarrow> (str \<Rightarrow> byte list) \<Rightarrow> byte list \<Rightarrow> str \<Rightarrow> str \<Rightarrow> u32 \<Rightarrow> json \<Rightarrow> byte list" where
  "fp_schema_payload num qt h field sid version payload = fp_bytes h field (schema_payload_bytes num qt sid version payload)"

definition fp_uuid_set :: "byte list \<Rightarrow> str \<Rightarrow> uuid list \<Rightarrow> byte list" where
  "fp_uuid_set h field ids = (let ids = remdups_adj (sort ids) in
     fp_present h field @ len_be (length ids) @ concat (map uuid_bytes ids))"

text \<open>Tags are compared and ordered as strings, that is by their bytes.\<close>

definition normal_tags :: "str list \<Rightarrow> str list" where
  "normal_tags tags = filter (\<lambda>t. t \<noteq> []) (map (\<lambda>t. to_ascii_lowercase (trim t)) tags)"

definition fp_tags :: "byte list \<Rightarrow> str list \<Rightarrow> byte list" where
  "fp_tags h tags = (let tags = remdups_adj (sort (map utf8 (normal_tags tags))) in
     fp_present h (lit ''tags'') @ len_be (length tags) @ concat (map (\<lambda>t. len_be (length t) @ t) tags))"

text \<open>The calls a request makes on the builder, and the fingerprint of a sequence of them.\<close>

datatype fp_call = CallText str str | CallAbsent str | CallBytes str "byte list" | CallPayload str str u32 json
  | CallUuids str "uuid list" | CallTags "str list"

fun fp_apply :: "(json_number \<Rightarrow> byte list) \<Rightarrow> (str \<Rightarrow> byte list) \<Rightarrow> byte list \<Rightarrow> fp_call \<Rightarrow> byte list" where
  "fp_apply num qt h (CallText f v) = fp_text h f v"
| "fp_apply num qt h (CallAbsent f) = fp_absent h f"
| "fp_apply num qt h (CallBytes f v) = fp_bytes h f v"
| "fp_apply num qt h (CallPayload f sid version v) = fp_schema_payload num qt h f sid version v"
| "fp_apply num qt h (CallUuids f ids) = fp_uuid_set h f ids"
| "fp_apply num qt h (CallTags ts) = fp_tags h ts"

definition fp_build :: "(byte list \<Rightarrow> byte list) \<Rightarrow> byte list \<Rightarrow> byte list" where
  "fp_build b3 h = b3 h"

definition fingerprint_input :: "(json_number \<Rightarrow> byte list) \<Rightarrow> (str \<Rightarrow> byte list) \<Rightarrow> key_scope \<Rightarrow> fp_call list \<Rightarrow> byte list" where
  "fingerprint_input num qt scope calls = foldl (fp_apply num qt) (fp_new scope) calls"

section \<open>Requests and verdicts\<close>

record request_key =
  rk_scope :: key_scope
  rk_key :: str
  rk_fingerprint :: "byte list"

definition request_row_key :: "(byte list \<Rightarrow> byte list) \<Rightarrow> (byte list \<Rightarrow> str) \<Rightarrow> request_key \<Rightarrow> str" where
  "request_row_key b3 hx rk = lit ''r:'' @ hx (b3 (utf8 (rk_key rk)))"

definition fingerprint_row_input :: "request_key \<Rightarrow> byte list" where
  "fingerprint_row_input rk = len_be (length (utf8 (rk_key rk))) @ utf8 (rk_key rk) @ rk_fingerprint rk"

definition fingerprint_row_key :: "(byte list \<Rightarrow> byte list) \<Rightarrow> (byte list \<Rightarrow> str) \<Rightarrow> request_key \<Rightarrow> str" where
  "fingerprint_row_key b3 hx rk = lit ''f:'' @ hx (b3 (fingerprint_row_input rk))"

datatype 'h key_verdict = KvFresh | KvReplay 'h

record key_conflict =
  kc_key :: str
  kc_existing :: uuid

definition judge :: "('h \<Rightarrow> uuid) \<Rightarrow> ('h \<times> bool) option \<Rightarrow> str \<Rightarrow> (key_conflict, 'h key_verdict) result" where
  "judge as_existing_uuid stored key =
     (case stored of
        None \<Rightarrow> Inr KvFresh
      | Some (h, True) \<Rightarrow> Inr (KvReplay h)
      | Some (h, False) \<Rightarrow> Inl \<lparr>kc_key = key, kc_existing = as_existing_uuid h\<rparr>)"

section \<open>What a fingerprint says\<close>

text \<open>
  What a call writes under its field: nothing, a byte string, an id set or a tag set. Text is written as its trimmed bytes and
  a payload as its schema, version and canonical JSON; neither is marked as such, so the frame of a field has three shapes.
  \<open>shapes\<close> gives the shape a field name has; an absent value fits every shape.
\<close>

datatype field_shape = SBytes | SIds | STags

datatype fp_content = FAbsent | FBytes "byte list" | FIds "uuid set" | FTags "str set"

fun call_content :: "(json_number \<Rightarrow> byte list) \<Rightarrow> (str \<Rightarrow> byte list) \<Rightarrow> fp_call \<Rightarrow> str \<times> fp_content" where
  "call_content num qt (CallText f v) = (f, FBytes (utf8 (trim v)))"
| "call_content num qt (CallAbsent f) = (f, FAbsent)"
| "call_content num qt (CallBytes f v) = (f, FBytes v)"
| "call_content num qt (CallPayload f sid version v) = (f, FBytes (schema_payload_bytes num qt sid version v))"
| "call_content num qt (CallUuids f ids) = (f, FIds (set ids))"
| "call_content num qt (CallTags ts) = (lit ''tags'', FTags (set (normal_tags ts)))"

fun content_enc :: "fp_content \<Rightarrow> byte list" where
  "content_enc FAbsent = [0]"
| "content_enc (FBytes bs) = 1 # raw_bytes bs"
| "content_enc (FIds S) = 1 # counted uuid_bytes (sorted_list_of_set S)"
| "content_enc (FTags S) = 1 # counted raw_bytes (sorted_list_of_set (utf8 ` S))"

fun content_ok :: "field_shape \<Rightarrow> fp_content \<Rightarrow> bool" where
  "content_ok k FAbsent = True"
| "content_ok k (FBytes bs) = (k = SBytes \<and> length bs < 2 ^ 64)"
| "content_ok k (FIds S) = (k = SIds \<and> finite S \<and> card S < 2 ^ 64)"
| "content_ok k (FTags S) = (k = STags \<and> finite S \<and> card S < 2 ^ 64 \<and> Ball S str_ok)"

definition entry_enc :: "str \<times> fp_content \<Rightarrow> byte list" where
  "entry_enc e = 0 # raw_str (fst e) @ content_enc (snd e)"

definition entry_ok :: "(str \<Rightarrow> field_shape) \<Rightarrow> str \<times> fp_content \<Rightarrow> bool" where
  "entry_ok shapes e \<longleftrightarrow> str_ok (fst e) \<and> content_ok (shapes (fst e)) (snd e)"

lemma remdups_adj_sort: "remdups_adj (sort (xs :: 'a::linorder list)) = sorted_list_of_set (set xs)"
proof (rule sorted_distinct_set_unique)
  have "sorted_wrt (<) (remdups_adj ys)" if "sorted ys" for ys :: "'a list"
    using that by (induction ys rule: remdups_adj.induct) (auto simp: less_le)
  then show "distinct (remdups_adj (sort xs))" using strict_sorted_iff by fastforce
qed simp_all

lemma len_be_raw_len: "n < 2 ^ 64 \<Longrightarrow> len_be n = raw_len n"
  by (simp add: len_be_def raw_len_def count_u64_def)

lemma str_ok_length: "str_ok s \<Longrightarrow> length (utf8 s) < 2 ^ 64"
  by (simp add: str_ok_def str_len_def)

lemma inj_on_utf8: "inj_on utf8 (Collect str_ok)"
  using utf8_inj by (auto simp: inj_on_def str_ok_def)

lemma tags_bytes:
  assumes "finite S" "Ball S str_ok"
  shows "list_all (\<lambda>bs. length bs < 2 ^ 64) (sorted_list_of_set (utf8 ` S))" "length (sorted_list_of_set (utf8 ` S)) = card S"
proof -
  show "list_all (\<lambda>bs. length bs < 2 ^ 64) (sorted_list_of_set (utf8 ` S))"
    using assms str_ok_length by (simp add: list_all_iff)
  have "inj_on utf8 S" by (rule inj_on_subset [OF inj_on_utf8]) (use assms in auto)
  then show "length (sorted_list_of_set (utf8 ` S)) = card S" by (simp add: card_image)
qed

lemma counted_len_be:
  assumes "length vs < 2 ^ 64" "list_all (\<lambda>bs. length bs < 2 ^ 64) vs"
  shows "len_be (length vs) @ concat (map (\<lambda>t. len_be (length t) @ t) vs) = counted raw_bytes vs"
proof -
  have "map (\<lambda>t. len_be (length t) @ t) vs = map raw_bytes vs"
    using assms(2) by (auto simp: list_all_iff raw_bytes_def len_be_raw_len)
  then show ?thesis by (simp only: counted_def len_be_raw_len [OF assms(1)])
qed

lemma fp_apply_enc:
  assumes "entry_ok shapes (call_content num qt c)"
  shows "fp_apply num qt h c = h @ entry_enc (call_content num qt c)"
proof -
  have tag: "fp_tag h (utf8 f) = h @ [0] @ raw_str f" if "str_ok f" for f
    using str_ok_length [OF that] by (simp add: fp_tag_def raw_str_def raw_bytes_def len_be_raw_len)
  have bytes: "fp_bytes h f v = h @ [0] @ raw_str f @ [1] @ raw_bytes v" if "str_ok f" "length v < 2 ^ 64" for f v
    using that by (simp add: fp_bytes_def fp_present_def tag raw_bytes_def len_be_raw_len)
  show ?thesis
  proof (cases c)
    case (CallTags ts)
    with assms have ok: "finite (set (normal_tags ts))" "Ball (set (normal_tags ts)) str_ok" "card (set (normal_tags ts)) < 2 ^ 64"
      and f: "str_ok (lit ''tags'')" by (simp_all add: entry_ok_def)
    have "length (sorted_list_of_set (utf8 ` set (normal_tags ts))) < 2 ^ 64" using tags_bytes(2) [OF ok(1,2)] ok(3) by simp
    note counted = counted_len_be [OF this tags_bytes(1) [OF ok(1,2)]]
    show ?thesis
      unfolding CallTags fp_apply.simps fp_tags_def Let_def fp_present_def tag [OF f] remdups_adj_sort set_map append_assoc counted
      by (simp add: entry_enc_def)
  qed (use assms in \<open>simp_all add: entry_ok_def entry_enc_def fp_text_def fp_absent_def fp_schema_payload_def fp_uuid_set_def Let_def
      fp_present_def bytes tag remdups_adj_sort len_be_raw_len counted_def\<close>)
qed

lemma content_frame:
  assumes ok: "content_ok k c" "content_ok k d" and eq: "content_enc c @ r = content_enc d @ r'"
  shows "c = d \<and> r = r'"
proof (cases c)
  case FAbsent
  with eq show ?thesis by (cases d) simp_all
next
  case c: (FBytes bs)
  with eq ok show ?thesis by (cases d) (simp_all add: bytes_frame.frame_iff)
next
  case c: (FIds S)
  with eq ok obtain T where d: "d = FIds T" by (cases d) simp_all
  have "sorted_list_of_set S = sorted_list_of_set T \<and> r = r'"
    using eq ok by (simp add: c d uuid_frame.counted_frame_iff list.pred_True)
  with ok c d show ?thesis by (auto dest: sorted_list_of_set_inject)
next
  case c: (FTags S)
  with eq ok obtain T where d: "d = FTags T" by (cases d) simp_all
  have okS: "finite S" "Ball S str_ok" "card S < 2 ^ 64" and okT: "finite T" "Ball T str_ok" "card T < 2 ^ 64"
    using ok by (simp_all add: c d)
  have "sorted_list_of_set (utf8 ` S) = sorted_list_of_set (utf8 ` T) \<and> r = r'"
    using bytes_frame.counted_frame_iff [OF tags_bytes(1) [OF okS(1,2)] tags_bytes(1) [OF okT(1,2)]] eq
      tags_bytes(2) [OF okS(1,2)] tags_bytes(2) [OF okT(1,2)] okS(3) okT(3) by (simp add: c d)
  then have "utf8 ` S = utf8 ` T" "r = r'" using okS(1) okT(1) by (auto dest: sorted_list_of_set_inject)
  moreover have "S = T" using inj_on_image_eq_iff [OF inj_on_utf8, of S T] calculation(1) okS(2) okT(2) by auto
  ultimately show ?thesis using c d by simp
qed

interpretation entry_frame: frame_code "entry_ok shapes" entry_enc for shapes
proof
  fix e e' r r'
  assume ok: "entry_ok shapes e" "entry_ok shapes e'" and eq: "entry_enc e @ r = entry_enc e' @ r'"
  obtain f x g y where e: "e = (f, x)" "e' = (g, y)" by (cases e, cases e')
  have "f = g" and rest: "content_enc x @ r = content_enc y @ r'"
    using eq ok str_frame.frame_iff [of f g] by (simp_all add: e entry_enc_def entry_ok_def)
  with content_frame [of "shapes f" x y r r'] ok show "e = e' \<and> r = r'" by (simp add: e entry_ok_def)
qed

lemma fingerprint_input_concat:
  assumes "list_all (entry_ok shapes) (map (call_content num qt) calls)"
  shows "fingerprint_input num qt scope calls = fp_new scope @ concat (map entry_enc (map (call_content num qt) calls))"
proof -
  have "foldl (fp_apply num qt) h calls = h @ concat (map entry_enc (map (call_content num qt) calls))" for h
    using assms by (induction calls arbitrary: h) (simp_all add: fp_apply_enc [of shapes])
  then show ?thesis by (simp add: fingerprint_input_def)
qed

lemma fp_new_frame:
  assumes "fp_new s @ r = fp_new t @ r'" "r = [] \<or> hd r = 0" "r' = [] \<or> hd r' = 0"
  shows "key_scope_str s = key_scope_str t \<and> r = r'"
proof -
  have nz: "b \<noteq> 0" if "b \<in> set (utf8 (key_scope_str u))" for b u
    using that by (cases u) (auto simp: utf8_char_def)
  have ascii: "list_all scalar (key_scope_str u)" for u by (cases u) (simp_all add: scalar_def)
  have "takeWhile (\<lambda>b. b \<noteq> 0) (utf8 (key_scope_str u) @ x) = utf8 (key_scope_str u)" if "x = [] \<or> hd x = 0" for u x
    using that nz [of _ u] by (cases x) auto
  from this [OF assms(2), of s] this [OF assms(3), of t] assms(1)
  have "utf8 (key_scope_str s) = utf8 (key_scope_str t)" by (simp add: fp_new_def)
  with assms(1) utf8_inj [OF ascii ascii] show ?thesis by (simp add: fp_new_def)
qed

text \<open>
  When the hash does not collide on the two inputs and each field name has one shape, two fingerprints are equal exactly when the
  kind of write and what every field writes are.
\<close>

lemma fingerprint_frames:
  assumes "list_all (entry_ok shapes) (map (call_content num qt) calls)" "list_all (entry_ok shapes) (map (call_content num qt) calls')"
    and "inj_on b3 {fingerprint_input num qt scope calls, fingerprint_input num qt scope' calls'}"
  shows "fp_build b3 (fingerprint_input num qt scope calls) = fp_build b3 (fingerprint_input num qt scope' calls') \<longleftrightarrow>
    key_scope_str scope = key_scope_str scope' \<and> map (call_content num qt) calls = map (call_content num qt) calls'"
proof -
  let ?enc = "\<lambda>cs. concat (map entry_enc (map (call_content num qt) cs))"
  have head: "?enc cs = [] \<or> hd (?enc cs) = 0" for cs by (cases cs) (simp_all add: entry_enc_def)
  have contents: "map (call_content num qt) calls = map (call_content num qt) calls'" if "?enc calls = ?enc calls'"
    by (rule entry_frame.frame_stream [OF _ assms(1,2) that]) (simp add: entry_enc_def)
  have "fp_new scope @ ?enc calls = fp_new scope' @ ?enc calls' \<longleftrightarrow>
      key_scope_str scope = key_scope_str scope' \<and> map (call_content num qt) calls = map (call_content num qt) calls'" (is "?eq \<longleftrightarrow> ?same")
  proof
    assume ?eq
    from fp_new_frame [OF this head head] contents show ?same by blast
  next
    assume ?same
    then show ?eq by (metis fp_new_def)
  qed
  moreover have "b3 (fingerprint_input num qt scope calls) = b3 (fingerprint_input num qt scope' calls') \<longleftrightarrow>
      fingerprint_input num qt scope calls = fingerprint_input num qt scope' calls'"
    by (rule inj_on_eq_iff [OF assms(3)]) simp_all
  ultimately show ?thesis
    unfolding fp_build_def fingerprint_input_concat [OF assms(1)] fingerprint_input_concat [OF assms(2)] by metis
qed

text \<open>The bytes of a payload tell its schema, its version and its value up to the order of members.\<close>

lemma schema_payload_frame:
  assumes "serde_scalars num qt" "str_ok sid" "str_ok sid'" "json_ok p" "json_ok p'"
  shows "schema_payload_bytes num qt sid version p = schema_payload_bytes num qt sid' version' p' \<longleftrightarrow>
    sid = sid' \<and> version = version' \<and> key_ordered p = key_ordered p'"
proof -
  have enc: "schema_payload_bytes num qt s v x = raw_str s @ word_be_bytes 4 v @ emit num qt (key_ordered x)" if "str_ok s" for s v x
    using str_ok_length [OF that]
    by (simp add: schema_payload_bytes_def raw_str_def raw_bytes_def len_be_raw_len str_len_def canonical_json_bytes_def write_canonical_emit)
  have "emit num qt (key_ordered p) = emit num qt (key_ordered p') \<longleftrightarrow> key_ordered p = key_ordered p'"
    using emit_frame [OF assms(1) json_ok_key_ordered [OF assms(4)] json_ok_key_ordered [OF assms(5)], of "[]" "[]"] by (auto simp: delimited_def)
  then show ?thesis using assms(2,3) by (simp add: enc str_frame.frame_iff word_be_bytes_frame)
qed

section \<open>Key spaces\<close>

text \<open>The hyphenated form of a UUID is 36 characters long and tells the UUID.\<close>

definition uuid_text :: "(uuid \<Rightarrow> str) \<Rightarrow> bool" where
  "uuid_text hyph \<longleftrightarrow> inj hyph \<and> (\<forall>u. length (hyph u) = 36)"

lemma ledger_source_inj:
  assumes "uuid_text hyph" "ledger_source hyph s = ledger_source hyph t"
  shows "s = t"
proof -
  have inj: "hyph u = hyph v \<longleftrightarrow> u = v" and len: "length (hyph u) = 36" for u v
    using assms(1) by (auto simp: uuid_text_def inj_def)
  have split: "hyph a @ 47 # hyph b = hyph c @ 47 # hyph d \<longleftrightarrow> a = c \<and> b = d" for a b c d
    by (simp add: inj len)
  show ?thesis
    using assms(2) by (cases s; cases t) (auto simp: split goal_handle.expand user_id.expand)
qed

text \<open>Lowercase hexadecimal and the hyphenated form, as the hex and uuid crates write them.\<close>

definition hex_digit :: "nat \<Rightarrow> nat" where
  "hex_digit n = (if n < 10 then 48 + n else 87 + n)"

definition hex_encode :: "byte list \<Rightarrow> str" where
  "hex_encode bs = concat (map (\<lambda>b. [hex_digit (unat b div 16), hex_digit (unat b mod 16)]) bs)"

definition hyphenated :: "uuid \<Rightarrow> str" where
  "hyphenated u = (let h = hex_encode (uuid_bytes u) in
     take 8 h @ [45] @ take 4 (drop 8 h) @ [45] @ take 4 (drop 12 h) @ [45] @ take 4 (drop 16 h) @ [45] @ drop 20 h)"

lemma hex_digit_inj: "m < 16 \<Longrightarrow> n < 16 \<Longrightarrow> hex_digit m = hex_digit n \<Longrightarrow> m = n"
  by (simp add: hex_digit_def split: if_splits)

lemma hex_encode_inj: "hex_encode as = hex_encode bs \<Longrightarrow> as = bs"
proof (induction as arbitrary: bs)
  case (Cons a as)
  then obtain b bs' where bs: "bs = b # bs'" by (cases bs) (simp_all add: hex_encode_def)
  with Cons.prems have d: "hex_digit (unat a div 16) = hex_digit (unat b div 16)" "hex_digit (unat a mod 16) = hex_digit (unat b mod 16)"
    and "hex_encode as = hex_encode bs'" by (simp_all add: hex_encode_def)
  with Cons.IH bs have "as = bs'" by simp
  have "unat x div 16 < 16" for x :: byte
  proof -
    have "unat x < 2 ^ LENGTH(8)" by (rule unsigned_less)
    then show ?thesis by simp
  qed
  then have "unat a div 16 = unat b div 16" "unat a mod 16 = unat b mod 16" using d by (auto intro: hex_digit_inj)
  then have "unat a = unat b" by (metis div_mult_mod_eq)
  with \<open>as = bs'\<close> bs show ?case by (simp add: unsigned_word_eqI)
qed (cases bs, simp_all add: hex_encode_def)

lemma hyphenated_text: "uuid_text hyphenated"
proof -
  have nh: "45 \<notin> set (hex_encode bs)" for bs by (auto simp: hex_encode_def hex_digit_def)
  have len: "length (hex_encode (uuid_bytes u)) = 32" for u
  proof -
    have "length (hex_encode bs) = 2 * length bs" for bs by (induction bs) (simp_all add: hex_encode_def)
    then show ?thesis by (simp add: uuid_bytes_def word_be_bytes_def)
  qed
  have parts: "filter (\<lambda>c. c \<noteq> 45) (take i h) = take i h" "filter (\<lambda>c. c \<noteq> 45) (drop i h) = drop i h" if "45 \<notin> set h" for i and h :: str
    using that by (auto simp: filter_id_conv dest: in_set_takeD in_set_dropD)
  have unhyphenated: "filter (\<lambda>c. c \<noteq> 45) (hyphenated u) = hex_encode (uuid_bytes u)" for u
  proof -
    define h where "h = hex_encode (uuid_bytes u)"
    have n: "45 \<notin> set h" "45 \<notin> set (drop 8 h)" "45 \<notin> set (drop 12 h)" "45 \<notin> set (drop 16 h)"
      using nh [of "uuid_bytes u"] by (auto simp: h_def dest: in_set_dropD)
    have "take 8 h @ take 4 (drop 8 h) @ take 4 (drop 12 h) @ take 4 (drop 16 h) @ drop 20 h = h"
      using append_take_drop_id [of 8 h] append_take_drop_id [of 4 "drop 8 h"] append_take_drop_id [of 4 "drop 12 h"]
        append_take_drop_id [of 4 "drop 16 h"] by simp
    then show ?thesis by (simp add: hyphenated_def Let_def flip: h_def) (simp add: parts n)
  qed
  have "inj hyphenated"
    by (rule injI) (metis unhyphenated hex_encode_inj uuid_frame.enc_inj)
  then show ?thesis by (simp add: uuid_text_def hyphenated_def Let_def len)
qed

text \<open>Child keys of one prefix are told apart by their parent and their index.\<close>

lemma trim_id: "s \<noteq> [] \<Longrightarrow> \<not> is_whitespace (hd s) \<Longrightarrow> \<not> is_whitespace (last s) \<Longrightarrow> trim s = s"
  by (simp add: trim_def dropWhile_hd_id hd_rev)

lemma child_key_inj:
  assumes "child_key key pfx i = Inr c" "child_key key' pfx j = Inr c" "pfx \<noteq> []" "\<not> is_whitespace (hd pfx)"
  shows "key = key' \<and> i = j"
proof -
  have digit: "\<not> is_whitespace (last (display_nat n))" and ne: "display_nat n \<noteq> []" for n
    using display_nat_range [OF last_in_set [OF display_nat_nonempty], of n] display_nat_nonempty by (auto simp: is_whitespace_def)
  have "trim (pfx @ lit '':'' @ k @ lit '':'' @ display_nat n) = pfx @ lit '':'' @ k @ lit '':'' @ display_nat n" for k n
    using assms(3,4) digit ne by (intro trim_id) simp_all
  then have eq: "key @ 58 # display_nat i = key' @ 58 # display_nat j"
    using assms(1,2) by (auto simp: child_key_def idempotency_key_new_def check_trimmed_len_def Let_def result_simps split: if_splits)
  have "takeWhile (\<lambda>c. c \<noteq> 58) (rev (k @ 58 # display_nat n)) = rev (display_nat n)" for k n
    using display_nat_range [of 58 n] by (auto simp: takeWhile_append)
  from this [of key i] this [of key' j] eq have "display_nat i = display_nat j" by simp
  with eq display_nat_inj show ?thesis by simp
qed

end
