(* ===== verification/RequestContent.thy ===== *)
theory RequestContent
  imports Idempotency
begin

text \<open>
  The requests the program keys, and the calls each makes on the fingerprint builder: notes
  (\<open>crates/core/src/mcp/core_tools/memory/remember.rs\<close>), utterances (\<open>record_utterance.rs\<close>), derived memories (\<open>derive.rs\<close>),
  forks (\<open>crates/storage-pg/src/verbs/memory_fork.rs\<close>) and Goal work (\<open>crates/storage-pg/src/verbs/goal_work.rs\<close>). Every
  fingerprint the program builds is one of these. Parsing a cited object id is a parameter. The theorems say when two
  requests have the same fingerprint.
\<close>

section \<open>Requests\<close>

record remember_citation =
  rc_cited_object_id :: "str option"
  rc_object_schema_id :: "str option"
  rc_object_schema_version :: "u32 option"
  rc_object_payload :: "json option"

definition unwrap_or :: "'a \<Rightarrow> 'a option \<Rightarrow> 'a" where
  "unwrap_or d x = (case x of None \<Rightarrow> d | Some v \<Rightarrow> v)"

definition fingerprint_citation :: "(str \<Rightarrow> ('e, uuid) result) \<Rightarrow> remember_citation \<Rightarrow> ('e, fp_call) result" where
  "fingerprint_citation parse_id citation =
     (case rc_cited_object_id citation of
        Some raw \<Rightarrow> rbind (parse_id raw) (\<lambda>uuid. Inr (CallBytes (lit ''citation'') (uuid_bytes uuid)))
      | None \<Rightarrow> Inr (CallPayload (lit ''citation'') (unwrap_or [] (rc_object_schema_id citation))
          (unwrap_or 0 (rc_object_schema_version citation)) (unwrap_or JNull (rc_object_payload citation))))"

definition supersedes_call :: "uuid option \<Rightarrow> fp_call" where
  "supersedes_call supersedes = (case supersedes of Some prior \<Rightarrow> CallUuids (lit ''supersedes'') [prior] | None \<Rightarrow> CallAbsent (lit ''supersedes''))"

definition note_calls ::
  "(str \<Rightarrow> ('e, uuid) result) \<Rightarrow> str \<Rightarrow> str \<Rightarrow> str list \<Rightarrow> remember_citation option \<Rightarrow> uuid option \<Rightarrow> ('e, fp_call list) result" where
  "note_calls parse_id title body tags citation supersedes =
     rbind (case citation of None \<Rightarrow> Inr (CallAbsent (lit ''citation'')) | Some c \<Rightarrow> fingerprint_citation parse_id c) (\<lambda>cited.
       Inr [CallText (lit ''title'') title, CallText (lit ''body'') body, CallTags tags, cited, supersedes_call supersedes])"

definition utterance_calls :: "str \<Rightarrow> str \<Rightarrow> str \<Rightarrow> fp_call list" where
  "utterance_calls spoken speaker conversation_id =
     [CallText (lit ''body'') spoken, CallBytes (lit ''speaker'') (utf8 speaker), CallText (lit ''conversation_id'') conversation_id, CallTags []]"

definition dedup :: "'a list \<Rightarrow> 'a list" where
  "dedup xs = foldl (\<lambda>ids x. if x \<in> set ids then ids else ids @ [x]) [] xs"

definition ordered_goal_ids :: "goal_id list \<Rightarrow> byte list" where
  "ordered_goal_ids guided_by = (let ids = dedup guided_by in
     len_be (length ids) @ concat (map (\<lambda>g. uuid_bytes (goal_uuid g)) ids))"

definition derivation_calls ::
  "key_scope \<Rightarrow> str \<Rightarrow> str \<Rightarrow> str list \<Rightarrow> uuid list \<Rightarrow> uuid list \<Rightarrow> uuid option \<Rightarrow> goal_id list \<Rightarrow> fp_call list" where
  "derivation_calls scope title body tags origins external_origins supersedes guided_by =
     [CallText (lit ''title'') title, CallText (lit ''body'') body, CallTags tags, CallBytes (lit ''kind'') (utf8 (key_scope_str scope)),
      CallUuids (lit ''origins'') origins, CallUuids (lit ''external_origins'') external_origins, supersedes_call supersedes,
      (if guided_by = [] then CallAbsent (lit ''guided_by'') else CallBytes (lit ''guided_by'') (ordered_goal_ids guided_by)),
      CallAbsent (lit ''references'')]"

datatype derived_kind = DkAbstraction | DkPerspective

fun derived_scope :: "derived_kind \<Rightarrow> key_scope" where
  "derived_scope DkAbstraction = KsAbstraction"
| "derived_scope DkPerspective = KsPerspective"

fun goal_work_scope :: "derived_kind \<Rightarrow> goal_handle \<Rightarrow> user_id \<Rightarrow> key_scope" where
  "goal_work_scope DkAbstraction goal subject = KsGoalAbstraction goal subject"
| "goal_work_scope DkPerspective goal subject = KsGoalPerspective goal subject"

datatype fork_destination = ForkToOwner | ForkToGoal goal_handle user_id

fun fork_scope :: "fork_destination \<Rightarrow> derived_kind \<Rightarrow> key_scope" where
  "fork_scope (ForkToGoal goal subject) kind = goal_work_scope kind goal subject"
| "fork_scope ForkToOwner kind = derived_scope kind"

fun destination_goal :: "fork_destination \<Rightarrow> uuid list" where
  "destination_goal ForkToOwner = []"
| "destination_goal (ForkToGoal goal _) = [goal_handle_uuid goal]"

definition fork_calls :: "fork_destination \<Rightarrow> uuid \<Rightarrow> uuid \<Rightarrow> fp_call list" where
  "fork_calls destination source target_owner =
     [CallText (lit ''operation'') (lit ''fork''), CallUuids (lit ''source'') [source], CallUuids (lit ''destination_owner'') [target_owner],
      CallUuids (lit ''destination_goal'') (destination_goal destination)]"

text \<open>Goal work moves a keyed request into the Goal's key space, unless it is already there.\<close>

definition goal_work_calls :: "byte list \<Rightarrow> fp_call list" where
  "goal_work_calls original = [CallBytes (lit ''original-fingerprint'') original]"

definition goal_work_request ::
  "(json_number \<Rightarrow> byte list) \<Rightarrow> (str \<Rightarrow> byte list) \<Rightarrow> (byte list \<Rightarrow> byte list) \<Rightarrow> derived_kind \<Rightarrow> goal_handle \<Rightarrow> user_id \<Rightarrow> request_key \<Rightarrow> request_key" where
  "goal_work_request num qt b3 kind goal subject request =
     (let scope = goal_work_scope kind goal subject in
      if rk_scope request = scope then request
      else \<lparr>rk_scope = scope, rk_key = rk_key request,
        rk_fingerprint = fp_build b3 (fingerprint_input num qt scope (goal_work_calls (rk_fingerprint request)))\<rparr>)"

datatype keyed_request =
    RqNote str str "str list" "remember_citation option" "uuid option"
  | RqUtterance str str str
  | RqDerived derived_kind str str "str list" "uuid list" "uuid list" "uuid option" "goal_id list"
  | RqFork fork_destination derived_kind uuid uuid
  | RqGoalWork derived_kind goal_handle user_id "byte list"

fun request_calls :: "(str \<Rightarrow> ('e, uuid) result) \<Rightarrow> keyed_request \<Rightarrow> ('e, key_scope \<times> fp_call list) result" where
  "request_calls parse_id (RqNote title body tags citation supersedes) =
     rbind (note_calls parse_id title body tags citation supersedes) (\<lambda>calls. Inr (KsNote, calls))"
| "request_calls parse_id (RqUtterance spoken speaker conversation_id) = Inr (KsUtterance, utterance_calls spoken speaker conversation_id)"
| "request_calls parse_id (RqDerived kind title body tags origins external supersedes guided_by) =
     Inr (derived_scope kind, derivation_calls (derived_scope kind) title body tags origins external supersedes guided_by)"
| "request_calls parse_id (RqFork destination kind source target_owner) = Inr (fork_scope destination kind, fork_calls destination source target_owner)"
| "request_calls parse_id (RqGoalWork kind goal subject original) = Inr (goal_work_scope kind goal subject, goal_work_calls original)"

definition request_fingerprint ::
  "(json_number \<Rightarrow> byte list) \<Rightarrow> (str \<Rightarrow> byte list) \<Rightarrow> (byte list \<Rightarrow> byte list) \<Rightarrow> (str \<Rightarrow> ('e, uuid) result) \<Rightarrow> keyed_request \<Rightarrow> ('e, byte list) result" where
  "request_fingerprint num qt b3 parse_id r =
     rbind (request_calls parse_id r) (\<lambda>(scope, calls). Inr (fp_build b3 (fingerprint_input num qt scope calls)))"

section \<open>What a request asserts\<close>

text \<open>A citation by id names the parsed id; an inline one its schema, version and payload, with the defaults for what it leaves out.\<close>

datatype cited = CitedId uuid | CitedInline str u32 json

definition cited_of :: "(str \<Rightarrow> ('e, uuid) result) \<Rightarrow> remember_citation \<Rightarrow> ('e, cited) result" where
  "cited_of parse_id citation =
     (case rc_cited_object_id citation of
        Some raw \<Rightarrow> rbind (parse_id raw) (\<lambda>uuid. Inr (CitedId uuid))
      | None \<Rightarrow> Inr (CitedInline (unwrap_or [] (rc_object_schema_id citation)) (unwrap_or 0 (rc_object_schema_version citation))
          (unwrap_or JNull (rc_object_payload citation))))"

text \<open>
  Two citations agree when they are the same reference or the same schema, version and payload up to member order, and
  also when one is by id, the other inline, and the id's sixteen bytes are the bytes of the inline citation.
\<close>

fun same_citation :: "(json_number \<Rightarrow> byte list) \<Rightarrow> (str \<Rightarrow> byte list) \<Rightarrow> cited \<Rightarrow> cited \<Rightarrow> bool" where
  "same_citation num qt (CitedId u) (CitedId v) = (u = v)"
| "same_citation num qt (CitedInline sid version p) (CitedInline sid' version' p') =
     (sid = sid' \<and> version = version' \<and> key_ordered p = key_ordered p')"
| "same_citation num qt (CitedId u) (CitedInline sid version p) = (uuid_bytes u = schema_payload_bytes num qt sid version p)"
| "same_citation num qt (CitedInline sid version p) (CitedId u) = (uuid_bytes u = schema_payload_bytes num qt sid version p)"

fun same_citations :: "(json_number \<Rightarrow> byte list) \<Rightarrow> (str \<Rightarrow> byte list) \<Rightarrow> (str \<Rightarrow> ('e, uuid) result) \<Rightarrow>
    remember_citation option \<Rightarrow> remember_citation option \<Rightarrow> bool" where
  "same_citations num qt parse_id None None = True"
| "same_citations num qt parse_id (Some a) (Some b) =
     (case (cited_of parse_id a, cited_of parse_id b) of (Inr x, Inr y) \<Rightarrow> same_citation num qt x y | _ \<Rightarrow> False)"
| "same_citations num qt parse_id _ _ = False"

text \<open>
  Two requests assert the same: they are of one kind, texts agree after trimming, tags and id lists as sets, guiding Goals in
  order without repetition. Of a fork's or a Goal work's destination only the Goal of a fork counts, not the subject.
\<close>

fun same_request :: "(json_number \<Rightarrow> byte list) \<Rightarrow> (str \<Rightarrow> byte list) \<Rightarrow> (str \<Rightarrow> ('e, uuid) result) \<Rightarrow> keyed_request \<Rightarrow> keyed_request \<Rightarrow> bool" where
  "same_request num qt parse_id (RqNote title body tags citation supersedes) (RqNote title' body' tags' citation' supersedes') =
     (trim title = trim title' \<and> trim body = trim body' \<and> set (normal_tags tags) = set (normal_tags tags') \<and>
      same_citations num qt parse_id citation citation' \<and> supersedes = supersedes')"
| "same_request num qt parse_id (RqUtterance spoken speaker conversation_id) (RqUtterance spoken' speaker' conversation_id') =
     (trim spoken = trim spoken' \<and> speaker = speaker' \<and> trim conversation_id = trim conversation_id')"
| "same_request num qt parse_id (RqDerived kind title body tags origins external supersedes guided_by)
       (RqDerived kind' title' body' tags' origins' external' supersedes' guided_by') =
     (kind = kind' \<and> trim title = trim title' \<and> trim body = trim body' \<and> set (normal_tags tags) = set (normal_tags tags') \<and>
      set origins = set origins' \<and> set external = set external' \<and> supersedes = supersedes' \<and> dedup guided_by = dedup guided_by')"
| "same_request num qt parse_id (RqFork destination kind source target_owner) (RqFork destination' kind' source' target_owner') =
     (kind = kind' \<and> source = source' \<and> target_owner = target_owner' \<and> destination_goal destination = destination_goal destination')"
| "same_request num qt parse_id (RqGoalWork kind goal subject original) (RqGoalWork kind' goal' subject' original') =
     (kind = kind' \<and> original = original')"
| "same_request num qt parse_id _ _ = False"

text \<open>Real strings, and lengths a machine can hold.\<close>

fun citation_ok :: "(json_number \<Rightarrow> byte list) \<Rightarrow> (str \<Rightarrow> byte list) \<Rightarrow> remember_citation option \<Rightarrow> bool" where
  "citation_ok num qt None = True"
| "citation_ok num qt (Some c) = (case unwrap_or [] (rc_object_schema_id c) of sid \<Rightarrow> case unwrap_or JNull (rc_object_payload c) of p \<Rightarrow>
     str_ok sid \<and> json_ok p \<and> length (schema_payload_bytes num qt sid (unwrap_or 0 (rc_object_schema_version c)) p) < 2 ^ 64)"

definition tags_ok :: "str list \<Rightarrow> bool" where
  "tags_ok tags \<longleftrightarrow> length tags < 2 ^ 64 \<and> list_all str_ok (normal_tags tags)"

fun request_ok :: "(json_number \<Rightarrow> byte list) \<Rightarrow> (str \<Rightarrow> byte list) \<Rightarrow> keyed_request \<Rightarrow> bool" where
  "request_ok num qt (RqNote title body tags citation supersedes) =
     (str_ok (trim title) \<and> str_ok (trim body) \<and> tags_ok tags \<and> citation_ok num qt citation)"
| "request_ok num qt (RqUtterance spoken speaker conversation_id) = (str_ok (trim spoken) \<and> str_ok speaker \<and> str_ok (trim conversation_id))"
| "request_ok num qt (RqDerived kind title body tags origins external supersedes guided_by) =
     (str_ok (trim title) \<and> str_ok (trim body) \<and> tags_ok tags \<and> length origins < 2 ^ 64 \<and> length external < 2 ^ 64 \<and> length guided_by < 2 ^ 59)"
| "request_ok num qt (RqFork destination kind source target_owner) = True"
| "request_ok num qt (RqGoalWork kind goal subject original) = (length original < 2 ^ 64)"

section \<open>One shape per field name\<close>

definition field_shape_of :: "str \<Rightarrow> field_shape" where
  "field_shape_of f =
     (if f = lit ''tags'' then STags
      else if f \<in> {lit ''supersedes'', lit ''origins'', lit ''external_origins'', lit ''source'', lit ''destination_owner'', lit ''destination_goal''} then SIds
      else SBytes)"

lemma dedup_Nil [simp]: "dedup [] = []"
  by (simp add: dedup_def)

lemma dedup_snoc: "dedup (xs @ [x]) = (if x \<in> set (dedup xs) then dedup xs else dedup xs @ [x])"
  by (simp add: dedup_def)

lemma set_dedup [simp]: "set (dedup xs) = set xs"
  by (induction xs rule: rev_induct) (auto simp: dedup_snoc)

lemma length_dedup: "length (dedup xs) \<le> length xs"
  by (induction xs rule: rev_induct) (auto simp: dedup_snoc)

lemma dedup_Nil_iff [simp]: "dedup xs = [] \<longleftrightarrow> xs = []"
  using set_dedup [of xs] by (metis set_empty)

lemma length_ordered_goal_ids: "length (ordered_goal_ids gs) = 8 + 16 * length (dedup gs)"
proof -
  have "length (concat (map (\<lambda>g. uuid_bytes (goal_uuid g)) ids)) = 16 * length ids" for ids
    by (induction ids) (simp_all add: uuid_bytes_def word_be_bytes_def)
  then show ?thesis by (simp add: ordered_goal_ids_def Let_def len_be_def word_be_bytes_def)
qed

lemma ordered_goal_ids_eq:
  assumes "length gs < 2 ^ 64" "length hs < 2 ^ 64"
  shows "ordered_goal_ids gs = ordered_goal_ids hs \<longleftrightarrow> dedup gs = dedup hs"
proof -
  have len: "length (dedup gs) < 2 ^ 64" "length (dedup hs) < 2 ^ 64" using length_dedup assms le_less_trans by blast+
  have inj: "map goal_uuid xs = map goal_uuid ys \<longleftrightarrow> xs = ys" for xs ys
    by (metis (no_types) goal_id.collapse inj_map_eq_map injI)
  have "ordered_goal_ids xs = counted uuid_bytes (map goal_uuid (dedup xs))" if "length (dedup xs) < 2 ^ 64" for xs
    using that by (simp add: ordered_goal_ids_def Let_def counted_def len_be_raw_len comp_def)
  with len uuid_frame.counted_frame_iff [of "map goal_uuid (dedup gs)" "map goal_uuid (dedup hs)" "[]" "[]"] show ?thesis
    by (simp add: inj list.pred_True)
qed

lemma utf8_eq: "str_ok a \<Longrightarrow> str_ok b \<Longrightarrow> utf8 a = utf8 b \<longleftrightarrow> a = b"
  using utf8_inj by (auto simp: str_ok_def)

lemma card_set_less: "length xs < n \<Longrightarrow> card (set xs) < n"
  using card_length le_less_trans by blast

lemma tags_ok_content: "tags_ok tags \<Longrightarrow> content_ok STags (FTags (set (normal_tags tags)))"
proof -
  have "length (normal_tags tags) \<le> length tags" unfolding normal_tags_def by (metis length_filter_le length_map)
  then show "tags_ok tags \<Longrightarrow> content_ok STags (FTags (set (normal_tags tags)))"
    by (auto simp: tags_ok_def list_all_iff intro!: card_set_less)
qed

lemma field_names_ok:
  "list_all str_ok [lit ''title'', lit ''body'', lit ''tags'', lit ''citation'', lit ''supersedes'', lit ''speaker'', lit ''conversation_id'', lit ''kind'',
     lit ''origins'', lit ''external_origins'', lit ''guided_by'', lit ''references'', lit ''operation'', lit ''source'', lit ''destination_owner'',
     lit ''destination_goal'', lit ''original-fingerprint'', lit ''abstraction'', lit ''perspective'', lit ''fork'']"
  by (simp add: str_ok_def scalar_def str_len_def utf8_char_def)

lemmas text_length = str_ok_length [simplified] card_set_less [of _ "2 ^ 64", simplified]

text \<open>The citation a note writes, and when two notes write the same.\<close>

definition cited_bytes :: "(json_number \<Rightarrow> byte list) \<Rightarrow> (str \<Rightarrow> byte list) \<Rightarrow> cited \<Rightarrow> byte list" where
  "cited_bytes num qt c = (case c of CitedId u \<Rightarrow> uuid_bytes u | CitedInline sid version p \<Rightarrow> schema_payload_bytes num qt sid version p)"

definition cited_ok :: "(json_number \<Rightarrow> byte list) \<Rightarrow> (str \<Rightarrow> byte list) \<Rightarrow> cited \<Rightarrow> bool" where
  "cited_ok num qt c \<longleftrightarrow> (case c of CitedId u \<Rightarrow> True
     | CitedInline sid version p \<Rightarrow> str_ok sid \<and> json_ok p \<and> length (schema_payload_bytes num qt sid version p) < 2 ^ 64)"

lemma fingerprint_citation_content:
  assumes "fingerprint_citation parse_id c = Inr call" "citation_ok num qt (Some c)"
  obtains x where "cited_of parse_id c = Inr x" "cited_ok num qt x" "call_content num qt call = (lit ''citation'', FBytes (cited_bytes num qt x))"
  using assms
  by (cases "rc_cited_object_id c") (auto simp: fingerprint_citation_def cited_of_def cited_ok_def cited_bytes_def result_simps)

lemma length_cited_bytes: "cited_ok num qt x \<Longrightarrow> length (cited_bytes num qt x) < 2 ^ 64"
  by (cases x) (simp_all add: cited_ok_def cited_bytes_def uuid_bytes_def word_be_bytes_def)

lemma cited_bytes_eq:
  assumes "serde_scalars num qt" "cited_ok num qt x" "cited_ok num qt y"
  shows "cited_bytes num qt x = cited_bytes num qt y \<longleftrightarrow> same_citation num qt x y"
proof (cases x)
  case (CitedId u)
  then show ?thesis using uuid_frame.enc_inj by (cases y) (auto simp: cited_bytes_def)
next
  case (CitedInline sid version p)
  then show ?thesis using assms schema_payload_frame [OF assms(1)] by (cases y) (auto simp: cited_bytes_def cited_ok_def)
qed

definition citation_call :: "(str \<Rightarrow> ('e, uuid) result) \<Rightarrow> remember_citation option \<Rightarrow> ('e, fp_call) result" where
  "citation_call parse_id citation = (case citation of None \<Rightarrow> Inr (CallAbsent (lit ''citation'')) | Some c \<Rightarrow> fingerprint_citation parse_id c)"

lemma citation_call_ok:
  assumes "citation_call parse_id c = Inr call" "citation_ok num qt c"
  shows "fst (call_content num qt call) = lit ''citation''" "content_ok SBytes (snd (call_content num qt call))"
proof (atomize (full), cases c)
  case (Some c')
  with assms have "fingerprint_citation parse_id c' = Inr call" "citation_ok num qt (Some c')" by (simp_all add: citation_call_def)
  then show "fst (call_content num qt call) = lit ''citation'' \<and> content_ok SBytes (snd (call_content num qt call))"
    by (rule fingerprint_citation_content) (simp add: length_cited_bytes [simplified])
qed (use assms in \<open>auto simp: citation_call_def\<close>)

lemma citation_call_eq:
  assumes "serde_scalars num qt" "citation_call parse_id c = Inr call" "citation_call parse_id d = Inr call'" "citation_ok num qt c" "citation_ok num qt d"
  shows "call_content num qt call = call_content num qt call' \<longleftrightarrow> same_citations num qt parse_id c d"
proof (cases c)
  case None
  show ?thesis
  proof (cases d)
    case (Some d')
    with assms have "fingerprint_citation parse_id d' = Inr call'" "citation_ok num qt (Some d')" by (simp_all add: citation_call_def)
    then obtain y where "call_content num qt call' = (lit ''citation'', FBytes (cited_bytes num qt y))" by (rule fingerprint_citation_content)
    with None Some assms show ?thesis by (auto simp: citation_call_def)
  qed (use None assms in \<open>auto simp: citation_call_def\<close>)
next
  case c: (Some c')
  with assms have "fingerprint_citation parse_id c' = Inr call" "citation_ok num qt (Some c')" by (simp_all add: citation_call_def)
  then obtain x where x: "cited_of parse_id c' = Inr x" "cited_ok num qt x" "call_content num qt call = (lit ''citation'', FBytes (cited_bytes num qt x))"
    by (rule fingerprint_citation_content)
  show ?thesis
  proof (cases d)
    case (Some d')
    with assms have "fingerprint_citation parse_id d' = Inr call'" "citation_ok num qt (Some d')" by (simp_all add: citation_call_def)
    then obtain y where "cited_of parse_id d' = Inr y" "cited_ok num qt y" "call_content num qt call' = (lit ''citation'', FBytes (cited_bytes num qt y))"
      by (rule fingerprint_citation_content)
    with x show ?thesis using c Some cited_bytes_eq [OF assms(1), of x y] by simp
  qed (use c x assms in \<open>auto simp: citation_call_def\<close>)
qed

text \<open>Every request writes each field in the shape of its name.\<close>

lemma request_entries_ok:
  assumes "request_ok num qt r" "request_calls parse_id r = Inr (scope, calls)"
  shows "list_all (entry_ok field_shape_of) (map (call_content num qt) calls)"
proof (cases r)
  case (RqNote title body tags citation supersedes)
  with assms(2) obtain cited where cited: "citation_call parse_id citation = Inr cited"
    and calls: "calls = [CallText (lit ''title'') title, CallText (lit ''body'') body, CallTags tags, cited, supersedes_call supersedes]"
    by (auto simp: note_calls_def result_simps simp flip: citation_call_def)
  have c: "citation_ok num qt citation" using assms(1) RqNote by simp
  show ?thesis
    using assms(1) RqNote citation_call_ok [OF cited c] tags_ok_content [of tags] field_names_ok
    by (cases supersedes) (simp_all add: calls entry_ok_def field_shape_of_def text_length supersedes_call_def)
next
  case (RqDerived kind title body tags origins external supersedes guided_by)
  have "length (ordered_goal_ids guided_by) < 2 ^ 64"
    using assms(1) RqDerived length_dedup [of guided_by] by (simp add: length_ordered_goal_ids)
  moreover have "length (utf8 (key_scope_str (derived_scope kind))) < 2 ^ 64" by (cases kind) (simp_all add: utf8_char_def)
  ultimately show ?thesis
    using assms RqDerived tags_ok_content [of tags] field_names_ok
    by (cases supersedes) (auto simp: derivation_calls_def supersedes_call_def entry_ok_def field_shape_of_def text_length)
next
  case (RqFork destination kind source target_owner)
  then show ?thesis
    using assms field_names_ok by (cases destination) (auto simp: fork_calls_def entry_ok_def field_shape_of_def text_length trim_def utf8_char_def)
qed (use assms field_names_ok in \<open>auto simp: utterance_calls_def goal_work_calls_def entry_ok_def field_shape_of_def text_length normal_tags_def\<close>)

text \<open>What two requests write agrees exactly when what they assert does.\<close>

fun request_kind :: "keyed_request \<Rightarrow> nat" where
  "request_kind (RqNote _ _ _ _ _) = 0"
| "request_kind (RqUtterance _ _ _) = 1"
| "request_kind (RqDerived _ _ _ _ _ _ _ _) = 2"
| "request_kind (RqFork _ _ _ _) = 3"
| "request_kind (RqGoalWork _ _ _ _) = 4"

lemma request_kind_told:
  assumes "request_calls parse_id r = Inr (scope, calls)" "request_calls parse_id r' = Inr (scope', calls')"
    and "key_scope_str scope = key_scope_str scope'" "map (call_content num qt) calls = map (call_content num qt) calls'"
  shows "request_kind r = request_kind r'"
proof -
  have dscope: "key_scope_str (derived_scope k) = (case k of DkAbstraction \<Rightarrow> lit ''abstraction'' | DkPerspective \<Rightarrow> lit ''perspective'')" for k
    by (cases k) simp_all
  have gscope: "key_scope_str (goal_work_scope k g u) = (case k of DkAbstraction \<Rightarrow> lit ''goal/abstraction'' | DkPerspective \<Rightarrow> lit ''goal/perspective'')" for k g u
    by (cases k) simp_all
  have fscope: "fork_scope d k = (case d of ForkToOwner \<Rightarrow> derived_scope k | ForkToGoal g u \<Rightarrow> goal_work_scope k g u)" for d k
    by (cases d) simp_all
  show ?thesis
    using assms by (cases r; cases r') (auto simp: result_simps note_calls_def utterance_calls_def derivation_calls_def fork_calls_def goal_work_calls_def
        dscope gscope fscope split: derived_kind.splits fork_destination.splits)
qed

lemma supersedes_content: "call_content num qt (supersedes_call p) = call_content num qt (supersedes_call p') \<longleftrightarrow> p = p'"
  by (cases p; cases p') (auto simp: supersedes_call_def)

lemma same_note:
  assumes "serde_scalars num qt" "request_ok num qt (RqNote t b g c p)" "request_ok num qt (RqNote t' b' g' c' p')"
    and "request_calls parse_id (RqNote t b g c p) = Inr (scope, calls)" "request_calls parse_id (RqNote t' b' g' c' p') = Inr (scope', calls')"
  shows "key_scope_str scope = key_scope_str scope' \<and> map (call_content num qt) calls = map (call_content num qt) calls' \<longleftrightarrow>
    same_request num qt parse_id (RqNote t b g c p) (RqNote t' b' g' c' p')"
proof -
  obtain k k' where k: "citation_call parse_id c = Inr k" "citation_call parse_id c' = Inr k'"
    and calls: "calls = [CallText (lit ''title'') t, CallText (lit ''body'') b, CallTags g, k, supersedes_call p]"
      "calls' = [CallText (lit ''title'') t', CallText (lit ''body'') b', CallTags g', k', supersedes_call p']" "scope = KsNote" "scope' = KsNote"
    using assms(4,5) by (auto simp: note_calls_def result_simps simp flip: citation_call_def)
  have "citation_ok num qt c" "citation_ok num qt c'" using assms(2,3) by simp_all
  from citation_call_eq [OF assms(1) k this] show ?thesis
    using assms(2,3) by (auto simp: calls supersedes_content utf8_eq)
qed

lemma same_derived:
  assumes "request_ok num qt (RqDerived k t b g os e p m)" "request_ok num qt (RqDerived k' t' b' g' os' e' p' m')"
  shows "key_scope_str (derived_scope k) = key_scope_str (derived_scope k') \<and>
    map (call_content num qt) (derivation_calls (derived_scope k) t b g os e p m) =
      map (call_content num qt) (derivation_calls (derived_scope k') t' b' g' os' e' p' m') \<longleftrightarrow>
    same_request num qt parse_id (RqDerived k t b g os e p m) (RqDerived k' t' b' g' os' e' p' m')"
proof -
  have kinds: "key_scope_str (derived_scope k) = key_scope_str (derived_scope k') \<longleftrightarrow> k = k'" by (cases k; cases k') simp_all
  have "length m < 2 ^ 64" "length m' < 2 ^ 64" using assms by simp_all
  then have guided: "call_content num qt (if m = [] then CallAbsent (lit ''guided_by'') else CallBytes (lit ''guided_by'') (ordered_goal_ids m)) =
      call_content num qt (if m' = [] then CallAbsent (lit ''guided_by'') else CallBytes (lit ''guided_by'') (ordered_goal_ids m')) \<longleftrightarrow> dedup m = dedup m'"
    using ordered_goal_ids_eq [of m m'] dedup_Nil_iff [of m] dedup_Nil_iff [of m'] by (auto simp del: dedup_Nil_iff)
  show ?thesis using assms kinds guided by (auto simp: derivation_calls_def supersedes_content utf8_eq simp del: key_scope_str.simps)
qed

lemma same_contents:
  assumes "serde_scalars num qt" "request_ok num qt r" "request_ok num qt r'"
    and "request_calls parse_id r = Inr (scope, calls)" "request_calls parse_id r' = Inr (scope', calls')"
  shows "key_scope_str scope = key_scope_str scope' \<and> map (call_content num qt) calls = map (call_content num qt) calls' \<longleftrightarrow>
    same_request num qt parse_id r r'" (is "?wire \<longleftrightarrow> ?same")
proof -
  have ?thesis if "r = RqNote t b g c p" "r' = RqNote t' b' g' c' p'" for t b g c p t' b' g' c' p'
    using same_note [of num qt t b g c p t' b' g' c' p'] assms that by simp
  moreover have ?thesis if "r = RqUtterance t s c" "r' = RqUtterance t' s' c'" for t s c t' s' c'
    using assms that by (auto simp: utterance_calls_def utf8_eq)
  moreover have ?thesis if "r = RqDerived k t b g os e p m" "r' = RqDerived k' t' b' g' os' e' p' m'" for k t b g os e p m k' t' b' g' os' e' p' m'
    using same_derived [of num qt k t b g os e p m k' t' b' g' os' e' p' m'] assms that by auto
  moreover have ?thesis if "r = RqFork d k s w" "r' = RqFork d' k' s' w'" for d k s w d' k' s' w'
    using assms that by (cases d; cases d'; cases k; cases k') (auto simp: fork_calls_def goal_handle.expand)
  moreover have ?thesis if "r = RqGoalWork k g u x" "r' = RqGoalWork k' g' u' x'" for k g u x k' g' u' x'
    using assms that by (cases k; cases k') (auto simp: goal_work_calls_def)
  moreover have ?thesis if "request_kind r \<noteq> request_kind r'"
    using that request_kind_told [OF assms(4,5)] by (cases r; cases r') auto
  ultimately show ?thesis by (cases r; cases r') simp_all
qed

section \<open>Properties\<close>

text \<open>
  C17. A content fingerprint says exactly what its request asserts. For any two of the requests the program keys, when the
  hash does not collide on the two inputs, the fingerprints are equal iff the requests are of one kind and agree in every
  field: text after trimming, tags and id lists as sets, guiding Goals in order, an absent field apart from an empty one, an inline
  citation by schema, version and payload up to member order. Citations have one exception, which is stated: a citation by
  id also agrees with an inline one when the id's bytes are the inline citation's.
\<close>

theorem fingerprint_identifies_request:
  assumes "serde_scalars num qt" "request_ok num qt r" "request_ok num qt r'"
    and "request_calls parse_id r = Inr (scope, calls)" "request_calls parse_id r' = Inr (scope', calls')"
    and "inj_on b3 {fingerprint_input num qt scope calls, fingerprint_input num qt scope' calls'}"
  shows "request_fingerprint num qt b3 parse_id r = request_fingerprint num qt b3 parse_id r' \<longleftrightarrow> same_request num qt parse_id r r'"
  using fingerprint_frames [OF request_entries_ok [OF assms(2,4)] request_entries_ok [OF assms(3,5)] assms(6)] same_contents [OF assms(1-5)]
  by (simp add: request_fingerprint_def assms(4,5))

definition demo_note :: "str \<Rightarrow> str list \<Rightarrow> remember_citation \<Rightarrow> keyed_request" where
  "demo_note title tags citation = RqNote title (lit ''b'') tags (Some citation) None"

definition inline_citation :: "str \<Rightarrow> u32 \<Rightarrow> json \<Rightarrow> remember_citation" where
  "inline_citation sid version payload =
     \<lparr>rc_cited_object_id = None, rc_object_schema_id = Some sid, rc_object_schema_version = Some version, rc_object_payload = Some payload\<rparr>"

definition citation_by_id :: "str \<Rightarrow> remember_citation" where
  "citation_by_id raw = \<lparr>rc_cited_object_id = Some raw, rc_object_schema_id = None, rc_object_schema_version = None, rc_object_payload = None\<rparr>"

lemmas demo_note_simps = demo_note_def inline_citation_def citation_by_id_def unwrap_or_def tags_ok_def normal_tags_def trim_def is_whitespace_def
  to_ascii_lowercase_def to_ascii_lower_def ascii_defs str_ok_def scalar_def str_len_def utf8_char_def schema_payload_bytes_def
  canonical_json_bytes_def len_be_def word_be_bytes_def

definition no_ids :: "str \<Rightarrow> (unit, uuid) result" where "no_ids raw = Inl ()"

theorem fingerprint_identifies_request_witness:
  "request_fingerprint number_bytes quote_string id no_ids (demo_note (lit '' a '') [lit ''B'', lit ''b''] (inline_citation (lit ''s'') 1 JNull)) =
     request_fingerprint number_bytes quote_string id no_ids (demo_note (lit ''a'') [lit ''b''] (inline_citation (lit ''s'') 1 JNull)) \<and>
   request_fingerprint number_bytes quote_string id no_ids (demo_note (lit ''a'') [] (inline_citation (lit ''s'') 1 JNull)) \<noteq>
     request_fingerprint number_bytes quote_string id no_ids (demo_note (lit ''a'') [] (inline_citation (lit ''s'') 2 JNull))"
proof -
  have ok: "request_ok number_bytes quote_string (demo_note t g (inline_citation (lit ''s'') v JNull))"
    if "t = lit '' a '' \<or> t = lit ''a''" "g = [lit ''B'', lit ''b''] \<or> g = [lit ''b''] \<or> g = []" for t g v
    using that by (auto simp: demo_note_simps)
  have calls: "\<exists>scope calls. request_calls no_ids (demo_note t g (inline_citation (lit ''s'') v JNull)) = Inr (scope, calls)" for t g v
    by (simp add: demo_note_def inline_citation_def note_calls_def fingerprint_citation_def)
  have iff: "request_fingerprint number_bytes quote_string id no_ids (demo_note t g (inline_citation (lit ''s'') v JNull)) =
      request_fingerprint number_bytes quote_string id no_ids (demo_note t' g' (inline_citation (lit ''s'') v' JNull)) \<longleftrightarrow>
      same_request number_bytes quote_string no_ids (demo_note t g (inline_citation (lit ''s'') v JNull)) (demo_note t' g' (inline_citation (lit ''s'') v' JNull))"
    if "t = lit '' a '' \<or> t = lit ''a''" "g = [lit ''B'', lit ''b''] \<or> g = [lit ''b''] \<or> g = []"
      "t' = lit '' a '' \<or> t' = lit ''a''" "g' = [lit ''B'', lit ''b''] \<or> g' = [lit ''b''] \<or> g' = []" for t g v t' g' v'
  proof -
    obtain scope cs scope' cs' where "request_calls no_ids (demo_note t g (inline_citation (lit ''s'') v JNull)) = Inr (scope, cs)"
      "request_calls no_ids (demo_note t' g' (inline_citation (lit ''s'') v' JNull)) = Inr (scope', cs')" using calls by blast
    from fingerprint_identifies_request [OF serde_scalars_instance ok [OF that(1,2)] ok [OF that(3,4)] this, of id] show ?thesis by simp
  qed
  show ?thesis
    using iff [of "lit '' a ''" "[lit ''B'', lit ''b'']" "lit ''a''" "[lit ''b'']" 1 1] iff [of "lit ''a''" "[]" "lit ''a''" "[]" 1 2]
    by (simp add: demo_note_simps cited_of_def)
qed

text \<open>
  C39. The two forms of a citation share one frame. A note citing an object by id and one citing an object inline, alike
  otherwise, have the same fingerprint exactly when the sixteen bytes of the id are those the inline citation writes; an inline
  citation has such an id exactly when its schema id and its canonical payload are four bytes together. The key of
  one then replays the other, whose content is not the same.
\<close>

theorem citation_forms_share_a_frame:
  fixes title body tags supersedes raw sid version payload
  defines "by_id \<equiv> RqNote title body tags (Some (citation_by_id raw)) supersedes"
    and "inline \<equiv> RqNote title body tags (Some (inline_citation sid version payload)) supersedes"
  assumes "serde_scalars num qt" "parse_id raw = Inr u" "request_ok num qt by_id" "request_ok num qt inline"
    and "request_calls parse_id by_id = Inr (scope, calls)" "request_calls parse_id inline = Inr (scope', calls')"
    and "inj_on b3 {fingerprint_input num qt scope calls, fingerprint_input num qt scope' calls'}"
  shows "(request_fingerprint num qt b3 parse_id by_id = request_fingerprint num qt b3 parse_id inline \<longleftrightarrow>
      uuid_bytes u = schema_payload_bytes num qt sid version payload) \<and>
    ((\<exists>w. uuid_bytes w = schema_payload_bytes num qt sid version payload) \<longleftrightarrow> str_len sid + length (canonical_json_bytes num qt payload) = 4)"
proof
  note eq = fingerprint_frames [OF request_entries_ok [OF assms(5,7)] request_entries_ok [OF assms(6,8)] assms(9)] same_contents [OF assms(3,5-8)]
  have "same_request num qt parse_id by_id inline \<longleftrightarrow> uuid_bytes u = schema_payload_bytes num qt sid version payload"
    by (simp add: by_id_def inline_def citation_by_id_def inline_citation_def cited_of_def unwrap_or_def assms(4))
  with eq show "request_fingerprint num qt b3 parse_id by_id = request_fingerprint num qt b3 parse_id inline \<longleftrightarrow>
      uuid_bytes u = schema_payload_bytes num qt sid version payload"
    by (simp add: request_fingerprint_def assms(7,8))
  have "length (schema_payload_bytes num qt sid version payload) = 12 + str_len sid + length (canonical_json_bytes num qt payload)"
    by (simp add: schema_payload_bytes_def len_be_def word_be_bytes_def str_len_def)
  then show "(\<exists>w. uuid_bytes w = schema_payload_bytes num qt sid version payload) \<longleftrightarrow> str_len sid + length (canonical_json_bytes num qt payload) = 4"
    unfolding uuid_bytes_surj by simp
qed

text \<open>The id \<open>00000000-0000-0002-6162-000000017b7d\<close> and the inline citation of version 1 of schema \<open>ab\<close> with an empty object.\<close>

definition some_id :: "str \<Rightarrow> (unit, uuid) result" where "some_id raw = Inr 0x00000000000000026162000000017b7d"

theorem citation_forms_share_a_frame_witness:
  "request_fingerprint number_bytes quote_string id some_id (RqNote (lit ''a'') (lit ''b'') [] (Some (citation_by_id (lit ''x''))) None) =
     request_fingerprint number_bytes quote_string id some_id (RqNote (lit ''a'') (lit ''b'') [] (Some (inline_citation (lit ''ab'') 1 (JObject []))) None) \<and>
   str_len (lit ''ab'') + length (canonical_json_bytes number_bytes quote_string (JObject [])) = 4"
proof -
  let ?a = "RqNote (lit ''a'') (lit ''b'') [] (Some (citation_by_id (lit ''x''))) None"
    and ?b = "RqNote (lit ''a'') (lit ''b'') [] (Some (inline_citation (lit ''ab'') 1 (JObject []))) None"
  have u: "some_id (lit ''x'') = Inr 0x00000000000000026162000000017b7d" by (simp add: some_id_def)
  have ok: "request_ok number_bytes quote_string ?a" "request_ok number_bytes quote_string ?b"
    by (simp_all add: demo_note_simps)
  obtain s cs s' cs' where calls: "request_calls some_id ?a = Inr (s, cs)" "request_calls some_id ?b = Inr (s', cs')"
    by (simp add: citation_by_id_def inline_citation_def note_calls_def fingerprint_citation_def some_id_def)
  have "uuid_bytes 0x00000000000000026162000000017b7d = schema_payload_bytes number_bytes quote_string (lit ''ab'') 1 (JObject [])"
    by (simp add: uuid_bytes_def schema_payload_bytes_def len_be_def word_be_bytes_def be_bytes_numeral str_len_def utf8_char_def canonical_json_bytes_def)
  with citation_forms_share_a_frame [OF serde_scalars_instance u ok calls inj_on_id] show ?thesis by blast
qed

end
