(* ===== verification/RequestLedger.thy ===== *)
theory RequestLedger
  imports Idempotency Surfaces
begin

text \<open>
  The request ledger of the Postgres storage (\<open>crates/storage-pg/src/verbs/request_keys.rs\<close>): two rows of
  \<open>ingest_keys\<close> per admitted request, one naming the key and one naming key and content. The table's primary key
  makes it a map; \<open>ON CONFLICT DO NOTHING\<close> inserts are atomic, so concurrent claims are a sequence of claims.
  Database faults roll the transaction back and are left out.

  The contract is a map from key to admission and fingerprint; the refinement shows that the two hashed rows
  implement it as long as no two requests that were made collide.
\<close>

section \<open>State and operations\<close>

record ledger_db =
  ingest_keys :: "uuid \<times> str \<times> str \<Rightarrow> uuid option"
  memory_rows :: "uuid \<times> uuid \<Rightarrow> (uuid \<times> bool) option"

record request_replay =
  rr_memory_id :: uuid
  rr_handle :: uuid
  rr_forgotten :: bool

definition conflict_to_storage :: "key_conflict \<Rightarrow> storage_error" where
  "conflict_to_storage c = SeIdempotencyConflict (kc_key c) (Some (kc_existing c))"

record row_codec =
  b3 :: "byte list \<Rightarrow> byte list"
  hx :: "byte list \<Rightarrow> str"
  hyph :: "uuid \<Rightarrow> str"

definition request_row :: "row_codec \<Rightarrow> owner_id \<Rightarrow> request_key \<Rightarrow> uuid \<times> str \<times> str" where
  "request_row cx owner rk = (owner_uuid owner, ledger_source (hyph cx) (rk_scope rk), request_row_key (b3 cx) (hx cx) rk)"

definition fingerprint_row :: "row_codec \<Rightarrow> owner_id \<Rightarrow> request_key \<Rightarrow> uuid \<times> str \<times> str" where
  "fingerprint_row cx owner rk = (owner_uuid owner, ledger_source (hyph cx) (rk_scope rk), fingerprint_row_key (b3 cx) (hx cx) rk)"

definition judge_request :: "row_codec \<Rightarrow> ledger_db \<Rightarrow> owner_id \<Rightarrow> request_key \<Rightarrow> (storage_error, request_replay key_verdict) result" where
  "judge_request cx db owner rk =
     (case ingest_keys db (request_row cx owner rk) of
        None \<Rightarrow> map_err conflict_to_storage (judge rr_memory_id None (rk_key rk))
      | Some t \<Rightarrow>
          (case memory_rows db (t, owner_uuid owner) of
             None \<Rightarrow> Inl (SeInternal (lit ''request key claims t '' @ hyph cx t @ lit '' with no memory row''))
           | Some (series_handle, forgotten) \<Rightarrow>
               map_err conflict_to_storage
                 (judge rr_memory_id
                    (Some (\<lparr>rr_memory_id = t, rr_handle = series_handle, rr_forgotten = forgotten\<rparr>,
                       ingest_keys db (fingerprint_row cx owner rk) = Some t))
                    (rk_key rk))))"

definition insert_ingest_key :: "ledger_db \<Rightarrow> uuid \<times> str \<times> str \<Rightarrow> uuid \<Rightarrow> nat \<times> ledger_db" where
  "insert_ingest_key db row t =
     (case ingest_keys db row of
        None \<Rightarrow> (1, db\<lparr>ingest_keys := (ingest_keys db)(row \<mapsto> t)\<rparr>)
      | Some _ \<Rightarrow> (0, db))"

definition claim_request ::
  "row_codec \<Rightarrow> ledger_db \<Rightarrow> owner_id \<Rightarrow> request_key \<Rightarrow> uuid \<Rightarrow> (storage_error, request_replay key_verdict) result \<times> ledger_db" where
  "claim_request cx db owner rk t =
     (case insert_ingest_key db (request_row cx owner rk) t of (rows_affected, db') \<Rightarrow>
        if rows_affected = 0 then (judge_request cx db' owner rk, db')
        else (Inr KvFresh, snd (insert_ingest_key db' (fingerprint_row cx owner rk) t)))"

section \<open>Contract\<close>

text \<open>A key of an owner's scope names at most one admission, with the content it was made with.\<close>

type_synonym ledger_spec = "owner_id \<times> key_scope \<times> str \<Rightarrow> (uuid \<times> byte list) option"

definition spec_judge ::
  "row_codec \<Rightarrow> (uuid \<times> uuid \<Rightarrow> (uuid \<times> bool) option) \<Rightarrow> ledger_spec \<Rightarrow> owner_id \<Rightarrow> request_key \<Rightarrow> (storage_error, request_replay key_verdict) result" where
  "spec_judge cx mem spec owner rk =
     (case spec (owner, rk_scope rk, rk_key rk) of
        None \<Rightarrow> Inr KvFresh
      | Some (t, fp) \<Rightarrow>
          (case mem (t, owner_uuid owner) of
             None \<Rightarrow> Inl (SeInternal (lit ''request key claims t '' @ hyph cx t @ lit '' with no memory row''))
           | Some (h, forgotten) \<Rightarrow>
               if fp = rk_fingerprint rk then Inr (KvReplay \<lparr>rr_memory_id = t, rr_handle = h, rr_forgotten = forgotten\<rparr>)
               else Inl (SeIdempotencyConflict (rk_key rk) (Some t))))"

definition spec_claim :: "ledger_spec \<Rightarrow> owner_id \<Rightarrow> request_key \<Rightarrow> uuid \<Rightarrow> ledger_spec" where
  "spec_claim spec owner rk t =
     (let k = (owner, rk_scope rk, rk_key rk) in
      if spec k = None then spec(k \<mapsto> (t, rk_fingerprint rk)) else spec)"

section \<open>Refinement\<close>

definition rows_distinct :: "row_codec \<Rightarrow> request_key set \<Rightarrow> bool" where
  "rows_distinct cx U \<longleftrightarrow>
     inj_on (\<lambda>bs. hx cx (b3 cx bs)) ((\<lambda>rk. utf8 (rk_key rk)) ` U) \<and>
     inj_on (\<lambda>bs. hx cx (b3 cx bs)) (fingerprint_row_input ` U) \<and>
     uuid_text (hyph cx) \<and> (\<forall>rk \<in> U. str_ok (rk_key rk))"

definition refines :: "row_codec \<Rightarrow> request_key set \<Rightarrow> ledger_db \<Rightarrow> ledger_spec \<Rightarrow> bool" where
  "refines cx U db spec \<longleftrightarrow> (\<forall>owner. \<forall>rk \<in> U.
     ingest_keys db (request_row cx owner rk) = map_option fst (spec (owner, rk_scope rk, rk_key rk)) \<and>
     (\<forall>t. ingest_keys db (fingerprint_row cx owner rk) = Some t \<longleftrightarrow> spec (owner, rk_scope rk, rk_key rk) = Some (t, rk_fingerprint rk)))"

lemma request_row_eq:
  assumes "rows_distinct cx U" "p \<in> U" "q \<in> U"
  shows "request_row cx o1 p = request_row cx o2 q \<longleftrightarrow> o1 = o2 \<and> rk_scope p = rk_scope q \<and> rk_key p = rk_key q"
proof -
  have ok: "list_all scalar (rk_key p)" "list_all scalar (rk_key q)" using assms by (auto simp: rows_distinct_def str_ok_def)
  have "hx cx (b3 cx (utf8 (rk_key p))) = hx cx (b3 cx (utf8 (rk_key q))) \<longleftrightarrow> utf8 (rk_key p) = utf8 (rk_key q)"
    using assms by (auto simp: rows_distinct_def dest: inj_onD)
  moreover have "utf8 (rk_key p) = utf8 (rk_key q) \<longleftrightarrow> rk_key p = rk_key q" using utf8_inj [OF ok] by auto
  moreover have "ledger_source (hyph cx) (rk_scope p) = ledger_source (hyph cx) (rk_scope q) \<longleftrightarrow> rk_scope p = rk_scope q"
    using ledger_source_inj assms(1) by (auto simp: rows_distinct_def)
  ultimately show ?thesis by (auto simp: request_row_def request_row_key_def owner_id.expand)
qed

lemma fingerprint_row_eq:
  assumes "rows_distinct cx U" "p \<in> U" "q \<in> U"
  shows "fingerprint_row cx o1 p = fingerprint_row cx o2 q \<longleftrightarrow>
    o1 = o2 \<and> rk_scope p = rk_scope q \<and> rk_key p = rk_key q \<and> rk_fingerprint p = rk_fingerprint q"
proof -
  have ok: "str_ok (rk_key p)" "str_ok (rk_key q)" using assms by (auto simp: rows_distinct_def)
  have raw: "fingerprint_row_input rk = raw_str (rk_key rk) @ rk_fingerprint rk" if "str_ok (rk_key rk)" for rk
    using str_ok_length [OF that] by (simp add: fingerprint_row_input_def raw_str_def raw_bytes_def len_be_raw_len)
  have "hx cx (b3 cx (fingerprint_row_input p)) = hx cx (b3 cx (fingerprint_row_input q)) \<longleftrightarrow> fingerprint_row_input p = fingerprint_row_input q"
    using assms by (auto simp: rows_distinct_def dest: inj_onD)
  moreover have "fingerprint_row_input p = fingerprint_row_input q \<longleftrightarrow> rk_key p = rk_key q \<and> rk_fingerprint p = rk_fingerprint q"
    unfolding raw [OF ok(1)] raw [OF ok(2)] by (rule str_frame.frame_iff [OF ok])
  moreover have "ledger_source (hyph cx) (rk_scope p) = ledger_source (hyph cx) (rk_scope q) \<longleftrightarrow> rk_scope p = rk_scope q"
    using ledger_source_inj assms(1) by (auto simp: rows_distinct_def)
  ultimately show ?thesis by (auto simp: fingerprint_row_def fingerprint_row_key_def owner_id.expand)
qed

lemma rows_apart: "request_row cx o1 p \<noteq> fingerprint_row cx o2 q" "fingerprint_row cx o2 q \<noteq> request_row cx o1 p"
  by (auto simp: request_row_def fingerprint_row_def request_row_key_def fingerprint_row_key_def)

lemma judge_request_refines:
  assumes "refines cx U db spec" "rk \<in> U"
  shows "judge_request cx db owner rk = spec_judge cx (memory_rows db) spec owner rk"
  using assms by (auto simp: refines_def judge_request_def spec_judge_def judge_def conflict_to_storage_def split: option.split)

lemma claim_existing:
  assumes "ingest_keys db (request_row cx owner rk) = Some u"
  shows "claim_request cx db owner rk t = (judge_request cx db owner rk, db)"
  using assms by (simp add: claim_request_def insert_ingest_key_def)

lemma claim_fresh:
  assumes "ingest_keys db (request_row cx owner rk) = None" "ingest_keys db (fingerprint_row cx owner rk) = None"
  shows "claim_request cx db owner rk t =
    (Inr KvFresh, db\<lparr>ingest_keys := (ingest_keys db)(request_row cx owner rk \<mapsto> t, fingerprint_row cx owner rk \<mapsto> t)\<rparr>)"
  using assms by (simp add: claim_request_def insert_ingest_key_def rows_apart)

lemma claim_request_refines:
  assumes U: "rows_distinct cx U" and R: "refines cx U db spec" and rk: "rk \<in> U"
  shows "fst (claim_request cx db owner rk t) = spec_judge cx (memory_rows db) spec owner rk"
    "refines cx U (snd (claim_request cx db owner rk t)) (spec_claim spec owner rk t)"
    "memory_rows (snd (claim_request cx db owner rk t)) = memory_rows db"
proof -
  let ?k = "(owner, rk_scope rk, rk_key rk)"
  have rows: "ingest_keys db (request_row cx owner rk) = map_option fst (spec ?k)"
    "\<And>u. ingest_keys db (fingerprint_row cx owner rk) = Some u \<longleftrightarrow> spec ?k = Some (u, rk_fingerprint rk)"
    using R rk by (auto simp: refines_def)
  have "fst (claim_request cx db owner rk t) = spec_judge cx (memory_rows db) spec owner rk \<and>
    refines cx U (snd (claim_request cx db owner rk t)) (spec_claim spec owner rk t) \<and>
    memory_rows (snd (claim_request cx db owner rk t)) = memory_rows db"
  proof (cases "spec ?k")
    case (Some e)
    with rows(1) have "claim_request cx db owner rk t = (judge_request cx db owner rk, db)" by (intro claim_existing) simp
    with Some R judge_request_refines [OF R rk] show ?thesis by (simp add: spec_claim_def)
  next
    case None
    with rows have "claim_request cx db owner rk t =
        (Inr KvFresh, db\<lparr>ingest_keys := (ingest_keys db)(request_row cx owner rk \<mapsto> t, fingerprint_row cx owner rk \<mapsto> t)\<rparr>)"
      by (intro claim_fresh) auto
    moreover have "refines cx U (db\<lparr>ingest_keys := (ingest_keys db)(request_row cx owner rk \<mapsto> t, fingerprint_row cx owner rk \<mapsto> t)\<rparr>)
        (spec(?k \<mapsto> (t, rk_fingerprint rk)))"
      using R rk None by (auto simp: refines_def request_row_eq [OF U] fingerprint_row_eq [OF U] rows_apart)
    ultimately show ?thesis using None by (simp add: spec_claim_def spec_judge_def)
  qed
  then show "fst (claim_request cx db owner rk t) = spec_judge cx (memory_rows db) spec owner rk"
    "refines cx U (snd (claim_request cx db owner rk t)) (spec_claim spec owner rk t)"
    "memory_rows (snd (claim_request cx db owner rk t)) = memory_rows db" by blast+
qed

section \<open>Histories\<close>

type_synonym claim = "owner_id \<times> request_key \<times> uuid"

definition run_claims :: "row_codec \<Rightarrow> ledger_db \<Rightarrow> claim list \<Rightarrow> ledger_db" where
  "run_claims cx db claims = foldl (\<lambda>d (owner, rk, t). snd (claim_request cx d owner rk t)) db claims"

definition same_key :: "owner_id \<Rightarrow> request_key \<Rightarrow> claim \<Rightarrow> bool" where
  "same_key owner rk c \<longleftrightarrow> (case c of (owner', rk', t) \<Rightarrow> owner' = owner \<and> rk_scope rk' = rk_scope rk \<and> rk_key rk' = rk_key rk)"

definition spec_run :: "ledger_spec \<Rightarrow> claim list \<Rightarrow> ledger_spec" where
  "spec_run spec claims = foldl (\<lambda>s (owner, rk, t). spec_claim s owner rk t) spec claims"

lemma spec_run_first:
  "spec_run spec claims (owner, rk_scope rk, rk_key rk) =
     (case spec (owner, rk_scope rk, rk_key rk) of
        Some e \<Rightarrow> Some e
      | None \<Rightarrow> map_option (\<lambda>(_, rk', t). (t, rk_fingerprint rk')) (find (same_key owner rk) claims))"
proof (induction claims arbitrary: spec)
  case (Cons c claims)
  obtain o' rk' t where c: "c = (o', rk', t)" by (cases c)
  have "spec_run spec (c # claims) = spec_run (spec_claim spec o' rk' t) claims" by (simp add: spec_run_def c)
  then show ?case
    by (simp only: Cons.IH) (auto simp: c spec_claim_def Let_def same_key_def split: option.split)
qed (simp add: spec_run_def split: option.split)

lemma find_SomeD: "find p xs = Some x \<Longrightarrow> x \<in> set xs \<and> p x"
  by (induction xs) (auto split: if_splits)

lemma run_claims_refines:
  assumes "rows_distinct cx U" "list_all (\<lambda>(_, rk, _). rk \<in> U) claims" "refines cx U db spec"
  shows "refines cx U (run_claims cx db claims) (spec_run spec claims) \<and> memory_rows (run_claims cx db claims) = memory_rows db"
  using assms(2,3)
proof (induction claims arbitrary: db spec)
  case (Cons c claims)
  obtain owner rk t where c: "c = (owner, rk, t)" by (cases c)
  have rk: "rk \<in> U" and rest: "list_all (\<lambda>(_, rk, _). rk \<in> U) claims" using Cons.prems(1) by (simp_all add: c)
  note step = claim_request_refines [OF assms(1) Cons.prems(2) rk, of owner t]
  from Cons.IH [OF rest step(2)] step(3) show ?case by (simp add: c run_claims_def spec_run_def)
qed (simp add: run_claims_def spec_run_def)

section \<open>Properties\<close>

text \<open>
  C16. The two hashed rows implement the contract: related states give the same verdict on every request, and a claim
  moves them to related states, as long as no two of the requests made collide.
\<close>

theorem ledger_refinement:
  assumes "rows_distinct cx U" "refines cx U db spec" "rk \<in> U"
  shows "judge_request cx db owner rk = spec_judge cx (memory_rows db) spec owner rk \<and>
    fst (claim_request cx db owner rk t) = spec_judge cx (memory_rows db) spec owner rk \<and>
    refines cx U (snd (claim_request cx db owner rk t)) (spec_claim spec owner rk t)"
  using judge_request_refines [OF assms(2,3)] claim_request_refines(1,2) [OF assms] by blast

text \<open>
  C5. One meaning for a key. After any history of claims on an empty ledger a claim is fresh iff its key was never
  claimed in its owner's scope; otherwise it answers by the first claim: the same content replays that admission and
  other content is a conflict naming it.
\<close>

theorem first_claim_decides:
  assumes "rows_distinct cx U" "list_all (\<lambda>(_, rk, _). rk \<in> U) claims" "rk \<in> U"
    and "db = \<lparr>ingest_keys = \<lambda>_. None, memory_rows = mem\<rparr>"
    and "list_all (\<lambda>(o', _, t'). mem (t', owner_uuid o') = Some (handle_of t', forgot t')) claims"
  shows "fst (claim_request cx (run_claims cx db claims) owner rk t) =
    (case find (same_key owner rk) claims of
       None \<Rightarrow> Inr KvFresh
     | Some (_, rk', t') \<Rightarrow>
         if rk_fingerprint rk' = rk_fingerprint rk
         then Inr (KvReplay \<lparr>rr_memory_id = t', rr_handle = handle_of t', rr_forgotten = forgot t'\<rparr>)
         else Inl (SeIdempotencyConflict (rk_key rk) (Some t')))"
proof -
  have "refines cx U db (\<lambda>_. None)" by (simp add: refines_def assms(4))
  note run = run_claims_refines [OF assms(1,2) this]
  have "fst (claim_request cx (run_claims cx db claims) owner rk t) = spec_judge cx mem (spec_run (\<lambda>_. None) claims) owner rk"
    using claim_request_refines(1) [OF assms(1) conjunct1 [OF run] assms(3), of owner t] run assms(4) by simp
  moreover have "mem (t', owner_uuid owner) = Some (handle_of t', forgot t')" if "find (same_key owner rk) claims = Some (o', rk', t')" for o' rk' t'
  proof -
    from find_SomeD [OF that] have "(o', rk', t') \<in> set claims" "o' = owner" by (auto simp: same_key_def)
    with assms(5) show ?thesis by (auto simp: list_all_iff)
  qed
  ultimately show ?thesis
    by (simp add: spec_judge_def spec_run_first split: option.split)
qed

section \<open>A concrete ledger\<close>

definition demo_codec :: row_codec where
  "demo_codec = \<lparr>b3 = id, hx = map unat, hyph = hyphenated\<rparr>"

definition demo_request :: "str \<Rightarrow> byte \<Rightarrow> request_key" where
  "demo_request key fp = \<lparr>rk_scope = KsNote, rk_key = key, rk_fingerprint = [fp]\<rparr>"

lemma demo_rows_distinct: "rows_distinct demo_codec {demo_request (lit ''k'') 1, demo_request (lit ''k'') 2}"
proof -
  have "inj (map (unat :: byte \<Rightarrow> nat))" by (intro inj_mapI injI) (rule unsigned_word_eqI)
  from inj_on_subset [OF this subset_UNIV] have "inj_on (\<lambda>bs. map (unat :: byte \<Rightarrow> nat) (id bs)) S" for S by simp
  note inj = this
  have "str_ok (lit ''k'')" by (simp add: str_ok_def scalar_def str_len_def utf8_char_def)
  then show ?thesis
    unfolding rows_distinct_def demo_codec_def row_codec.simps using inj hyphenated_text by (auto simp: demo_request_def)
qed

theorem ledger_refinement_witness:
  "fst (claim_request demo_codec \<lparr>ingest_keys = \<lambda>_. None, memory_rows = \<lambda>_. None\<rparr> (OwnerId 9) (demo_request (lit ''k'') 1) 5) = Inr KvFresh \<and>
   refines demo_codec {demo_request (lit ''k'') 1, demo_request (lit ''k'') 2}
     (snd (claim_request demo_codec \<lparr>ingest_keys = \<lambda>_. None, memory_rows = \<lambda>_. None\<rparr> (OwnerId 9) (demo_request (lit ''k'') 1) 5))
     [(OwnerId 9, KsNote, lit ''k'') \<mapsto> (5, [1])]"
proof -
  have "refines demo_codec {demo_request (lit ''k'') 1, demo_request (lit ''k'') 2} \<lparr>ingest_keys = \<lambda>_. None, memory_rows = \<lambda>_. None\<rparr> (\<lambda>_. None)"
    by (simp add: refines_def)
  from ledger_refinement [OF demo_rows_distinct this, of "demo_request (lit ''k'') 1" "OwnerId 9" 5]
  show ?thesis by (simp add: spec_judge_def spec_claim_def demo_request_def)
qed

theorem first_claim_decides_witness:
  "fst (claim_request demo_codec
     (run_claims demo_codec \<lparr>ingest_keys = \<lambda>_. None, memory_rows = \<lambda>_. Some (7, False)\<rparr> [(OwnerId 9, demo_request (lit ''k'') 1, 5)])
     (OwnerId 9) (demo_request (lit ''k'') 2) 6) = Inl (SeIdempotencyConflict (lit ''k'') (Some 5)) \<and>
   fst (claim_request demo_codec
     (run_claims demo_codec \<lparr>ingest_keys = \<lambda>_. None, memory_rows = \<lambda>_. Some (7, False)\<rparr> [(OwnerId 9, demo_request (lit ''k'') 1, 5)])
     (OwnerId 9) (demo_request (lit ''k'') 1) 6) = Inr (KvReplay \<lparr>rr_memory_id = 5, rr_handle = 7, rr_forgotten = False\<rparr>)"
  using first_claim_decides [OF demo_rows_distinct, of "[(OwnerId 9, demo_request (lit ''k'') 1, 5)]" "demo_request (lit ''k'') 2"
      "\<lparr>ingest_keys = \<lambda>_. None, memory_rows = \<lambda>_. Some (7, False)\<rparr>" "\<lambda>_. Some (7, False)" "\<lambda>_. 7" "\<lambda>_. False" "OwnerId 9" 6]
    first_claim_decides [OF demo_rows_distinct, of "[(OwnerId 9, demo_request (lit ''k'') 1, 5)]" "demo_request (lit ''k'') 1"
      "\<lparr>ingest_keys = \<lambda>_. None, memory_rows = \<lambda>_. Some (7, False)\<rparr>" "\<lambda>_. Some (7, False)" "\<lambda>_. 7" "\<lambda>_. False" "OwnerId 9" 6]
  by (simp add: same_key_def demo_request_def)

end
