(* ===== verification/Outbox.thy ===== *)
theory Outbox
  imports Surfaces Framing "HOL-Library.Product_Lexorder"
begin

text \<open>
  The publication outbox of the Postgres storage (\<open>crates/storage-pg/src/verbs/publication_outbox.rs\<close>) behind the
  drain port (\<open>crates/core/src/storage_ports/publication.rs\<close>). A table is the list of its rows. Every operation is one
  transaction at READ COMMITTED. A claim, mark, renewal, release, retirement or forget locks the rows it changes, so such
  operations form a sequence and a run is a list of operations. A capture locks nothing when it probes the backlog: it
  decides on the outbox \<open>seen\<close> by its probe and writes into the outbox \<open>db\<close> of its later statements, and a run allows
  any \<open>seen\<close>. A lane another transaction holds locked, or has not committed yet, is passed to a claim as
  \<open>locked\<close>, as \<open>SKIP LOCKED\<close> leaves it out. Times and durations are in milliseconds; \<open>now\<close> is the transaction's
  instant. \<open>tok\<close> gives the tokens \<open>uuidv7()\<close> mints, \<open>pg\<close> the texts of Postgres's own refusals; a failed statement
  rolls the transaction back.
\<close>

section \<open>Names\<close>

datatype consumer_name_error = CnEmpty | CnIllegalCharacter str | CnTooLong nat

definition CONSUMER_MAX_LEN :: nat where "CONSUMER_MAX_LEN = 63"

definition consumer_name_new :: "str \<Rightarrow> (consumer_name_error, str) result" where
  "consumer_name_new raw =
     (case raw of
        [] \<Rightarrow> Inl CnEmpty
      | first # _ \<Rightarrow>
          if str_len raw > CONSUMER_MAX_LEN then Inl (CnTooLong (str_len raw))
          else let lower_alnum = (\<lambda>c. is_ascii_lowercase c \<or> is_ascii_digit c) in
            if \<not> lower_alnum first \<or> \<not> list_all (\<lambda>c. lower_alnum c \<or> c = 95 \<or> c = 45) raw then Inl (CnIllegalCharacter raw)
            else Inr raw)"

datatype publisher_id_error = PiEmpty | PiIllegalCharacter str | PiTooLong nat

definition publisher_id_new :: "str \<Rightarrow> (publisher_id_error, str) result" where
  "publisher_id_new raw =
     (if trim raw = [] then Inl PiEmpty
      else if list_ex is_control raw then Inl (PiIllegalCharacter raw)
      else if str_len raw > 128 then Inl (PiTooLong (str_len raw))
      else Inr raw)"

section \<open>Tables\<close>

datatype lane_state =
    LanePending
  | LaneClaimed (lc_token: uuid) (lc_by: str) (lc_lease: system_time)
  | LanePublished system_time

record lane =
  ln_t :: uuid
  ln_consumer :: str
  ln_state :: lane_state
  ln_attempts :: nat

record out_record =
  ox_t :: uuid
  ox_owner :: uuid
  ox_schema_id :: str
  ox_schema_version :: int
  ox_event_type :: str
  ox_event_id :: str
  ox_envelope :: "byte list"
  ox_digest :: "byte list"
  ox_published_at :: "system_time option"

record outbox =
  ob_records :: "out_record list"
  ob_lanes :: "lane list"
  ob_consumers :: "str list"
  ob_origins :: "(uuid \<times> uuid \<times> str option) list"
  ob_erased :: "uuid list"
  ob_owners :: "uuid list"
  ob_backlog :: "nat \<times> system_time"
  ob_heads :: "(uuid \<times> uuid) list"
  ob_counters :: "(uuid \<times> nat) list"
  ob_facts :: "((uuid \<times> uuid) \<times> str option) list"

record pg_messages =
  pg_unique :: str
  pg_foreign_key :: str
  pg_out_of_range :: str

fun lane_published :: "lane_state \<Rightarrow> bool" where
  "lane_published (LanePublished _) = True"
| "lane_published _ = False"

fun claim_live :: "system_time \<Rightarrow> uuid \<Rightarrow> lane_state \<Rightarrow> bool" where
  "claim_live now token (LaneClaimed tok _ lease) = (tok = token \<and> now < lease)"
| "claim_live now token _ = False"

fun claim_holds :: "uuid \<Rightarrow> lane_state \<Rightarrow> bool" where
  "claim_holds token (LaneClaimed tok _ _) = (tok = token)"
| "claim_holds token _ = False"

fun claimable :: "system_time \<Rightarrow> lane_state \<Rightarrow> bool" where
  "claimable now LanePending = True"
| "claimable now (LaneClaimed _ _ lease) = (lease < now)"
| "claimable now (LanePublished _) = False"

definition deliverable :: "outbox \<Rightarrow> out_record \<Rightarrow> bool" where
  "deliverable db r \<longleftrightarrow>
     list_ex (\<lambda>(t, original, _). t = ox_t r \<and> original = ox_owner r \<and> original \<in> set (ob_owners db)) (ob_origins db) \<and>
     ox_t r \<notin> set (ob_erased db)"

definition lane_deliverable :: "outbox \<Rightarrow> lane \<Rightarrow> bool" where
  "lane_deliverable db l \<longleftrightarrow> list_ex (\<lambda>r. ox_t r = ln_t l \<and> deliverable db r) (ob_records db)"

definition pending_count :: "outbox \<Rightarrow> nat" where
  "pending_count db = length (filter (\<lambda>r. ox_published_at r = None) (ob_records db))"

section \<open>Capture\<close>

definition BACKLOG_ESTIMATE_VALID_FOR :: int where "BACKLOG_ESTIMATE_VALID_FOR = 30000"
definition BACKLOG_ESTIMATE_REFRESH_AFTER :: int where "BACKLOG_ESTIMATE_REFRESH_AFTER = 10000"

definition fresh_backlog_estimate :: "outbox \<Rightarrow> system_time \<Rightarrow> nat option" where
  "fresh_backlog_estimate db now =
     (if now - BACKLOG_ESTIMATE_VALID_FOR < snd (ob_backlog db) then Some (fst (ob_backlog db)) else None)"

definition refresh_backlog_estimate :: "outbox \<Rightarrow> system_time \<Rightarrow> outbox" where
  "refresh_backlog_estimate db now =
     (if snd (ob_backlog db) < now - BACKLOG_ESTIMATE_REFRESH_AFTER then db\<lparr>ob_backlog := (pending_count db, now)\<rparr> else db)"

definition refuse_when_full :: "outbox \<Rightarrow> publication_limits \<Rightarrow> system_time \<Rightarrow> (storage_error, unit) result" where
  "refuse_when_full db limits now =
     (if is_some_and (fresh_backlog_estimate db now) (\<lambda>pending. pending < unat (max_pending limits)) then Inr ()
      else if max_pending limits = 0 then Inl (SePublicationRefused (CapacityExhausted 0 0))
      else let offset = unat (max_pending limits) - 1 in
        if offset \<ge> 2 ^ 63 then Inl (SeConstraintViolation (lit ''max_pending does not fit a bigint offset''))
        else if drop offset (filter (\<lambda>r. ox_published_at r = None) (ob_records db)) = [] then Inr ()
        else Inl (SePublicationRefused (CapacityExhausted (max_pending limits) (max_pending limits))))"

definition next_series_position :: "pg_messages \<Rightarrow> outbox \<Rightarrow> uuid \<Rightarrow> (storage_error, subject_position \<times> outbox) result" where
  "next_series_position pg db handle =
     (if map_of (ob_heads db) handle = None
      then Inl (SeConstraintViolation (lit ''publication capture requires the series head its admission just wrote''))
      else let sq = (case map_of (ob_counters db) handle of None \<Rightarrow> 1 | Some n \<Rightarrow> n + 1) in
        if sq \<ge> 2 ^ 63 then Inl (SeInternal (pg_out_of_range pg))
        else if sq = 0 then Inl (SeInternal (lit ''publication_counter.sequence is not positive after an increment''))
        else Inr (\<lparr>sp_subject = handle, sp_sequence = of_nat sq\<rparr>, db\<lparr>ob_counters := AList.update handle sq (ob_counters db)\<rparr>))"

definition outbox_row :: "uuid \<Rightarrow> sealed_publication \<Rightarrow> system_time option \<Rightarrow> out_record" where
  "outbox_row owner sealed published_at =
     \<lparr>ox_t = sl_id sealed, ox_owner = owner, ox_schema_id = sl_schema_id sealed,
      ox_schema_version = int (unat (sl_schema_version sealed)), ox_event_type = sl_event_type sealed,
      ox_event_id = sl_event_id sealed, ox_envelope = sl_bytes sealed, ox_digest = sl_digest sealed,
      ox_published_at = published_at\<rparr>"

definition fan_out :: "outbox \<Rightarrow> uuid \<Rightarrow> lane list" where
  "fan_out db t = map (\<lambda>name. \<lparr>ln_t = t, ln_consumer = name, ln_state = LanePending, ln_attempts = 0\<rparr>) (ob_consumers db)"

definition capture_publication ::
  "pg_messages \<Rightarrow> (uuid \<Rightarrow> str) \<Rightarrow> (system_time \<Rightarrow> (str, str) result) \<Rightarrow> (json \<Rightarrow> (str, byte list) result) \<Rightarrow>
   (byte list \<Rightarrow> byte list) \<Rightarrow> outbox \<Rightarrow> outbox \<Rightarrow> uuid \<Rightarrow> uuid \<Rightarrow>
   system_time option \<Rightarrow> publication_plan \<Rightarrow> subject_position \<Rightarrow> system_time \<Rightarrow> (storage_error, outbox) result" where
  "capture_publication pg hyph rfc3339 to_vec blake3 seen db owner t occurred_at plan position now =
     rbind (ok_or (SeInternal (lit ''publication capture requires the occurrence time of a new Fact admission'')) occurred_at) (\<lambda>at.
     rbind (refuse_when_full seen (pp_limits plan) now) (\<lambda>_.
     rbind (map_err SePublicationRefused (seal hyph rfc3339 to_vec blake3 plan t at position)) (\<lambda>sealed.
       if unat (sl_schema_version sealed) \<ge> 2 ^ 31
       then Inl (SeConstraintViolation (lit ''schema version does not fit an integer column''))
       else if sl_id sealed \<in> ox_t ` set (ob_records db) \<or> sl_event_id sealed \<in> ox_event_id ` set (ob_records db)
       then Inl (SeConstraintViolation (pg_unique pg))
       else if owner \<notin> set (ob_owners db) then Inl (SeConflict (pg_foreign_key pg))
       else rbind (ok_or (SeConstraintViolation (lit ''publication capture requires its freshly inserted retained Fact''))
           (map_of (ob_facts db) (t, owner))) (\<lambda>source_id.
         if t \<in> fst ` set (ob_origins db) then Inl (SeConstraintViolation (pg_unique pg))
         else Inr (db\<lparr>ob_records := outbox_row owner sealed (if fan_out db t = [] then Some now else None) # ob_records db,
           ob_lanes := fan_out db t @ ob_lanes db, ob_origins := (t, owner, source_id) # ob_origins db\<rparr>)))))"

section \<open>The drain port\<close>

record claimed_publication =
  cp_id :: uuid
  cp_event_id :: str
  cp_owner :: uuid
  cp_schema_id :: str
  cp_schema_version :: u32
  cp_event_type :: str
  cp_envelope :: "byte list"
  cp_digest :: "byte list"
  cp_attempts :: u32
  cp_claim :: uuid
  cp_lease_expires_at :: system_time

datatype ack_outcome = AckPublished | AckAlreadyPublished | AckStaleClaim
datatype release_outcome = Released | ReleaseAlreadyPublished | ReleaseStaleClaim
datatype retire_outcome = Retired u64 | NotRegistered

definition MIN_CLAIM_LEASE :: nat where "MIN_CLAIM_LEASE = 1000"
definition MAX_ATTEMPTS :: nat where "MAX_ATTEMPTS = 2147483647"

definition claimed_from_row :: "(uuid \<Rightarrow> str) \<Rightarrow> out_record \<Rightarrow> nat \<Rightarrow> uuid \<Rightarrow> system_time \<Rightarrow> (storage_error, claimed_publication) result" where
  "claimed_from_row hyph r attempts token lease =
     (if length (ox_digest r) \<noteq> 32 then Inl (SeInternal (lit ''captured envelope digest is not 32 bytes''))
      else if ox_schema_version r < 0
      then Inl (SeInternal (lit ''publication '' @ hyph (ox_t r) @ lit '' carries schema version -'' @
        display_nat (nat (- ox_schema_version r)) @ lit '', which is not a version''))
      else Inr \<lparr>cp_id = ox_t r, cp_event_id = ox_event_id r, cp_owner = ox_owner r, cp_schema_id = ox_schema_id r,
        cp_schema_version = of_int (ox_schema_version r), cp_event_type = ox_event_type r, cp_envelope = ox_envelope r,
        cp_digest = ox_digest r, cp_attempts = of_nat attempts, cp_claim = token, cp_lease_expires_at = lease\<rparr>)"

fun collect_results :: "('e, 'a) result list \<Rightarrow> ('e, 'a list) result" where
  "collect_results [] = Inr []"
| "collect_results (r # rs) = rbind r (\<lambda>x. rbind (collect_results rs) (\<lambda>xs. Inr (x # xs)))"

definition claim_lanes :: "outbox \<Rightarrow> (uuid \<Rightarrow> bool) \<Rightarrow> str \<Rightarrow> nat \<Rightarrow> system_time \<Rightarrow> lane list" where
  "claim_lanes db locked consumer limit now =
     take limit (sort_key (\<lambda>l. (ln_attempts l, ln_t l))
       (filter (\<lambda>l. ln_consumer l = consumer \<and> claimable now (ln_state l) \<and> lane_deliverable db l \<and> \<not> locked (ln_t l)) (ob_lanes db)))"

definition lease_lane :: "(uuid \<Rightarrow> uuid) \<Rightarrow> str \<Rightarrow> nat \<Rightarrow> system_time \<Rightarrow> lane \<Rightarrow> lane" where
  "lease_lane tok publisher lease now l =
     l\<lparr>ln_state := LaneClaimed (tok (ln_t l)) publisher (now + int lease), ln_attempts := min (ln_attempts l + 1) MAX_ATTEMPTS\<rparr>"

definition chosen :: "outbox \<Rightarrow> (uuid \<Rightarrow> bool) \<Rightarrow> str \<Rightarrow> nat \<Rightarrow> system_time \<Rightarrow> lane \<Rightarrow> bool" where
  "chosen db locked consumer limit now l \<longleftrightarrow> ln_consumer l = consumer \<and> ln_t l \<in> ln_t ` set (claim_lanes db locked consumer limit now)"

definition lease_chosen :: "(uuid \<Rightarrow> uuid) \<Rightarrow> (uuid \<Rightarrow> bool) \<Rightarrow> outbox \<Rightarrow> str \<Rightarrow> str \<Rightarrow> nat \<Rightarrow> nat \<Rightarrow> system_time \<Rightarrow> lane \<Rightarrow> lane" where
  "lease_chosen tok locked db consumer publisher limit lease now l =
     (if chosen db locked consumer limit now l then lease_lane tok publisher lease now l else l)"

definition leased_rows :: "outbox \<Rightarrow> lane list \<Rightarrow> (out_record \<times> lane) list" where
  "leased_rows db leased = concat (map (\<lambda>l. map (\<lambda>r. (r, l)) (filter (\<lambda>r. ox_t r = ln_t l \<and> ox_owner r \<in> set (ob_owners db)) (ob_records db)))
     (sort_key (\<lambda>l. (ln_attempts l, ln_t l)) leased))"

definition claim_publications ::
  "(uuid \<Rightarrow> str) \<Rightarrow> (uuid \<Rightarrow> uuid) \<Rightarrow> (uuid \<Rightarrow> bool) \<Rightarrow> outbox \<Rightarrow> str \<Rightarrow> str \<Rightarrow> nat \<Rightarrow> nat \<Rightarrow> system_time \<Rightarrow>
   (storage_error, claimed_publication list) result \<times> outbox" where
  "claim_publications hyph tok locked db consumer publisher limit lease now =
     (if lease < MIN_CLAIM_LEASE
      then (Inl (SeConstraintViolation (lit ''publication claim lease is '' @ display_nat lease @ lit '' ms, under the '' @
        display_nat MIN_CLAIM_LEASE @ lit '' ms floor; a lease shorter than one delivery expires while the first publisher is still delivering, so every record would be re-claimed under it'')), db)
      else let leased = map (lease_lane tok publisher lease now) (filter (chosen db locked consumer limit now) (ob_lanes db)) in
        (case collect_results (map (\<lambda>(r, l). claimed_from_row hyph r (ln_attempts l) (tok (ln_t l)) (now + int lease)) (leased_rows db leased)) of
           Inl err \<Rightarrow> (Inl err, db)
         | Inr cs \<Rightarrow> (Inr cs, refresh_backlog_estimate
             (db\<lparr>ob_lanes := map (lease_chosen tok locked db consumer publisher limit lease now) (ob_lanes db)\<rparr>) now)))"

definition settle_records :: "outbox \<Rightarrow> uuid list \<Rightarrow> system_time \<Rightarrow> outbox" where
  "settle_records db ids now =
     db\<lparr>ob_records := map (\<lambda>r.
        if ox_t r \<in> set ids \<and> ox_published_at r = None \<and>
           list_all (\<lambda>l. ln_t l = ox_t r \<longrightarrow> lane_published (ln_state l)) (ob_lanes db)
        then r\<lparr>ox_published_at := Some now\<rparr> else r) (ob_records db)\<rparr>"

definition marks :: "outbox \<Rightarrow> str \<Rightarrow> (uuid \<times> uuid) list \<Rightarrow> system_time \<Rightarrow> lane \<Rightarrow> bool" where
  "marks db consumer claims now l \<longleftrightarrow>
     ln_consumer l = consumer \<and> list_ex (\<lambda>(t, token). t = ln_t l \<and> claim_live now token (ln_state l)) claims \<and> lane_deliverable db l"

definition mark_published_batch :: "outbox \<Rightarrow> str \<Rightarrow> (uuid \<times> uuid) list \<Rightarrow> system_time \<Rightarrow> ack_outcome list \<times> outbox" where
  "mark_published_batch db consumer claims now =
     (if claims = [] then ([], db)
      else let hit = marks db consumer claims now;
               published = map ln_t (filter hit (ob_lanes db));
               db1 = db\<lparr>ob_lanes := map (\<lambda>l. if hit l then l\<lparr>ln_state := LanePublished now\<rparr> else l) (ob_lanes db)\<rparr>;
               db2 = (if published = [] then db1 else settle_records db1 published now);
               already = map ln_t (filter (\<lambda>l. ln_t l \<in> fst ` set claims \<and> ln_consumer l = consumer \<and> lane_published (ln_state l)) (ob_lanes db2)) in
        (map (\<lambda>(t, _). if t \<in> set published then AckPublished
           else if t \<in> set already then AckAlreadyPublished else AckStaleClaim) claims, db2))"

definition mark_published :: "outbox \<Rightarrow> str \<Rightarrow> uuid \<Rightarrow> uuid \<Rightarrow> system_time \<Rightarrow> (storage_error, ack_outcome) result \<times> outbox" where
  "mark_published db consumer t token now =
     (case mark_published_batch db consumer [(t, token)] now of
        (o1 # _, db') \<Rightarrow> (Inr o1, db')
      | ([], db') \<Rightarrow> (Inl (SeInternal (lit ''a batch mark of one claim returned no outcome'')), db'))"

definition renew_claim :: "outbox \<Rightarrow> str \<Rightarrow> uuid \<Rightarrow> uuid \<Rightarrow> nat \<Rightarrow> system_time \<Rightarrow> (storage_error, bool) result \<times> outbox" where
  "renew_claim db consumer t token lease now =
     (if lease < MIN_CLAIM_LEASE
      then (Inl (SeConstraintViolation (lit ''publication renew lease is '' @ display_nat lease @ lit '' ms, under the '' @
        display_nat MIN_CLAIM_LEASE @ lit '' ms floor'')), db)
      else let hit = (\<lambda>l. ln_t l = t \<and> ln_consumer l = consumer \<and> claim_live now token (ln_state l) \<and> lane_deliverable db l) in
        (Inr (length (filter hit (ob_lanes db)) = 1),
         db\<lparr>ob_lanes := map (\<lambda>l. if hit l then l\<lparr>ln_state := LaneClaimed token (lc_by (ln_state l)) (now + int lease)\<rparr> else l) (ob_lanes db)\<rparr>))"

definition current_lane_state :: "outbox \<Rightarrow> uuid \<Rightarrow> str \<Rightarrow> lane_state option" where
  "current_lane_state db t consumer = map_option ln_state (find (\<lambda>l. ln_t l = t \<and> ln_consumer l = consumer) (ob_lanes db))"

definition release_claim :: "outbox \<Rightarrow> str \<Rightarrow> uuid \<Rightarrow> uuid \<Rightarrow> release_outcome \<times> outbox" where
  "release_claim db consumer t token =
     (let hit = (\<lambda>l. ln_t l = t \<and> ln_consumer l = consumer \<and> claim_holds token (ln_state l));
          db' = db\<lparr>ob_lanes := map (\<lambda>l. if hit l then l\<lparr>ln_state := LanePending\<rparr> else l) (ob_lanes db)\<rparr> in
      (if list_ex hit (ob_lanes db) then Released
       else if is_some_and (current_lane_state db' t consumer) lane_published then ReleaseAlreadyPublished
       else ReleaseStaleClaim, db'))"

section \<open>Consumers, forgetting and retention\<close>

definition register_consumer :: "outbox \<Rightarrow> str \<Rightarrow> outbox" where
  "register_consumer db consumer = (if consumer \<in> set (ob_consumers db) then db else db\<lparr>ob_consumers := consumer # ob_consumers db\<rparr>)"

definition retire_consumer :: "outbox \<Rightarrow> str \<Rightarrow> system_time \<Rightarrow> retire_outcome \<times> outbox" where
  "retire_consumer db consumer now =
     (let owed = map ln_t (filter (\<lambda>l. ln_consumer l = consumer \<and> \<not> lane_published (ln_state l)) (ob_lanes db)) in
      if consumer \<notin> set (ob_consumers db) then (NotRegistered, db)
      else (Retired (count_u64 (length owed)),
        settle_records (db\<lparr>ob_consumers := filter (\<lambda>c. c \<noteq> consumer) (ob_consumers db),
          ob_lanes := filter (\<lambda>l. ln_consumer l \<noteq> consumer) (ob_lanes db)\<rparr>) owed now))"

definition cancel_undelivered_for_forget :: "outbox \<Rightarrow> uuid \<Rightarrow> system_time \<Rightarrow> outbox" where
  "cancel_undelivered_for_forget db t now =
     (if t \<notin> ox_t ` set (ob_records db) then db
      else let db1 = db\<lparr>ob_lanes := filter (\<lambda>l. ln_t l \<noteq> t \<or> lane_published (ln_state l)) (ob_lanes db)\<rparr> in
        if t \<notin> ln_t ` set (ob_lanes db1) then db1\<lparr>ob_records := filter (\<lambda>r. ox_t r \<noteq> t) (ob_records db1)\<rparr>
        else settle_records db1 [t] now)"

definition check_origin :: "outbox \<Rightarrow> owner_id \<Rightarrow> uuid \<Rightarrow> bool" where
  "check_origin db original_owner fact_id \<longleftrightarrow>
     list_ex (\<lambda>(t, original, _). t = fact_id \<and> original = owner_uuid original_owner \<and> t \<notin> set (ob_erased db)) (ob_origins db)"

definition prune_published :: "outbox \<Rightarrow> nat \<Rightarrow> nat \<Rightarrow> system_time \<Rightarrow> nat \<times> outbox" where
  "prune_published db older_than limit now =
     (let old = take limit (sort_key (\<lambda>r. the (ox_published_at r))
            (filter (\<lambda>r. is_some_and (ox_published_at r) (\<lambda>at. at < now - int older_than)) (ob_records db)));
          gone = map ox_t old in
      (length old, db\<lparr>ob_records := filter (\<lambda>r. ox_t r \<notin> set gone) (ob_records db),
         ob_lanes := filter (\<lambda>l. ln_t l \<notin> set gone) (ob_lanes db)\<rparr>))"

section \<open>Runs\<close>

text \<open>
  The operations of every process on one database, as a sequence; a capture carries the outbox its probe saw. \<open>OpErase\<close> is the hard deletion other verbs perform:
  the record goes with its lanes and its origin, and the target is remembered as erased.
\<close>

record outbox_env =
  oe_pg :: pg_messages
  oe_hyph :: "uuid \<Rightarrow> str"
  oe_rfc3339 :: "system_time \<Rightarrow> (str, str) result"
  oe_to_vec :: "json \<Rightarrow> (str, byte list) result"
  oe_blake3 :: "byte list \<Rightarrow> byte list"

datatype outbox_op =
    OpCapture outbox uuid uuid "system_time option" publication_plan subject_position system_time
  | OpClaim "uuid \<Rightarrow> uuid" "uuid \<Rightarrow> bool" str str nat nat system_time
  | OpMark str "(uuid \<times> uuid) list" system_time
  | OpRenew str uuid uuid nat system_time
  | OpRelease str uuid uuid
  | OpRegister str
  | OpRetire str system_time
  | OpForget uuid system_time
  | OpPrune nat nat system_time
  | OpErase uuid

fun run_op :: "outbox_env \<Rightarrow> outbox \<Rightarrow> outbox_op \<Rightarrow> outbox" where
  "run_op e db (OpCapture seen owner t at plan pos now) =
     (case capture_publication (oe_pg e) (oe_hyph e) (oe_rfc3339 e) (oe_to_vec e) (oe_blake3 e) seen db owner t at plan pos now of
        Inl _ \<Rightarrow> db | Inr db' \<Rightarrow> db')"
| "run_op e db (OpClaim tok locked c p limit lease now) = snd (claim_publications (oe_hyph e) tok locked db c p limit lease now)"
| "run_op e db (OpMark c claims now) = snd (mark_published_batch db c claims now)"
| "run_op e db (OpRenew c t token lease now) = snd (renew_claim db c t token lease now)"
| "run_op e db (OpRelease c t token) = snd (release_claim db c t token)"
| "run_op e db (OpRegister c) = register_consumer db c"
| "run_op e db (OpRetire c now) = snd (retire_consumer db c now)"
| "run_op e db (OpForget t now) = cancel_undelivered_for_forget db t now"
| "run_op e db (OpPrune older limit now) = snd (prune_published db older limit now)"
| "run_op e db (OpErase t) = db\<lparr>ob_records := filter (\<lambda>r. ox_t r \<noteq> t) (ob_records db), ob_lanes := filter (\<lambda>l. ln_t l \<noteq> t) (ob_lanes db),
     ob_origins := filter (\<lambda>og. fst og \<noteq> t) (ob_origins db), ob_erased := t # ob_erased db\<rparr>"

definition run_ops :: "outbox_env \<Rightarrow> outbox \<Rightarrow> outbox_op list \<Rightarrow> outbox" where
  "run_ops e db ops = foldl (run_op e) db ops"

section \<open>Table invariants\<close>

text \<open>Primary keys, foreign keys and column checks of the schema.\<close>

definition tables_ok :: "outbox \<Rightarrow> bool" where
  "tables_ok db \<longleftrightarrow>
     distinct (map ox_t (ob_records db)) \<and>
     distinct (map (\<lambda>l. (ln_t l, ln_consumer l)) (ob_lanes db)) \<and>
     distinct (ob_consumers db) \<and>
     (\<forall>l \<in> set (ob_lanes db). ln_t l \<in> ox_t ` set (ob_records db) \<and> ln_consumer l \<in> set (ob_consumers db) \<and> ln_attempts l \<le> MAX_ATTEMPTS)"

text \<open>A record is published exactly when no lane of it is undelivered.\<close>

definition settled :: "outbox \<Rightarrow> bool" where
  "settled db \<longleftrightarrow> (\<forall>r \<in> set (ob_records db).
     ox_published_at r \<noteq> None \<longleftrightarrow> (\<forall>l \<in> set (ob_lanes db). ln_t l = ox_t r \<longrightarrow> lane_published (ln_state l)))"

definition outbox_ok :: "outbox \<Rightarrow> bool" where
  "outbox_ok db \<longleftrightarrow> tables_ok db \<and> settled db"

text \<open>Updating lanes in place keeps the keys.\<close>

lemma lanes_update_ok:
  assumes "tables_ok db" "\<And>l. ln_t (f l) = ln_t l \<and> ln_consumer (f l) = ln_consumer l \<and> (ln_attempts l \<le> MAX_ATTEMPTS \<longrightarrow> ln_attempts (f l) \<le> MAX_ATTEMPTS)"
  shows "tables_ok (db\<lparr>ob_lanes := map f (ob_lanes db)\<rparr>)"
proof -
  have "map (\<lambda>l. (ln_t l, ln_consumer l)) (map f (ob_lanes db)) = map (\<lambda>l. (ln_t l, ln_consumer l)) (ob_lanes db)"
    using assms(2) by simp
  then show ?thesis using assms by (auto simp: tables_ok_def simp del: map_map)
qed

lemma lanes_update_settled:
  assumes "settled db" "\<And>l. l \<in> set (ob_lanes db) \<Longrightarrow> ln_t (f l) = ln_t l \<and> lane_published (ln_state (f l)) = lane_published (ln_state l)"
  shows "settled (db\<lparr>ob_lanes := map f (ob_lanes db)\<rparr>)"
  using assms by (auto simp: settled_def)

lemma settle_records_tables: "tables_ok db \<Longrightarrow> tables_ok (settle_records db ids now)"
proof -
  have "ox_t (if b then r\<lparr>ox_published_at := x\<rparr> else r) = ox_t r" for b r x by simp
  then have "map ox_t (ob_records (settle_records db ids now)) = map ox_t (ob_records db)" by (simp add: settle_records_def comp_def)
  moreover from this have "ox_t ` set (ob_records (settle_records db ids now)) = ox_t ` set (ob_records db)" by (metis list.set_map)
  ultimately show "tables_ok db \<Longrightarrow> tables_ok (settle_records db ids now)"
    by (simp add: tables_ok_def) (simp add: settle_records_def)
qed

text \<open>Settling the records whose lanes changed restores the aggregate state.\<close>

lemma settle_records_settled:
  assumes "\<And>r. r \<in> set (ob_records db) \<Longrightarrow> ox_published_at r \<noteq> None \<Longrightarrow> \<forall>l \<in> set (ob_lanes db). ln_t l = ox_t r \<longrightarrow> lane_published (ln_state l)"
    and "\<And>r. r \<in> set (ob_records db) \<Longrightarrow> ox_published_at r = None \<Longrightarrow> ox_t r \<notin> set ids \<Longrightarrow>
      \<exists>l \<in> set (ob_lanes db). ln_t l = ox_t r \<and> \<not> lane_published (ln_state l)"
  shows "settled (settle_records db ids now)"
  unfolding settled_def
proof
  fix r assume "r \<in> set (ob_records (settle_records db ids now))"
  then obtain r0 where r0: "r0 \<in> set (ob_records db)"
    and r: "r = (if ox_t r0 \<in> set ids \<and> ox_published_at r0 = None \<and> list_all (\<lambda>l. ln_t l = ox_t r0 \<longrightarrow> lane_published (ln_state l)) (ob_lanes db)
        then r0\<lparr>ox_published_at := Some now\<rparr> else r0)" by (auto simp: settle_records_def)
  have lanes: "ob_lanes (settle_records db ids now) = ob_lanes db" by (simp add: settle_records_def)
  show "ox_published_at r \<noteq> None \<longleftrightarrow> (\<forall>l \<in> set (ob_lanes (settle_records db ids now)). ln_t l = ox_t r \<longrightarrow> lane_published (ln_state l))"
    unfolding lanes using assms(1) [OF r0] assms(2) [OF r0] by (cases "ox_published_at r0") (auto simp: r list_all_iff)
qed

lemma settled_owed:
  assumes "settled db" "r \<in> set (ob_records db)" "ox_published_at r = None"
  obtains l where "l \<in> set (ob_lanes db)" "ln_t l = ox_t r" "\<not> lane_published (ln_state l)"
  using assms unfolding settled_def by (metis option.distinct(1))

lemma settled_published:
  "settled db \<Longrightarrow> r \<in> set (ob_records db) \<Longrightarrow> ox_published_at r \<noteq> None \<Longrightarrow> l \<in> set (ob_lanes db) \<Longrightarrow> ln_t l = ox_t r \<Longrightarrow> lane_published (ln_state l)"
  by (simp add: settled_def)

lemma lane_unique:
  assumes "tables_ok db" "l \<in> set (ob_lanes db)" "m \<in> set (ob_lanes db)" "ln_t l = ln_t m" "ln_consumer l = ln_consumer m"
  shows "l = m"
  using assms by (auto simp: tables_ok_def distinct_map inj_on_def)

lemma record_unique:
  assumes "tables_ok db" "r \<in> set (ob_records db)" "s \<in> set (ob_records db)" "ox_t r = ox_t s"
  shows "r = s"
  using assms by (auto simp: tables_ok_def distinct_map inj_on_def)

lemma claim_live_not_published: "claim_live now token st \<Longrightarrow> \<not> lane_published st"
  by (cases st) simp_all

lemma claim_holds_not_published: "claim_holds token st \<Longrightarrow> \<not> lane_published st"
  by (cases st) simp_all

lemma claimable_not_published: "claimable now st \<Longrightarrow> \<not> lane_published st"
  by (cases st) simp_all

lemma seal_id: "seal hyph rfc3339 to_vec blake3 plan t at pos = Inr sl \<Longrightarrow> sl_id sl = t \<and> sl_event_id sl = hyph t"
  by (auto simp: seal_def Let_def result_simps split: if_splits)

text \<open>What a successful capture adds.\<close>

lemma capture_Inr:
  assumes "capture_publication pg hyph rfc3339 to_vec blake3 seen db owner t at plan pos now = Inr db'"
  obtains r src where "t \<notin> ox_t ` set (ob_records db)" "ox_t r = t" "ox_owner r = owner"
    "ox_published_at r = (if ob_consumers db = [] then Some now else None)"
    "db' = db\<lparr>ob_records := r # ob_records db, ob_lanes := fan_out db t @ ob_lanes db, ob_origins := (t, owner, src) # ob_origins db\<rparr>"
proof -
  obtain at' sealed where at: "at = Some at'" and seal: "seal hyph rfc3339 to_vec blake3 plan t at' pos = Inr sealed"
    using assms by (cases at) (auto simp: capture_publication_def rbind_eq_Inr map_err_eq_Inr)
  obtain src where new: "sl_id sealed \<notin> ox_t ` set (ob_records db)"
    and db': "db' = db\<lparr>ob_records := outbox_row owner sealed (if fan_out db t = [] then Some now else None) # ob_records db,
      ob_lanes := fan_out db t @ ob_lanes db, ob_origins := (t, owner, src) # ob_origins db\<rparr>"
    using assms unfolding capture_publication_def at by (auto simp: seal rbind_eq_Inr split: if_splits)
  show ?thesis using new seal_id [OF seal] by (intro that [OF _ _ _ _ db']) (simp_all add: outbox_row_def fan_out_def)
qed

lemma capture_ok:
  assumes "outbox_ok db" "capture_publication pg hyph rfc3339 to_vec blake3 seen db owner t at plan pos now = Inr db'"
  shows "outbox_ok db'"
proof -
  obtain r src where t: "t \<notin> ox_t ` set (ob_records db)" and r: "ox_t r = t" "ox_published_at r = (if ob_consumers db = [] then Some now else None)"
    and db': "db' = db\<lparr>ob_records := r # ob_records db, ob_lanes := fan_out db t @ ob_lanes db, ob_origins := (t, owner, src) # ob_origins db\<rparr>"
    using assms(2) by (rule capture_Inr)
  have ok: "tables_ok db" "settled db" using assms(1) by (simp_all add: outbox_ok_def)
  have old: "ln_t l \<noteq> t" if "l \<in> set (ob_lanes db)" for l using ok(1) t that by (auto simp: tables_ok_def)
  have "tables_ok db'"
    using ok(1) t r(1) old unfolding tables_ok_def db' fan_out_def by (auto simp: distinct_map inj_on_def)
  moreover have "settled db'"
    using ok(2) t r old unfolding settled_def db' fan_out_def by (cases "ob_consumers db") (auto simp: image_iff)
  ultimately show ?thesis by (simp add: outbox_ok_def)
qed

lemma claim_lanes_hit:
  assumes "tables_ok db" "l \<in> set (ob_lanes db)" "chosen db locked c limit now l"
  shows "l \<in> set (claim_lanes db locked c limit now)" "claimable now (ln_state l)" "lane_deliverable db l"
proof -
  from assms(3) obtain m where m: "m \<in> set (claim_lanes db locked c limit now)" "ln_t m = ln_t l" and c: "ln_consumer l = c" by (auto simp: chosen_def)
  then have "m \<in> set (ob_lanes db)" "ln_consumer m = c" "claimable now (ln_state m)" "lane_deliverable db m"
    by (auto simp: claim_lanes_def dest!: in_set_takeD)
  with lane_unique [OF assms(1) _ assms(2)] m c show "l \<in> set (claim_lanes db locked c limit now)" "claimable now (ln_state l)" "lane_deliverable db l"
    by auto
qed

lemma refresh_backlog_frame [simp]:
  "ob_lanes (refresh_backlog_estimate db now) = ob_lanes db" "ob_records (refresh_backlog_estimate db now) = ob_records db"
  "ob_consumers (refresh_backlog_estimate db now) = ob_consumers db" "ob_origins (refresh_backlog_estimate db now) = ob_origins db"
  "ob_erased (refresh_backlog_estimate db now) = ob_erased db" "ob_owners (refresh_backlog_estimate db now) = ob_owners db"
  by (simp_all add: refresh_backlog_estimate_def)

lemma outbox_ok_backlog [simp]: "outbox_ok (refresh_backlog_estimate db now) = outbox_ok db"
  by (simp add: outbox_ok_def tables_ok_def settled_def)

lemma claim_cases:
  "snd (claim_publications hyph tok locked db c p limit lease now) = db \<or>
   snd (claim_publications hyph tok locked db c p limit lease now) =
     refresh_backlog_estimate (db\<lparr>ob_lanes := map (lease_chosen tok locked db c p limit lease now) (ob_lanes db)\<rparr>) now"
  by (simp add: claim_publications_def Let_def split: sum.split)

lemma claim_ok:
  assumes "outbox_ok db"
  shows "outbox_ok (snd (claim_publications hyph tok locked db c p limit lease now))"
  using claim_cases [of hyph tok locked db c p limit lease now]
proof
  assume 2: "snd (claim_publications hyph tok locked db c p limit lease now) =
     refresh_backlog_estimate (db\<lparr>ob_lanes := map (lease_chosen tok locked db c p limit lease now) (ob_lanes db)\<rparr>) now"
  have ok: "tables_ok db" "settled db" using assms by (simp_all add: outbox_ok_def)
  have "tables_ok (db\<lparr>ob_lanes := map (lease_chosen tok locked db c p limit lease now) (ob_lanes db)\<rparr>)"
    by (rule lanes_update_ok [OF ok(1)]) (simp add: lease_chosen_def lease_lane_def)
  moreover have "settled (db\<lparr>ob_lanes := map (lease_chosen tok locked db c p limit lease now) (ob_lanes db)\<rparr>)"
  proof (rule lanes_update_settled [OF ok(2)])
    fix l assume "l \<in> set (ob_lanes db)"
    from claim_lanes_hit(2) [OF ok(1) this, of locked c limit now] claimable_not_published [of now "ln_state l"]
    show "ln_t (lease_chosen tok locked db c p limit lease now l) = ln_t l \<and>
        lane_published (ln_state (lease_chosen tok locked db c p limit lease now l)) = lane_published (ln_state l)"
      by (simp add: lease_chosen_def lease_lane_def)
  qed
  ultimately show ?thesis unfolding 2 outbox_ok_backlog by (simp add: outbox_ok_def)
qed (use assms in simp)

definition mark_lane :: "outbox \<Rightarrow> str \<Rightarrow> (uuid \<times> uuid) list \<Rightarrow> system_time \<Rightarrow> lane \<Rightarrow> lane" where
  "mark_lane db c claims now l = (if marks db c claims now l then l\<lparr>ln_state := LanePublished now\<rparr> else l)"

lemma mark_snd:
  "snd (mark_published_batch db c claims now) =
     settle_records (db\<lparr>ob_lanes := map (mark_lane db c claims now) (ob_lanes db)\<rparr>) (map ln_t (filter (marks db c claims now) (ob_lanes db))) now"
proof -
  have m: "mark_lane db c claims now = (\<lambda>l. if marks db c claims now l then l\<lparr>ln_state := LanePublished now\<rparr> else l)"
    by (rule ext) (simp add: mark_lane_def)
  have nop: "settle_records d [] now = d" for d by (simp add: settle_records_def)
  show ?thesis
  proof (cases "claims = []")
    case True
    then have none: "marks db c claims now = (\<lambda>_. False)" by (auto simp: marks_def)
    have "mark_lane db c claims now = (\<lambda>l. l)" by (simp add: m none)
    with none show ?thesis unfolding True by (simp add: mark_published_batch_def nop)
  next
    case False
    then show ?thesis by (simp add: mark_published_batch_def Let_def m nop)
  qed
qed

lemma marks_not_published: "marks db c claims now l \<Longrightarrow> \<not> lane_published (ln_state l)"
  by (auto simp: marks_def list_ex_iff dest: claim_live_not_published)

lemma mark_ok:
  assumes "outbox_ok db"
  shows "outbox_ok (snd (mark_published_batch db c claims now))"
proof -
  have ok: "tables_ok db" "settled db" using assms by (simp_all add: outbox_ok_def)
  let ?db = "db\<lparr>ob_lanes := map (mark_lane db c claims now) (ob_lanes db)\<rparr>"
  let ?ids = "map ln_t (filter (marks db c claims now) (ob_lanes db))"
  have pub: "lane_published (ln_state (mark_lane db c claims now l)) \<longleftrightarrow> lane_published (ln_state l) \<or> marks db c claims now l"
    and t: "ln_t (mark_lane db c claims now l) = ln_t l" for l by (simp_all add: mark_lane_def)
  have "tables_ok ?db" by (rule lanes_update_ok [OF ok(1)]) (simp add: mark_lane_def)
  then have "tables_ok (settle_records ?db ?ids now)" by (rule settle_records_tables)
  moreover have "settled (settle_records ?db ?ids now)"
  proof (rule settle_records_settled)
    fix r assume "r \<in> set (ob_records ?db)" "ox_published_at r \<noteq> None"
    with ok(2) have "\<forall>l \<in> set (ob_lanes db). ln_t l = ox_t r \<longrightarrow> lane_published (ln_state l)" by (simp add: settled_def)
    then show "\<forall>l \<in> set (ob_lanes ?db). ln_t l = ox_t r \<longrightarrow> lane_published (ln_state l)" by (simp add: t pub)
  next
    fix r assume r: "r \<in> set (ob_records ?db)" "ox_published_at r = None" "ox_t r \<notin> set ?ids"
    from settled_owed [OF ok(2), of r] r(1,2) obtain l where l: "l \<in> set (ob_lanes db)" "ln_t l = ox_t r" "\<not> lane_published (ln_state l)" by auto
    with r(3) have "\<not> marks db c claims now l" by (auto simp: image_iff)
    with l show "\<exists>l \<in> set (ob_lanes ?db). ln_t l = ox_t r \<and> \<not> lane_published (ln_state l)" by (intro bexI [of _ "mark_lane db c claims now l"]) (simp_all add: t pub)
  qed
  ultimately show ?thesis unfolding mark_snd by (simp add: outbox_ok_def)
qed

lemma renew_ok:
  assumes "outbox_ok db"
  shows "outbox_ok (snd (renew_claim db c t token lease now))"
proof (cases "lease < MIN_CLAIM_LEASE")
  case False
  define f where "f l = (if ln_t l = t \<and> ln_consumer l = c \<and> claim_live now token (ln_state l) \<and> lane_deliverable db l
      then l\<lparr>ln_state := LaneClaimed token (lc_by (ln_state l)) (now + int lease)\<rparr> else l)" for l :: lane
  have "snd (renew_claim db c t token lease now) = db\<lparr>ob_lanes := map f (ob_lanes db)\<rparr>"
    using False by (simp add: renew_claim_def f_def [abs_def])
  moreover have "tables_ok (db\<lparr>ob_lanes := map f (ob_lanes db)\<rparr>)"
    using assms by (intro lanes_update_ok) (simp_all add: outbox_ok_def f_def)
  moreover have "settled (db\<lparr>ob_lanes := map f (ob_lanes db)\<rparr>)"
    using assms claim_live_not_published by (intro lanes_update_settled) (auto simp: outbox_ok_def f_def)
  ultimately show ?thesis by (simp add: outbox_ok_def)
qed (use assms in \<open>simp add: renew_claim_def\<close>)

lemma release_ok:
  assumes "outbox_ok db"
  shows "outbox_ok (snd (release_claim db c t token))"
proof -
  define f where "f l = (if ln_t l = t \<and> ln_consumer l = c \<and> claim_holds token (ln_state l) then l\<lparr>ln_state := LanePending\<rparr> else l)" for l :: lane
  have "snd (release_claim db c t token) = db\<lparr>ob_lanes := map f (ob_lanes db)\<rparr>" by (simp add: release_claim_def Let_def f_def [abs_def])
  moreover have "tables_ok (db\<lparr>ob_lanes := map f (ob_lanes db)\<rparr>)"
    using assms by (intro lanes_update_ok) (simp_all add: outbox_ok_def f_def)
  moreover have "settled (db\<lparr>ob_lanes := map f (ob_lanes db)\<rparr>)"
    using assms claim_holds_not_published by (intro lanes_update_settled) (auto simp: outbox_ok_def f_def)
  ultimately show ?thesis by (simp add: outbox_ok_def)
qed

lemma distinct_map_filter': "distinct (map f xs) \<Longrightarrow> distinct (map f (filter p xs))"
  by (simp add: distinct_map_filter)

lemma retire_ok:
  assumes "outbox_ok db"
  shows "outbox_ok (snd (retire_consumer db c now))"
proof (cases "c \<in> set (ob_consumers db)")
  case True
  have ok: "tables_ok db" "settled db" using assms by (simp_all add: outbox_ok_def)
  let ?db = "db\<lparr>ob_consumers := filter (\<lambda>d. d \<noteq> c) (ob_consumers db), ob_lanes := filter (\<lambda>l. ln_consumer l \<noteq> c) (ob_lanes db)\<rparr>"
  let ?ids = "map ln_t (filter (\<lambda>l. ln_consumer l = c \<and> \<not> lane_published (ln_state l)) (ob_lanes db))"
  have "tables_ok ?db" using ok(1) by (auto simp: tables_ok_def distinct_map_filter')
  then have "tables_ok (settle_records ?db ?ids now)" by (rule settle_records_tables)
  moreover have "settled (settle_records ?db ?ids now)"
  proof (rule settle_records_settled)
    fix r assume "r \<in> set (ob_records ?db)" "ox_published_at r \<noteq> None"
    with settled_published [OF ok(2)] show "\<forall>l \<in> set (ob_lanes ?db). ln_t l = ox_t r \<longrightarrow> lane_published (ln_state l)" by simp
  next
    fix r assume r: "r \<in> set (ob_records ?db)" "ox_published_at r = None" "ox_t r \<notin> set ?ids"
    from settled_owed [OF ok(2), of r] r(1,2) obtain l where "l \<in> set (ob_lanes db)" "ln_t l = ox_t r" "\<not> lane_published (ln_state l)" by auto
    with r(3) show "\<exists>l \<in> set (ob_lanes ?db). ln_t l = ox_t r \<and> \<not> lane_published (ln_state l)" by (intro bexI [of _ l]) (auto simp: image_iff)
  qed
  ultimately show ?thesis using True by (simp add: retire_consumer_def Let_def outbox_ok_def)
qed (use assms in \<open>simp add: retire_consumer_def\<close>)

lemma forget_ok:
  assumes "outbox_ok db"
  shows "outbox_ok (cancel_undelivered_for_forget db t now)"
proof (cases "t \<in> ox_t ` set (ob_records db)")
  case True
  have ok: "tables_ok db" "settled db" using assms by (simp_all add: outbox_ok_def)
  let ?db = "db\<lparr>ob_lanes := filter (\<lambda>l. ln_t l \<noteq> t \<or> lane_published (ln_state l)) (ob_lanes db)\<rparr>"
  have tab: "tables_ok ?db" using ok(1) by (auto simp: tables_ok_def distinct_map_filter')
  show ?thesis
  proof (cases "t \<in> ln_t ` set (ob_lanes ?db)")
    case in_lanes: True
    have "settled (settle_records ?db [t] now)"
    proof (rule settle_records_settled)
      fix r assume "r \<in> set (ob_records ?db)" "ox_published_at r \<noteq> None"
      with settled_published [OF ok(2)] show "\<forall>l \<in> set (ob_lanes ?db). ln_t l = ox_t r \<longrightarrow> lane_published (ln_state l)" by simp
    next
      fix r assume r: "r \<in> set (ob_records ?db)" "ox_published_at r = None" "ox_t r \<notin> set [t]"
      from settled_owed [OF ok(2), of r] r(1,2) obtain l where "l \<in> set (ob_lanes db)" "ln_t l = ox_t r" "\<not> lane_published (ln_state l)" by auto
      with r(3) show "\<exists>l \<in> set (ob_lanes ?db). ln_t l = ox_t r \<and> \<not> lane_published (ln_state l)" by (intro bexI [of _ l]) auto
    qed
    with settle_records_tables [OF tab] show ?thesis
      using True in_lanes by (simp add: cancel_undelivered_for_forget_def Let_def outbox_ok_def)
  next
    case False
    have "tables_ok (?db\<lparr>ob_records := filter (\<lambda>r. ox_t r \<noteq> t) (ob_records db)\<rparr>)"
    proof -
      have fk: "ln_t l \<in> ox_t ` set (filter (\<lambda>r. ox_t r \<noteq> t) (ob_records db)) \<and> ln_consumer l \<in> set (ob_consumers db) \<and> ln_attempts l \<le> MAX_ATTEMPTS"
        if l: "l \<in> set (ob_lanes ?db)" for l
      proof -
        have ne: "ln_t l \<noteq> t" using False l by blast
        have "ln_t l \<in> ox_t ` set (ob_records db)" "ln_consumer l \<in> set (ob_consumers db)" "ln_attempts l \<le> MAX_ATTEMPTS"
          using tab l unfolding tables_ok_def by simp_all
        with ne show ?thesis by auto
      qed
      have "distinct (map ox_t (filter (\<lambda>r. ox_t r \<noteq> t) (ob_records db)))" "distinct (map (\<lambda>l. (ln_t l, ln_consumer l)) (ob_lanes ?db))" "distinct (ob_consumers db)"
        using tab by (simp_all add: tables_ok_def distinct_map_filter')
      then show ?thesis using fk by (simp add: tables_ok_def)
    qed
    moreover have "settled (?db\<lparr>ob_records := filter (\<lambda>r. ox_t r \<noteq> t) (ob_records db)\<rparr>)"
      using ok(2) by (auto simp: settled_def)
    ultimately show ?thesis using True False by (simp add: cancel_undelivered_for_forget_def Let_def outbox_ok_def)
  qed
qed (use assms in \<open>simp add: cancel_undelivered_for_forget_def\<close>)

text \<open>Deleting records together with their lanes, as the cascade does, keeps everything.\<close>

lemma delete_records_ok:
  assumes "outbox_ok db"
  shows "outbox_ok (db\<lparr>ob_records := filter (\<lambda>r. ox_t r \<notin> G) (ob_records db), ob_lanes := filter (\<lambda>l. ln_t l \<notin> G) (ob_lanes db)\<rparr>)"
  using assms by (auto simp: outbox_ok_def tables_ok_def settled_def distinct_map_filter')

lemma run_op_ok: "outbox_ok db \<Longrightarrow> outbox_ok (run_op e db op)"
proof (cases op)
  case (OpCapture seen owner t at plan pos now)
  assume "outbox_ok db"
  then show ?thesis using capture_ok by (auto simp: OpCapture split: sum.split)
next
  case (OpRegister c)
  assume "outbox_ok db"
  then show ?thesis by (auto simp: OpRegister register_consumer_def outbox_ok_def tables_ok_def settled_def)
next
  case (OpPrune older limit now)
  assume "outbox_ok db"
  then show ?thesis by (simp add: OpPrune prune_published_def Let_def delete_records_ok)
next
  case (OpErase t)
  assume "outbox_ok db"
  from delete_records_ok [OF this, of "{t}"] show ?thesis by (simp add: OpErase outbox_ok_def tables_ok_def settled_def)
qed (simp_all add: claim_ok mark_ok renew_ok release_ok retire_ok forget_ok)

lemma run_ops_ok: "outbox_ok db \<Longrightarrow> outbox_ok (run_ops e db ops)"
  unfolding run_ops_def by (induction ops arbitrary: db) (simp_all add: run_op_ok)

section \<open>How a lane leaves the queue\<close>

definition has_lane :: "outbox \<Rightarrow> uuid \<Rightarrow> str \<Rightarrow> lane_state \<Rightarrow> bool" where
  "has_lane db t c st \<longleftrightarrow> (\<exists>l \<in> set (ob_lanes db). ln_t l = t \<and> ln_consumer l = c \<and> ln_state l = st)"

lemma has_lane_unique: "tables_ok db \<Longrightarrow> has_lane db t c st \<Longrightarrow> has_lane db t c st' \<Longrightarrow> st = st'"
  unfolding has_lane_def by (metis lane_unique)

text \<open>The operations that rewrite lanes in place, with the function they apply.\<close>

fun lane_fun :: "outbox_env \<Rightarrow> outbox \<Rightarrow> outbox_op \<Rightarrow> lane \<Rightarrow> lane" where
  "lane_fun e db (OpClaim tok locked c p limit lease now) l =
     (if snd (claim_publications (oe_hyph e) tok locked db c p limit lease now) = db then l else lease_chosen tok locked db c p limit lease now l)"
| "lane_fun e db (OpMark c claims now) l = mark_lane db c claims now l"
| "lane_fun e db (OpRenew c t token lease now) l =
     (if MIN_CLAIM_LEASE \<le> lease \<and> ln_t l = t \<and> ln_consumer l = c \<and> claim_live now token (ln_state l) \<and> lane_deliverable db l
      then l\<lparr>ln_state := LaneClaimed token (lc_by (ln_state l)) (now + int lease)\<rparr> else l)"
| "lane_fun e db (OpRelease c t token) l =
     (if ln_t l = t \<and> ln_consumer l = c \<and> claim_holds token (ln_state l) then l\<lparr>ln_state := LanePending\<rparr> else l)"
| "lane_fun e db _ l = l"

fun lane_kept :: "outbox \<Rightarrow> outbox_op \<Rightarrow> lane \<Rightarrow> bool" where
  "lane_kept db (OpRetire c now) l = (c \<notin> set (ob_consumers db) \<or> ln_consumer l \<noteq> c)"
| "lane_kept db (OpForget t now) l = (t \<notin> ox_t ` set (ob_records db) \<or> ln_t l \<noteq> t \<or> lane_published (ln_state l))"
| "lane_kept db (OpErase t) l = (ln_t l \<noteq> t)"
| "lane_kept db (OpPrune older limit now) l =
     (ln_t l \<notin> ox_t ` set (take limit (sort_key (\<lambda>r. the (ox_published_at r))
       (filter (\<lambda>r. is_some_and (ox_published_at r) (\<lambda>at. at < now - int older)) (ob_records db)))))"
| "lane_kept db _ l = True"

lemma settle_records_lanes [simp]: "ob_lanes (settle_records db ids now) = ob_lanes db"
  by (simp add: settle_records_def)

lemma run_op_lanes:
  "\<exists>new. ob_lanes (run_op e db op) = new @ map (lane_fun e db op) (filter (lane_kept db op) (ob_lanes db)) \<and>
     (\<forall>l \<in> set new. ln_state l = LanePending \<and> ln_t l \<notin> ox_t ` set (ob_records db))"
proof (cases op)
  case (OpCapture seen owner t at plan pos now)
  show ?thesis
  proof (cases "capture_publication (oe_pg e) (oe_hyph e) (oe_rfc3339 e) (oe_to_vec e) (oe_blake3 e) seen db owner t at plan pos now")
    case (Inr db')
    have "map (lane_fun e db op) xs = xs" for xs by (induction xs) (simp_all add: OpCapture)
    moreover from Inr have "ob_lanes db' = fan_out db t @ ob_lanes db" "t \<notin> ox_t ` set (ob_records db)" by (rule capture_Inr, simp)+
    ultimately show ?thesis by (intro exI [of _ "fan_out db t"]) (auto simp: OpCapture Inr fan_out_def)
  qed (simp add: OpCapture cong: map_cong)
next
  case (OpClaim tok locked c p limit lease now)
  show ?thesis
    using claim_cases [of "oe_hyph e" tok locked db c p limit lease now]
  proof
    assume "snd (claim_publications (oe_hyph e) tok locked db c p limit lease now) = db"
    then show ?thesis by (simp add: OpClaim cong: map_cong)
  next
    assume "snd (claim_publications (oe_hyph e) tok locked db c p limit lease now) =
      refresh_backlog_estimate (db\<lparr>ob_lanes := map (lease_chosen tok locked db c p limit lease now) (ob_lanes db)\<rparr>) now"
    then show ?thesis
      by (cases "snd (claim_publications (oe_hyph e) tok locked db c p limit lease now) = db") (simp_all add: OpClaim cong: map_cong)
  qed
next
  case (OpMark c claims now)
  then show ?thesis by (simp add: mark_snd cong: map_cong)
next
  case (OpRenew c t token lease now)
  then show ?thesis by (simp add: renew_claim_def Let_def not_less cong: map_cong)
next
  case (OpRelease c t token)
  then show ?thesis by (simp add: release_claim_def Let_def cong: map_cong)
next
  case (OpRetire c now)
  then show ?thesis by (intro exI [of _ "[]"]) (simp add: retire_consumer_def Let_def cong: map_cong filter_cong)
next
  case (OpForget t now)
  then show ?thesis by (intro exI [of _ "[]"]) (auto simp: cancel_undelivered_for_forget_def Let_def cong: map_cong filter_cong)
next
  case (OpPrune older limit now)
  then show ?thesis by (intro exI [of _ "[]"]) (simp add: prune_published_def Let_def image_image cong: map_cong filter_cong)
qed (simp_all add: register_consumer_def cong: map_cong filter_cong)

lemma lane_fun_key: "ln_t (lane_fun e db op l) = ln_t l \<and> ln_consumer (lane_fun e db op l) = ln_consumer l"
  by (cases op) (simp_all add: mark_lane_def lease_chosen_def lease_lane_def)

text \<open>The lane of a key after one operation.\<close>

lemma has_lane_run_op:
  assumes "tables_ok db" "l \<in> set (ob_lanes db)"
  shows "has_lane (run_op e db op) (ln_t l) (ln_consumer l) st \<longleftrightarrow> lane_kept db op l \<and> st = ln_state (lane_fun e db op l)"
proof -
  obtain new where lanes: "ob_lanes (run_op e db op) = new @ map (lane_fun e db op) (filter (lane_kept db op) (ob_lanes db))"
    and new: "\<forall>l \<in> set new. ln_t l \<notin> ox_t ` set (ob_records db)" using run_op_lanes [of e db op] by blast
  have "ln_t l \<in> ox_t ` set (ob_records db)" using assms by (auto simp: tables_ok_def)
  with new have "has_lane (run_op e db op) (ln_t l) (ln_consumer l) st \<longleftrightarrow>
      (\<exists>m \<in> set (ob_lanes db). lane_kept db op m \<and> ln_t m = ln_t l \<and> ln_consumer m = ln_consumer l \<and> ln_state (lane_fun e db op m) = st)"
    unfolding has_lane_def lanes set_append bex_Un by (auto simp: lane_fun_key)
  also have "\<dots> \<longleftrightarrow> lane_kept db op l \<and> st = ln_state (lane_fun e db op l)"
    using lane_unique [OF assms(1) _ assms(2)] assms(2) by blast
  finally show ?thesis .
qed

lemma lane_fun_publishes:
  assumes "\<not> lane_published (ln_state l)" "lane_published (ln_state (lane_fun e db op l))"
  obtains claims now token p lease where "op = OpMark (ln_consumer l) claims now" "ln_state l = LaneClaimed token p lease"
    "(ln_t l, token) \<in> set claims" "now < lease" "lane_deliverable db l"
proof (cases op)
  case (OpMark c claims now)
  with assms have m: "marks db c claims now l" by (simp add: mark_lane_def split: if_splits)
  then obtain token where "(ln_t l, token) \<in> set claims" "claim_live now token (ln_state l)" "ln_consumer l = c" "lane_deliverable db l"
    by (auto simp: marks_def list_ex_iff)
  with that OpMark show ?thesis by (cases "ln_state l") auto
qed (use assms in \<open>simp_all add: lease_chosen_def lease_lane_def split: if_splits\<close>)

lemma lane_kept_undelivered:
  assumes "outbox_ok db" "l \<in> set (ob_lanes db)" "\<not> lane_published (ln_state l)" "\<not> lane_kept db op l"
  shows "(\<exists>now. op = OpRetire (ln_consumer l) now) \<or> (\<exists>now. op = OpForget (ln_t l) now) \<or> op = OpErase (ln_t l)"
proof (cases op)
  case (OpPrune older limit now)
  with assms(4) obtain r where "r \<in> set (ob_records db)" "ox_t r = ln_t l" "ox_published_at r \<noteq> None"
    by (auto simp: is_some_and_iff dest!: in_set_takeD)
  with settled_published [of db r l] assms(1-3) show ?thesis by (simp add: outbox_ok_def)
qed (use assms in auto)

section \<open>Properties\<close>

text \<open>A small outbox: one record owed to one consumer, under a claim that expires at 1000.\<close>

definition demo_lane :: lane where
  "demo_lane = \<lparr>ln_t = 1, ln_consumer = lit ''default'', ln_state = LaneClaimed 11 (lit ''a'') 1000, ln_attempts = 1\<rparr>"

definition demo_record :: out_record where
  "demo_record = \<lparr>ox_t = 1, ox_owner = 7, ox_schema_id = lit ''note'', ox_schema_version = 1, ox_event_type = lit ''note.created'',
     ox_event_id = lit ''1'', ox_envelope = [], ox_digest = replicate 32 0, ox_published_at = None\<rparr>"

definition demo_outbox :: outbox where
  "demo_outbox = \<lparr>ob_records = [demo_record], ob_lanes = [demo_lane], ob_consumers = [lit ''default''], ob_origins = [(1, 7, None)],
     ob_erased = [], ob_owners = [7], ob_backlog = (1, 0), ob_heads = [], ob_counters = [], ob_facts = [((1, 7), None)]\<rparr>"

definition demo_outbox_env :: outbox_env where
  "demo_outbox_env = \<lparr>oe_pg = \<lparr>pg_unique = [], pg_foreign_key = [], pg_out_of_range = []\<rparr>, oe_hyph = (\<lambda>_. []), oe_rfc3339 = (\<lambda>_. Inr []),
     oe_to_vec = (\<lambda>_. Inr []), oe_blake3 = (\<lambda>_. [])\<rparr>"

lemma demo_outbox_ok: "outbox_ok demo_outbox"
  by (simp add: outbox_ok_def tables_ok_def settled_def demo_outbox_def demo_lane_def demo_record_def MAX_ATTEMPTS_def)

text \<open>
  C28. Every run of operations, of any number of processes and with any interleaving, keeps the tables well formed:
  primary keys are unique, every lane belongs to a stored record and a registered consumer, and attempt counts stay
  in their integer column.
\<close>

theorem outbox_tables_wellformed:
  assumes "outbox_ok db"
  shows "tables_ok (run_ops e db ops)"
  using run_ops_ok [OF assms, of e ops] by (simp add: outbox_ok_def)

theorem outbox_tables_wellformed_witness:
  "outbox_ok demo_outbox \<and> tables_ok (run_ops demo_outbox_env demo_outbox [OpMark (lit ''default'') [(1, 11)] 0, OpPrune 0 10 5])"
  using demo_outbox_ok outbox_tables_wellformed [OF demo_outbox_ok] by blast

text \<open>
  C11. In every reachable state a record is published exactly when none of its lanes is undelivered: no mark, retirement
  or forget leaves a record unsettled that nobody will settle, and none settles a record some consumer is still owed.
\<close>

theorem published_iff_delivered_to_all:
  assumes "outbox_ok db" "r \<in> set (ob_records (run_ops e db ops))"
  shows "ox_published_at r \<noteq> None \<longleftrightarrow>
    (\<forall>l \<in> set (ob_lanes (run_ops e db ops)). ln_t l = ox_t r \<longrightarrow> lane_published (ln_state l))"
  using run_ops_ok [OF assms(1), of e ops] assms(2) by (simp add: outbox_ok_def settled_def)

theorem published_iff_delivered_to_all_witness:
  "outbox_ok demo_outbox \<and> demo_record \<in> set (ob_records (run_ops demo_outbox_env demo_outbox [])) \<and>
   (ox_published_at demo_record \<noteq> None) = (\<forall>l \<in> set (ob_lanes (run_ops demo_outbox_env demo_outbox [])). ln_t l = ox_t demo_record \<longrightarrow> lane_published (ln_state l))"
proof -
  have r: "demo_record \<in> set (ob_records (run_ops demo_outbox_env demo_outbox []))" by (simp add: run_ops_def demo_outbox_def)
  from demo_outbox_ok r published_iff_delivered_to_all [OF demo_outbox_ok r] show ?thesis by blast
qed

text \<open>
  C10. The only way a lane becomes published is a mark that names its current claim token under an unexpired lease,
  on a record still deliverable; the only ways an undelivered lane disappears are retiring its consumer, forgetting or
  erasing its record. No lease expiry, release, renewal, claim or retention pass loses a delivery.
\<close>

theorem delivery_is_never_lost:
  assumes "outbox_ok db" "l \<in> set (ob_lanes db)" "\<not> lane_published (ln_state l)"
  shows "(\<forall>at. has_lane (run_op e db op) (ln_t l) (ln_consumer l) (LanePublished at) \<longrightarrow>
      (\<exists>claims now token p lease. op = OpMark (ln_consumer l) claims now \<and> ln_state l = LaneClaimed token p lease \<and>
        (ln_t l, token) \<in> set claims \<and> now < lease \<and> lane_deliverable db l)) \<and>
    ((\<forall>st. \<not> has_lane (run_op e db op) (ln_t l) (ln_consumer l) st) \<longrightarrow>
      (\<exists>now. op = OpRetire (ln_consumer l) now) \<or> (\<exists>now. op = OpForget (ln_t l) now) \<or> op = OpErase (ln_t l))"
proof -
  have tab: "tables_ok db" using assms(1) by (simp add: outbox_ok_def)
  note lane = has_lane_run_op [OF tab assms(2), of e op]
  show ?thesis
  proof (intro conjI allI impI)
    fix at assume "has_lane (run_op e db op) (ln_t l) (ln_consumer l) (LanePublished at)"
    then have "lane_published (ln_state (lane_fun e db op l))" unfolding lane by (metis lane_published.simps(1))
    with assms(3) show "\<exists>claims now token p lease. op = OpMark (ln_consumer l) claims now \<and> ln_state l = LaneClaimed token p lease \<and>
        (ln_t l, token) \<in> set claims \<and> now < lease \<and> lane_deliverable db l" by (rule lane_fun_publishes) blast
  next
    assume "\<forall>st. \<not> has_lane (run_op e db op) (ln_t l) (ln_consumer l) st"
    then have "\<not> lane_kept db op l" unfolding lane by blast
    with lane_kept_undelivered [OF assms] show "(\<exists>now. op = OpRetire (ln_consumer l) now) \<or> (\<exists>now. op = OpForget (ln_t l) now) \<or> op = OpErase (ln_t l)"
      by blast
  qed
qed

theorem delivery_is_never_lost_witness:
  "outbox_ok demo_outbox \<and> demo_lane \<in> set (ob_lanes demo_outbox) \<and> \<not> lane_published (ln_state demo_lane) \<and>
   ((\<exists>now. OpRetire (lit ''default'') 5 = OpRetire (ln_consumer demo_lane) now) \<or> (\<exists>now. OpRetire (lit ''default'') 5 = OpForget (ln_t demo_lane) now) \<or>
     OpRetire (lit ''default'') 5 = OpErase (ln_t demo_lane))"
proof -
  have l: "demo_lane \<in> set (ob_lanes demo_outbox)" "\<not> lane_published (ln_state demo_lane)" by (simp_all add: demo_outbox_def demo_lane_def)
  have "\<forall>st. \<not> has_lane (run_op demo_outbox_env demo_outbox (OpRetire (lit ''default'') 5)) (ln_t demo_lane) (ln_consumer demo_lane) st"
    by (simp add: has_lane_def retire_consumer_def settle_records_def demo_outbox_def demo_lane_def Let_def)
  with demo_outbox_ok l delivery_is_never_lost [OF demo_outbox_ok l, of demo_outbox_env "OpRetire (lit ''default'') 5"] show ?thesis by blast
qed

end
