(* ===== verification/OutboxFence.thy ===== *)
theory OutboxFence
  imports Outbox
begin

text \<open>
  How claims of the publication outbox fence each other. The first group shows that a token no lane holds has no power
  until a claim mints it again; the second that a batch of marks of distinct records is the sequence of its single
  marks, and that a batch naming one record twice is not; the third what a claim hands out.
\<close>

section \<open>Tokens\<close>

fun mints :: "outbox_op \<Rightarrow> uuid \<Rightarrow> uuid \<Rightarrow> bool" where
  "mints (OpClaim tok _ _ _ _ _ _) t token = (tok t = token)"
| "mints _ t token = False"

definition holds_token :: "outbox \<Rightarrow> uuid \<Rightarrow> str \<Rightarrow> uuid \<Rightarrow> bool" where
  "holds_token db t c token \<longleftrightarrow> list_ex (\<lambda>l. ln_t l = t \<and> ln_consumer l = c \<and> claim_holds token (ln_state l)) (ob_lanes db)"

lemma claim_live_holds: "claim_live now token st \<Longrightarrow> claim_holds token st"
  by (cases st) simp_all

lemma lane_fun_token:
  assumes "claim_holds token (ln_state (lane_fun e db op l))" "\<not> mints op (ln_t l) token"
  shows "claim_holds token (ln_state l)"
  using assms by (cases op) (auto simp: mark_lane_def lease_chosen_def lease_lane_def claim_live_holds split: if_splits)

lemma holds_token_run_op:
  assumes "holds_token (run_op e db op) t c token" "\<not> mints op t token"
  shows "holds_token db t c token"
proof -
  obtain new where lanes: "ob_lanes (run_op e db op) = new @ map (lane_fun e db op) (filter (lane_kept db op) (ob_lanes db))"
    and new: "\<forall>l \<in> set new. ln_state l = LanePending" using run_op_lanes [of e db op] by blast
  from assms(1) obtain l where l: "l \<in> set (ob_lanes (run_op e db op))" "ln_t l = t" "ln_consumer l = c" "claim_holds token (ln_state l)"
    by (auto simp: holds_token_def list_ex_iff)
  with new have "l \<notin> set new" by auto
  with l(1) lanes obtain m where m: "m \<in> set (ob_lanes db)" "l = lane_fun e db op m" by auto
  with l assms(2) lane_fun_token [of token e db op m] have "claim_holds token (ln_state m)" by (simp add: lane_fun_key)
  with m l show ?thesis by (auto simp: holds_token_def list_ex_iff lane_fun_key intro!: bexI [of _ m])
qed

lemma holds_token_run_ops:
  assumes "holds_token (run_ops e db ops) t c token" "list_all (\<lambda>op. \<not> mints op t token) ops"
  shows "holds_token db t c token"
  using assms unfolding run_ops_def by (induction ops arbitrary: db) (auto dest: holds_token_run_op)

lemma map_if_none: "(\<And>l. l \<in> set xs \<Longrightarrow> \<not> p l) \<Longrightarrow> map (\<lambda>l. if p l then f l else l) xs = xs"
  by (induction xs) simp_all

lemma no_token_no_effect:
  assumes "\<not> holds_token db t c token"
  shows "ob_lanes (snd (mark_published_batch db c [(t, token)] now)) = ob_lanes db" "fst (mark_published_batch db c [(t, token)] now) \<noteq> [AckPublished]"
    "renew_claim db c t token lease now = (fst (renew_claim db c t token lease now), db)" "fst (renew_claim db c t token lease now) \<noteq> Inr True"
    "release_claim db c t token = (fst (release_claim db c t token), db)" "fst (release_claim db c t token) \<noteq> Released"
proof -
  have no: "\<not> (ln_t l = t \<and> ln_consumer l = c \<and> claim_holds token (ln_state l))" if "l \<in> set (ob_lanes db)" for l
    using assms that by (auto simp: holds_token_def list_ex_iff)
  then have nl: "\<not> (ln_t l = t \<and> ln_consumer l = c \<and> claim_live now token (ln_state l) \<and> x)" if "l \<in> set (ob_lanes db)" for l x
    using that claim_live_holds by blast
  have nm: "\<not> marks db c [(t, token)] now l" if "l \<in> set (ob_lanes db)" for l
    using nl [OF that, of True] by (auto simp: marks_def)
  show "ob_lanes (snd (mark_published_batch db c [(t, token)] now)) = ob_lanes db"
    unfolding mark_snd using nm by (simp add: mark_lane_def map_idI)
  show "fst (mark_published_batch db c [(t, token)] now) \<noteq> [AckPublished]"
    using nm by (auto simp: mark_published_batch_def Let_def)
  have "filter (\<lambda>l. ln_t l = t \<and> ln_consumer l = c \<and> claim_live now token (ln_state l) \<and> lane_deliverable db l) (ob_lanes db) = []"
    using nl by (auto simp: filter_empty_conv)
  then show "fst (renew_claim db c t token lease now) \<noteq> Inr True" by (simp add: renew_claim_def Let_def)
  show "renew_claim db c t token lease now = (fst (renew_claim db c t token lease now), db)"
    using map_if_none [of "ob_lanes db" "\<lambda>l. ln_t l = t \<and> ln_consumer l = c \<and> claim_live now token (ln_state l) \<and> lane_deliverable db l"
      "\<lambda>l. l\<lparr>ln_state := LaneClaimed token (lc_by (ln_state l)) (now + int lease)\<rparr>", OF nl] by (simp add: renew_claim_def Let_def)
  have "\<not> list_ex (\<lambda>l. ln_t l = t \<and> ln_consumer l = c \<and> claim_holds token (ln_state l)) (ob_lanes db)" using no by (auto simp: list_ex_iff)
  then show "fst (release_claim db c t token) \<noteq> Released" by (simp add: release_claim_def Let_def)
  show "release_claim db c t token = (fst (release_claim db c t token), db)"
    using map_if_none [of "ob_lanes db" "\<lambda>l. ln_t l = t \<and> ln_consumer l = c \<and> claim_holds token (ln_state l)"
      "\<lambda>l. l\<lparr>ln_state := LanePending\<rparr>", OF no] by (simp add: release_claim_def Let_def)
qed

section \<open>Batches of marks\<close>

text \<open>One record's lanes and the record itself are touched only by the claims that name it.\<close>

definition mark_record :: "outbox \<Rightarrow> str \<Rightarrow> (uuid \<times> uuid) list \<Rightarrow> system_time \<Rightarrow> out_record \<Rightarrow> out_record" where
  "mark_record db c claims now r =
     (if (\<exists>l \<in> set (ob_lanes db). marks db c claims now l \<and> ln_t l = ox_t r) \<and> ox_published_at r = None \<and>
         (\<forall>l \<in> set (ob_lanes db). ln_t l = ox_t r \<longrightarrow> lane_published (ln_state (mark_lane db c claims now l)))
      then r\<lparr>ox_published_at := Some now\<rparr> else r)"

definition mark_answer :: "outbox \<Rightarrow> str \<Rightarrow> (uuid \<times> uuid) list \<Rightarrow> system_time \<Rightarrow> uuid \<Rightarrow> ack_outcome" where
  "mark_answer db c claims now t =
     (if \<exists>l \<in> set (ob_lanes db). marks db c claims now l \<and> ln_t l = t then AckPublished
      else if \<exists>l \<in> set (ob_lanes db). ln_t l = t \<and> ln_consumer l = c \<and> lane_published (ln_state l) then AckAlreadyPublished
      else AckStaleClaim)"

lemma mark_lane_key [simp]: "ln_t (mark_lane db c claims now l) = ln_t l" "ln_consumer (mark_lane db c claims now l) = ln_consumer l"
  by (simp_all add: mark_lane_def)

lemma mark_record_key [simp]: "ox_t (mark_record db c claims now r) = ox_t r" "ox_owner (mark_record db c claims now r) = ox_owner r"
  by (simp_all add: mark_record_def)

lemma mark_snd_map:
  "snd (mark_published_batch db c claims now) =
     db\<lparr>ob_lanes := map (mark_lane db c claims now) (ob_lanes db), ob_records := map (mark_record db c claims now) (ob_records db)\<rparr>"
proof -
  have "(if ox_t r \<in> ln_t ` {l \<in> set (ob_lanes db). marks db c claims now l} \<and> ox_published_at r = None \<and>
      (\<forall>l \<in> set (ob_lanes db). ln_t l = ox_t r \<longrightarrow> lane_published (ln_state (mark_lane db c claims now l)))
    then r\<lparr>ox_published_at := Some now\<rparr> else r) = mark_record db c claims now r" for r
    unfolding mark_record_def by (rule if_cong) (auto simp: image_iff)
  then show ?thesis unfolding mark_snd settle_records_def by (simp add: list_all_iff)
qed

lemma mark_fst_map:
  "fst (mark_published_batch db c claims now) = map (\<lambda>(t, _). mark_answer db c claims now t) claims"
proof (cases "claims = []")
  case False
  let ?hit = "marks db c claims now"
  define db1 where "db1 = db\<lparr>ob_lanes := map (\<lambda>l. if ?hit l then l\<lparr>ln_state := LanePublished now\<rparr> else l) (ob_lanes db)\<rparr>"
  define pub where "pub = map ln_t (filter ?hit (ob_lanes db))"
  have lanes: "ob_lanes (if pub = [] then db1 else settle_records db1 pub now) = ob_lanes db1" by simp
  have "(if t \<in> set pub then AckPublished
      else if t \<in> set (map ln_t (filter (\<lambda>l. ln_t l \<in> fst ` set claims \<and> ln_consumer l = c \<and> lane_published (ln_state l)) (ob_lanes db1)))
        then AckAlreadyPublished else AckStaleClaim) = mark_answer db c claims now t" if "(t, token) \<in> set claims" for t token
  proof (cases "t \<in> set pub")
    case True
    then show ?thesis by (auto simp: mark_answer_def pub_def)
  next
    case False
    have m: "t \<in> fst ` set claims" using that by force
    have "t \<in> set (map ln_t (filter (\<lambda>l. ln_t l \<in> fst ` set claims \<and> ln_consumer l = c \<and> lane_published (ln_state l)) (ob_lanes db1))) \<longleftrightarrow>
      (\<exists>l \<in> set (ob_lanes db). ln_t l = t \<and> ln_consumer l = c \<and> lane_published (ln_state l))"
      using False m unfolding db1_def pub_def by (auto simp: image_iff Bex_def split: if_splits)
    moreover have "\<not> (\<exists>l \<in> set (ob_lanes db). marks db c claims now l \<and> ln_t l = t)" using False by (auto simp: pub_def)
    ultimately show ?thesis using False unfolding mark_answer_def by (simp only: if_False)
  qed
  note ans = this
  have "fst (mark_published_batch db c claims now) = map (\<lambda>(t, _). if t \<in> set pub then AckPublished
      else if t \<in> set (map ln_t (filter (\<lambda>l. ln_t l \<in> fst ` set claims \<and> ln_consumer l = c \<and> lane_published (ln_state l)) (ob_lanes db1)))
        then AckAlreadyPublished else AckStaleClaim) claims"
    using False unfolding mark_published_batch_def Let_def db1_def [symmetric] pub_def [symmetric] lanes by (simp only: if_False fst_conv)
  also have "\<dots> = map (\<lambda>(t, _). mark_answer db c claims now t) claims"
    by (rule map_cong [OF refl]) (clarsimp simp only: split_conv split_paired_all ans)
  finally show ?thesis .
qed (simp add: mark_published_batch_def)

lemma lane_deliverable_marked:
  "lane_deliverable (snd (mark_published_batch db c claims now)) l = lane_deliverable db l"
  unfolding lane_deliverable_def deliverable_def mark_snd_map by (simp add: list_ex_iff)

text \<open>A claim on \<open>t\<close> and a batch that does not name \<open>t\<close> touch different lanes.\<close>

lemma marks_head: "t \<notin> fst ` set cs \<Longrightarrow> ln_t l = t \<Longrightarrow> marks db c ((t, token) # cs) now l = marks db c [(t, token)] now l"
  by (force simp: marks_def list_ex_iff)

lemma marks_Nil [simp]: "\<not> marks db c [] now l"
  by (simp add: marks_def)

lemma marks_rest: "ln_t l \<noteq> t \<Longrightarrow> marks db c ((t, token) # cs) now l = marks db c cs now l"
  by (auto simp: marks_def list_ex_iff)

lemma marks_other: "ln_t l \<noteq> t \<Longrightarrow> \<not> marks db c [(t, token)] now l"
  by (auto simp: marks_def)

lemma marks_fresh: "ln_t l \<notin> fst ` set cs \<Longrightarrow> \<not> marks db c cs now l"
  by (force simp: marks_def list_ex_iff)

lemma marks_marked: "marks (snd (mark_published_batch db c claims now)) c cs now l = marks db c cs now l"
  by (simp add: marks_def lane_deliverable_marked)

lemma mark_lane_split:
  assumes "t \<notin> fst ` set cs"
  shows "mark_lane db c ((t, token) # cs) now l =
    mark_lane (snd (mark_published_batch db c [(t, token)] now)) c cs now (mark_lane db c [(t, token)] now l)"
proof (cases "ln_t l = t")
  case True
  have "\<not> marks db c cs now (mark_lane db c [(t, token)] now l)" by (rule marks_fresh) (use True assms in simp)
  then show ?thesis by (simp add: mark_lane_def marks_head [OF assms True] marks_marked)
next
  case False
  then show ?thesis by (simp add: mark_lane_def marks_rest marks_other marks_marked)
qed

lemma mark_record_split:
  assumes "t \<notin> fst ` set cs"
  shows "mark_record db c ((t, token) # cs) now r =
    mark_record (snd (mark_published_batch db c [(t, token)] now)) c cs now (mark_record db c [(t, token)] now r)"
proof (cases "ox_t r = t")
  case True
  let ?db = "snd (mark_published_batch db c [(t, token)] now)"
  have "\<not> marks ?db c cs now l" if "ln_t l = ox_t r" for l by (rule marks_fresh) (use True assms that in simp)
  then have "mark_record ?db c cs now r' = r'" if "ox_t r' = ox_t r" for r' using that by (auto simp: mark_record_def)
  moreover have "mark_record db c ((t, token) # cs) now r = mark_record db c [(t, token)] now r"
  proof -
    note head = marks_head [OF assms]
    have hit: "(\<exists>l \<in> set (ob_lanes db). marks db c ((t, token) # cs) now l \<and> ln_t l = ox_t r) =
        (\<exists>l \<in> set (ob_lanes db). marks db c [(t, token)] now l \<and> ln_t l = ox_t r)"
      by (rule bex_cong [OF refl]) (use head True in blast)
    have all: "(\<forall>l \<in> set (ob_lanes db). ln_t l = ox_t r \<longrightarrow> lane_published (ln_state (mark_lane db c ((t, token) # cs) now l))) =
        (\<forall>l \<in> set (ob_lanes db). ln_t l = ox_t r \<longrightarrow> lane_published (ln_state (mark_lane db c [(t, token)] now l)))"
      by (rule ball_cong [OF refl], rule imp_cong [OF refl]) (simp only: mark_lane_def head [OF trans [OF _ True]])
    show ?thesis unfolding mark_record_def hit all by (rule refl)
  qed
  ultimately show ?thesis by simp
next
  case False
  let ?db = "snd (mark_published_batch db c [(t, token)] now)"
  have same: "mark_lane db c [(t, token)] now l = l" if "ln_t l = ox_t r" for l
    using that False by (simp add: mark_lane_def marks_other)
  have r: "mark_record db c [(t, token)] now r = r" using False by (auto simp: mark_record_def marks_def)
  have hit: "(\<exists>l \<in> set (ob_lanes ?db). marks ?db c cs now l \<and> ln_t l = ox_t r) \<longleftrightarrow>
      (\<exists>l \<in> set (ob_lanes db). marks db c ((t, token) # cs) now l \<and> ln_t l = ox_t r)"
    unfolding marks_marked by (simp add: mark_snd_map) (metis same marks_rest False)
  have all: "(\<forall>l \<in> set (ob_lanes ?db). ln_t l = ox_t r \<longrightarrow> lane_published (ln_state (mark_lane ?db c cs now l))) \<longleftrightarrow>
      (\<forall>l \<in> set (ob_lanes db). ln_t l = ox_t r \<longrightarrow> lane_published (ln_state (mark_lane db c ((t, token) # cs) now l)))"
    unfolding mark_lane_split [OF assms] by (simp add: mark_snd_map)
  show ?thesis unfolding r unfolding mark_record_def hit all by (rule refl)
qed

lemma mark_answer_head:
  assumes "t \<notin> fst ` set cs"
  shows "mark_answer db c ((t, token) # cs) now t = mark_answer db c [(t, token)] now t"
proof -
  have "(\<exists>l \<in> set (ob_lanes db). marks db c ((t, token) # cs) now l \<and> ln_t l = t) = (\<exists>l \<in> set (ob_lanes db). marks db c [(t, token)] now l \<and> ln_t l = t)"
    by (rule bex_cong [OF refl]) (use marks_head [OF assms] in blast)
  then show ?thesis unfolding mark_answer_def by (simp only:)
qed

lemma mark_answer_rest:
  assumes "t' \<noteq> t"
  shows "mark_answer (snd (mark_published_batch db c [(t, token)] now)) c cs now t' = mark_answer db c ((t, token) # cs) now t'"
proof -
  have same: "mark_lane db c [(t, token)] now l = l" if "ln_t l = t'" for l
    using that assms by (simp add: mark_lane_def marks_other)
  have "(\<exists>l \<in> mark_lane db c [(t, token)] now ` set (ob_lanes db). P l \<and> ln_t l = t') = (\<exists>l \<in> set (ob_lanes db). P l \<and> ln_t l = t')" for P
    by (simp, metis same)
  from this [of "marks db c cs now"] this [of "\<lambda>l. ln_consumer l = c \<and> lane_published (ln_state l)"] assms
  show ?thesis unfolding mark_answer_def marks_marked
    by (simp add: mark_snd_map conj_commute conj_left_commute) (metis marks_rest)
qed

lemma mark_batch_Cons:
  assumes "t \<notin> fst ` set cs"
  shows "mark_published_batch db c ((t, token) # cs) now =
    (case mark_published_batch db c [(t, token)] now of (outs, db') \<Rightarrow>
      (case mark_published_batch db' c cs now of (outs', db'') \<Rightarrow> (outs @ outs', db'')))"
proof -
  let ?db = "snd (mark_published_batch db c [(t, token)] now)"
  have "snd (mark_published_batch db c ((t, token) # cs) now) = snd (mark_published_batch ?db c cs now)"
  proof -
    have lanes: "map (mark_lane db c ((t, token) # cs) now) xs = map (mark_lane ?db c cs now) (map (mark_lane db c [(t, token)] now) xs)" for xs
      by (simp add: mark_lane_split [OF assms])
    have recs: "map (mark_record db c ((t, token) # cs) now) xs = map (mark_record ?db c cs now) (map (mark_record db c [(t, token)] now) xs)" for xs
      by (simp add: mark_record_split [OF assms])
    have db: "ob_lanes ?db = map (mark_lane db c [(t, token)] now) (ob_lanes db)" "ob_records ?db = map (mark_record db c [(t, token)] now) (ob_records db)"
      "?db\<lparr>ob_lanes := x, ob_records := y\<rparr> = db\<lparr>ob_lanes := x, ob_records := y\<rparr>" for x y
      by (simp_all add: mark_snd_map)
    show ?thesis unfolding mark_snd_map [of db c "(t, token) # cs"] mark_snd_map [of ?db c cs] db lanes recs by (rule refl)
  qed
  moreover have "fst (mark_published_batch db c ((t, token) # cs) now) =
      fst (mark_published_batch db c [(t, token)] now) @ fst (mark_published_batch ?db c cs now)"
  proof -
    have "mark_answer ?db c cs now t' = mark_answer db c ((t, token) # cs) now t'" if "(t', tok) \<in> set cs" for t' tok
      by (rule mark_answer_rest) (use that assms in force)
    then have "map (\<lambda>(t', _). mark_answer db c ((t, token) # cs) now t') cs = map (\<lambda>(t', _). mark_answer ?db c cs now t') cs"
      by (intro map_cong [OF refl]) (clarsimp split: prod.splits)
    then show ?thesis unfolding mark_fst_map by (simp add: mark_answer_head [OF assms])
  qed
  ultimately show ?thesis by (simp add: split_beta prod_eq_iff)
qed

section \<open>What a claim hands out\<close>

lemma collect_results_Inr: "collect_results rs = Inr xs \<longleftrightarrow> rs = map Inr xs"
  by (induction rs arbitrary: xs) (auto simp: rbind_eq_Inr Cons_eq_map_conv)

lemma filter_key_singleton:
  "distinct (map f xs) \<Longrightarrow> x \<in> set xs \<Longrightarrow> P x \<Longrightarrow> filter (\<lambda>y. f y = f x \<and> P y) xs = [x]"
proof (induction xs)
  case (Cons y ys)
  then show ?case by (cases "y = x") (auto simp: filter_empty_conv image_iff)
qed simp

lemma leased_rows_map:
  assumes "tables_ok db" "\<And>l. l \<in> set ls \<Longrightarrow> lane_deliverable db l"
  obtains rec where "leased_rows db ls = map (\<lambda>l. (rec l, l)) (sort_key (\<lambda>l. (ln_attempts l, ln_t l)) ls)"
    "\<And>l. l \<in> set ls \<Longrightarrow> ox_t (rec l) = ln_t l"
proof -
  define rows where "rows l = filter (\<lambda>r. ox_t r = ln_t l \<and> ox_owner r \<in> set (ob_owners db)) (ob_records db)" for l :: lane
  have one: "rows l = [hd (rows l)] \<and> ox_t (hd (rows l)) = ln_t l" if "l \<in> set ls" for l
  proof -
    from assms(2) [OF that] obtain r where r: "r \<in> set (ob_records db)" "ox_t r = ln_t l" "ox_owner r \<in> set (ob_owners db)"
      by (auto simp: lane_deliverable_def deliverable_def list_ex_iff)
    from filter_key_singleton [of ox_t "ob_records db" r "\<lambda>r. ox_owner r \<in> set (ob_owners db)"] r assms(1)
    have "rows l = [r]" by (simp add: rows_def tables_ok_def)
    then show ?thesis using r by simp
  qed
  have "concat (map (\<lambda>l. map (\<lambda>r. (r, l)) (rows l)) xs) = map (\<lambda>l. (hd (rows l), l)) xs" if "set xs \<subseteq> set ls" for xs
    using that
  proof (induction xs)
    case (Cons x xs)
    from one [of x] Cons.prems have "map (\<lambda>r. (r, x)) (rows x) = [(hd (rows x), x)]" by (metis list.simps(15) insert_subset list.simps(8,9))
    with Cons show ?case by simp
  qed simp
  then have "leased_rows db ls = map (\<lambda>l. (hd (rows l), l)) (sort_key (\<lambda>l. (ln_attempts l, ln_t l)) ls)"
    unfolding leased_rows_def rows_def by simp
  then show thesis by (rule that) (use one in blast)
qed

lemma lane_deliverable_lease [simp]: "lane_deliverable db (lease_lane tok p lease now l) = lane_deliverable db l"
  by (simp add: lane_deliverable_def lease_lane_def)

lemma lease_lane_key [simp]: "ln_t (lease_lane tok p lease now l) = ln_t l" "ln_consumer (lease_lane tok p lease now l) = ln_consumer l"
  "ln_state (lease_lane tok p lease now l) = LaneClaimed (tok (ln_t l)) p (now + int lease)"
  by (simp_all add: lease_lane_def)

lemma filter_chosen_mset:
  assumes "tables_ok db"
  shows "mset (filter (chosen db locked c limit now) (ob_lanes db)) = mset (claim_lanes db locked c limit now)"
proof -
  have d: "distinct (ob_lanes db)" using assms by (simp add: tables_ok_def distinct_map)
  then have "distinct (claim_lanes db locked c limit now)" by (simp add: claim_lanes_def distinct_sort)
  moreover have "set (filter (chosen db locked c limit now) (ob_lanes db)) = set (claim_lanes db locked c limit now)"
  proof (intro equalityI subsetI)
    fix l assume "l \<in> set (filter (chosen db locked c limit now) (ob_lanes db))"
    with claim_lanes_hit(1) [OF assms, of l] show "l \<in> set (claim_lanes db locked c limit now)" by simp
  next
    fix l assume "l \<in> set (claim_lanes db locked c limit now)"
    then show "l \<in> set (filter (chosen db locked c limit now) (ob_lanes db))"
      by (auto simp: chosen_def claim_lanes_def dest!: in_set_takeD)
  qed
  ultimately show ?thesis using d by (metis set_eq_iff_mset_eq_distinct distinct_filter)
qed

lemma claim_answers:
  assumes "tables_ok db" "claim_publications hyph tok locked db c p limit lease now = (Inr cs, db')"
  shows "mset (map cp_id cs) = mset (map ln_t (claim_lanes db locked c limit now))"
    "\<And>x. x \<in> set cs \<Longrightarrow> cp_claim x = tok (cp_id x)"
    "ob_lanes db' = map (lease_chosen tok locked db c p limit lease now) (ob_lanes db)"
proof -
  let ?ls = "map (lease_lane tok p lease now) (filter (chosen db locked c limit now) (ob_lanes db))"
  let ?sort = "sort_key (\<lambda>l. (ln_attempts l, ln_t l))"
  have "lane_deliverable db l" if "l \<in> set ?ls" for l using that claim_lanes_hit(3) [OF assms(1)] by auto
  from leased_rows_map [OF assms(1) this] obtain rec
    where rows: "leased_rows db ?ls = map (\<lambda>l. (rec l, l)) (?sort ?ls)" and rec: "\<And>l. l \<in> set ?ls \<Longrightarrow> ox_t (rec l) = ln_t l"
    by blast
  from assms(2) have "collect_results (map (\<lambda>(r, l). claimed_from_row hyph r (ln_attempts l) (tok (ln_t l)) (now + int lease)) (leased_rows db ?ls)) = Inr cs"
    and lanes: "ob_lanes db' = map (lease_chosen tok locked db c p limit lease now) (ob_lanes db)"
    by (auto simp: claim_publications_def Let_def split: if_splits sum.splits)
  then have cs: "map (\<lambda>l. claimed_from_row hyph (rec l) (ln_attempts l) (tok (ln_t l)) (now + int lease)) (?sort ?ls) = map Inr cs"
    unfolding collect_results_Inr rows by (simp add: comp_def)
  have row: "cp_id x = ln_t l \<and> cp_claim x = tok (ln_t l)"
    if "claimed_from_row hyph (rec l) (ln_attempts l) (tok (ln_t l)) (now + int lease) = Inr x" "l \<in> set ?ls" for x l
    using that rec [of l] by (auto simp: claimed_from_row_def split: if_splits)
  have gen: "map cp_id ys = map ln_t xs \<and> (\<forall>x \<in> set ys. cp_claim x = tok (cp_id x))"
    if "map (\<lambda>l. claimed_from_row hyph (rec l) (ln_attempts l) (tok (ln_t l)) (now + int lease)) xs = map Inr ys" "set xs \<subseteq> set ?ls" for xs ys
    using that
  proof (induction xs arbitrary: ys)
    case (Cons x xs)
    then obtain y zs where "ys = y # zs" by (cases ys) auto
    with Cons row [of x y] show ?case by auto
  qed simp
  from gen [OF cs] have ids: "map cp_id cs = map ln_t (?sort ?ls)" and tok: "\<forall>x \<in> set cs. cp_claim x = tok (cp_id x)" by simp_all
  have "mset (map cp_id cs) = image_mset ln_t (mset (filter (chosen db locked c limit now) (ob_lanes db)))"
    unfolding ids by (simp add: multiset.map_comp comp_def)
  then show "mset (map cp_id cs) = mset (map ln_t (claim_lanes db locked c limit now))"
    unfolding filter_chosen_mset [OF assms(1)] by simp
  show "cp_claim x = tok (cp_id x)" if "x \<in> set cs" for x using tok that by blast
  show "ob_lanes db' = map (lease_chosen tok locked db c p limit lease now) (ob_lanes db)" by (rule lanes)
qed

lemma take_sorted_rest:
  assumes "sorted (map k xs)" "y \<in> set xs" "y \<notin> set (take n xs)"
  shows "length (take n xs) = n \<and> (\<forall>x \<in> set (take n xs). k x \<le> k y)"
proof -
  have y: "y \<in> set (drop n xs)" using assms(2,3) by (metis append_take_drop_id Un_iff set_append)
  then have "n < length xs" by (cases "n < length xs") simp_all
  moreover have "sorted (map k (take n xs) @ map k (drop n xs))" using assms(1) by (metis append_take_drop_id map_append)
  ultimately show ?thesis using y by (auto simp: sorted_append)
qed

lemma claim_lanes_props:
  assumes "l \<in> set (claim_lanes db locked c limit now)"
  shows "l \<in> set (ob_lanes db)" "ln_consumer l = c" "claimable now (ln_state l)" "lane_deliverable db l" "\<not> locked (ln_t l)"
  using assms by (auto simp: claim_lanes_def dest!: in_set_takeD)

lemma claim_lanes_behind:
  assumes "l \<in> set (ob_lanes db)" "ln_consumer l = c" "claimable now (ln_state l)" "lane_deliverable db l" "\<not> locked (ln_t l)"
    "l \<notin> set (claim_lanes db locked c limit now)"
  shows "length (claim_lanes db locked c limit now) = limit \<and> (\<forall>m \<in> set (claim_lanes db locked c limit now). ln_attempts m < ln_attempts l \<or> ln_attempts m = ln_attempts l \<and> ln_t m \<le> ln_t l)"
proof -
  have "length (claim_lanes db locked c limit now) = limit \<and>
      (\<forall>m \<in> set (claim_lanes db locked c limit now). (ln_attempts m, ln_t m) \<le> (ln_attempts l, ln_t l))"
    unfolding claim_lanes_def by (rule take_sorted_rest) (use assms in \<open>simp_all add: claim_lanes_def\<close>)
  then show ?thesis by (auto simp: less_eq_prod_def)
qed

lemma lane_of_id:
  assumes "tables_ok db" "m \<in> set (ob_lanes db)" "ln_consumer m = c" "ln_t m \<in> ln_t ` set (claim_lanes db locked c limit now)"
  shows "m \<in> set (claim_lanes db locked c limit now)"
  using claim_lanes_hit(1) [OF assms(1,2), of locked c limit now] assms(3,4) by (simp add: chosen_def)

lemma claim_ids_distinct:
  assumes "tables_ok db" "claim_publications hyph tok locked db c p limit lease now = (Inr cs, db')"
  shows "distinct (map cp_id cs)"
proof -
  let ?ls = "claim_lanes db locked c limit now"
  have "distinct ?ls" using assms(1) by (simp add: claim_lanes_def distinct_sort tables_ok_def distinct_map)
  then have "distinct (map ln_t ?ls)"
    using lane_unique [OF assms(1)] claim_lanes_props(1,2) [of _ db locked c limit now] by (auto simp: distinct_map inj_on_def)
  with claim_answers(1) [OF assms] show ?thesis by (metis mset_eq_imp_distinct_iff)
qed

section \<open>Properties\<close>

text \<open>
  C13. Once no lane of a record holds a claim token, that token is dead until some claim mints it again for that record:
  whatever the processes do in between, marking with it publishes nothing and does not answer published, renewing with it
  is refused, and releasing with it releases nothing. A publisher whose lease was taken over cannot act on its successor.
\<close>

theorem stale_token_is_dead:
  assumes "\<not> holds_token db t c token" "list_all (\<lambda>op. \<not> mints op t token) ops"
  shows "ob_lanes (snd (mark_published (run_ops e db ops) c t token now)) = ob_lanes (run_ops e db ops) \<and>
    fst (mark_published (run_ops e db ops) c t token now) \<in> {Inr AckAlreadyPublished, Inr AckStaleClaim} \<and>
    fst (renew_claim (run_ops e db ops) c t token lease now) \<noteq> Inr True \<and>
    snd (renew_claim (run_ops e db ops) c t token lease now) = run_ops e db ops \<and>
    fst (release_claim (run_ops e db ops) c t token) \<noteq> Released \<and>
    snd (release_claim (run_ops e db ops) c t token) = run_ops e db ops"
proof -
  let ?db = "run_ops e db ops"
  have dead: "\<not> holds_token ?db t c token" using holds_token_run_ops assms by blast
  note none = no_token_no_effect [OF dead]
  have single: "mark_published ?db c t token now = (Inr (mark_answer ?db c [(t, token)] now t), snd (mark_published_batch ?db c [(t, token)] now))"
    unfolding mark_published_def using mark_fst_map [of ?db c "[(t, token)]" now]
    by (cases "mark_published_batch ?db c [(t, token)] now") simp
  have "mark_answer ?db c [(t, token)] now t \<noteq> AckPublished" using none(2) by (simp add: mark_fst_map)
  then have "mark_answer ?db c [(t, token)] now t \<in> {AckAlreadyPublished, AckStaleClaim}" by (cases "mark_answer ?db c [(t, token)] now t") simp_all
  then show ?thesis unfolding single using none(1) none(4,6) none(3,5) [THEN arg_cong [where f = snd]] by simp
qed

theorem stale_token_is_dead_witness:
  "\<not> holds_token demo_outbox 1 (lit ''default'') 99 \<and>
   fst (mark_published (run_ops demo_outbox_env demo_outbox [OpRelease (lit ''default'') 1 11]) (lit ''default'') 1 99 0) \<in>
     {Inr AckAlreadyPublished, Inr AckStaleClaim}"
proof -
  have none: "\<not> holds_token demo_outbox 1 (lit ''default'') 99" by (simp add: holds_token_def demo_outbox_def demo_lane_def)
  have "list_all (\<lambda>op. \<not> mints op 1 99) [OpRelease (lit ''default'') 1 11]" by simp
  from stale_token_is_dead [OF none this, of demo_outbox_env 0 5000] none show ?thesis by blast
qed

text \<open>
  C20. A batch of marks that names distinct records is exactly the sequence of its single marks: the same answer per
  claim, in the order given, and the same tables. A stale claim in the batch changes nothing for the others.
\<close>

theorem mark_batch_is_single_marks:
  assumes "distinct (map fst claims)"
  shows "mark_published_batch db c claims now =
    foldl (\<lambda>(outs, d) (t, token). case mark_published_batch d c [(t, token)] now of (out, d') \<Rightarrow> (outs @ out, d')) ([], db) claims"
proof -
  let ?step = "\<lambda>(outs, d) (t, token). case mark_published_batch d c [(t, token)] now of (out, d') \<Rightarrow> (outs @ out, d')"
  have "foldl ?step (outs, db) claims = (outs @ fst (mark_published_batch db c claims now), snd (mark_published_batch db c claims now))" for outs
    using assms
  proof (induction claims arbitrary: outs db)
    case Nil
    then show ?case by (simp add: mark_published_batch_def)
  next
    case (Cons x xs)
    obtain t token where x: "x = (t, token)" by (cases x)
    with Cons.prems have fresh: "t \<notin> fst ` set xs" by simp
    show ?case using Cons unfolding x by (simp add: mark_batch_Cons [OF fresh] split_beta)
  qed
  from this [of "[]"] show ?thesis by simp
qed

theorem mark_batch_is_single_marks_witness:
  "distinct (map fst [(1 :: uuid, 11 :: uuid), (2, 12)]) \<and>
   mark_published_batch demo_outbox (lit ''default'') [(1, 11), (2, 12)] 0 =
    foldl (\<lambda>(outs, d) (t, token). case mark_published_batch d (lit ''default'') [(t, token)] 0 of (out, d') \<Rightarrow> (outs @ out, d'))
      ([], demo_outbox) [(1, 11), (2, 12)]"
proof -
  have d: "distinct (map fst [(1 :: uuid, 11 :: uuid), (2, 12)])" by simp
  from mark_batch_is_single_marks [OF d, of demo_outbox "lit ''default''" 0] d show ?thesis by blast
qed

text \<open>
  C30. A batch that names one record twice answers by record, not by claim: when one of the two claims marks, the other
  is answered published as well, although alone it would not be, and after the first mark it would be already published.
\<close>

theorem repeated_record_answers_published:
  assumes "l \<in> set (ob_lanes db)" "ln_t l = t" "marks db c [(t, token)] now l" "\<not> holds_token db t c stale"
  shows "fst (mark_published_batch db c [(t, token), (t, stale)] now) = [AckPublished, AckPublished] \<and>
    fst (mark_published_batch db c [(t, stale)] now) \<noteq> [AckPublished] \<and>
    fst (mark_published_batch (snd (mark_published_batch db c [(t, token)] now)) c [(t, stale)] now) = [AckAlreadyPublished]"
proof -
  let ?db = "snd (mark_published_batch db c [(t, token)] now)"
  have both: "marks db c [(t, token), (t, stale)] now l" using assms(3) by (auto simp: marks_def)
  have none: "\<not> marks db c [(t, stale)] now m" if "m \<in> set (ob_lanes db)" "ln_t m = t" for m
    using that assms(4) claim_live_holds by (auto simp: marks_def holds_token_def list_ex_iff)
  have "\<not> marks ?db c [(t, stale)] now m" if "m \<in> set (ob_lanes ?db)" "ln_t m = t" for m
  proof -
    from that obtain k where k: "k \<in> set (ob_lanes db)" "m = mark_lane db c [(t, token)] now k" by (auto simp: mark_snd_map)
    with none [of k] that(2) show ?thesis unfolding marks_marked by (auto simp: mark_lane_def marks_def)
  qed
  moreover have "\<exists>m \<in> set (ob_lanes ?db). ln_t m = t \<and> ln_consumer m = c \<and> lane_published (ln_state m)"
  proof (rule bexI [of _ "mark_lane db c [(t, token)] now l"])
    show "mark_lane db c [(t, token)] now l \<in> set (ob_lanes ?db)" using assms(1) by (simp add: mark_snd_map)
    show "ln_t (mark_lane db c [(t, token)] now l) = t \<and> ln_consumer (mark_lane db c [(t, token)] now l) = c \<and>
        lane_published (ln_state (mark_lane db c [(t, token)] now l))"
      using assms(2,3) by (simp add: mark_lane_def) (simp add: marks_def)
  qed
  ultimately have "mark_answer ?db c [(t, stale)] now t = AckAlreadyPublished" unfolding mark_answer_def by auto
  moreover have "mark_answer db c [(t, token), (t, stale)] now t = AckPublished" using both assms(1,2) unfolding mark_answer_def by auto
  moreover have "mark_answer db c [(t, stale)] now t \<noteq> AckPublished" using none unfolding mark_answer_def by auto
  ultimately show ?thesis by (simp add: mark_fst_map)
qed

theorem repeated_record_answers_published_witness:
  "marks demo_outbox (lit ''default'') [(1, 11)] 0 demo_lane \<and> \<not> holds_token demo_outbox 1 (lit ''default'') 99 \<and>
   fst (mark_published_batch demo_outbox (lit ''default'') [(1, 11), (1, 99)] 0) = [AckPublished, AckPublished]"
proof -
  have l: "demo_lane \<in> set (ob_lanes demo_outbox)" "ln_t demo_lane = 1" by (simp_all add: demo_outbox_def demo_lane_def)
  have m: "marks demo_outbox (lit ''default'') [(1, 11)] 0 demo_lane"
    by (simp add: marks_def demo_outbox_def demo_lane_def demo_record_def lane_deliverable_def deliverable_def)
  have n: "\<not> holds_token demo_outbox 1 (lit ''default'') 99" by (simp add: holds_token_def demo_outbox_def demo_lane_def)
  from repeated_record_answers_published [OF l m n] m n show ?thesis by blast
qed

text \<open>
  C18. Every record a claim hands out was claimable, deliverable and not locked by another claim, and its lane is now
  leased under the token returned with it; no record is handed out twice and never more than the limit. A claimable
  lane is left behind only when the batch is full, and then only behind lanes with fewer attempts, or with as many
  attempts and no later record id.
\<close>

theorem claim_hands_out_the_oldest:
  assumes "outbox_ok db" "claim_publications hyph tok locked db c p limit lease now = (Inr cs, db')"
  shows "distinct (map cp_id cs) \<and> length cs \<le> limit \<and>
    (\<forall>x \<in> set cs. has_lane db' (cp_id x) c (LaneClaimed (cp_claim x) p (now + int lease)) \<and>
      (\<exists>l \<in> set (ob_lanes db). ln_t l = cp_id x \<and> ln_consumer l = c \<and> claimable now (ln_state l) \<and> lane_deliverable db l \<and> \<not> locked (ln_t l))) \<and>
    (\<forall>l \<in> set (ob_lanes db). ln_consumer l = c \<and> claimable now (ln_state l) \<and> lane_deliverable db l \<and> \<not> locked (ln_t l) \<and>
      ln_t l \<notin> cp_id ` set cs \<longrightarrow> length cs = limit \<and>
        (\<forall>m \<in> set (ob_lanes db). ln_consumer m = c \<and> ln_t m \<in> cp_id ` set cs \<longrightarrow> ln_attempts m < ln_attempts l \<or> ln_attempts m = ln_attempts l \<and> ln_t m \<le> ln_t l))"
proof -
  have tab: "tables_ok db" using assms(1) by (simp add: outbox_ok_def)
  let ?ls = "claim_lanes db locked c limit now"
  note ans = claim_answers [OF tab assms(2)]
  have ids: "cp_id ` set cs = ln_t ` set ?ls" using ans(1) by (metis set_map set_mset_mset)
  have len: "length cs = length ?ls" using ans(1) by (metis length_map mset_eq_length)
  note dist = claim_ids_distinct [OF tab assms(2)]
  have "has_lane db' (cp_id x) c (LaneClaimed (cp_claim x) p (now + int lease)) \<and>
      (\<exists>l \<in> set (ob_lanes db). ln_t l = cp_id x \<and> ln_consumer l = c \<and> claimable now (ln_state l) \<and> lane_deliverable db l \<and> \<not> locked (ln_t l))"
    if x: "x \<in> set cs" for x
  proof -
    from ids x obtain l where l: "l \<in> set ?ls" "ln_t l = cp_id x" by (metis imageE imageI)
    then have "lease_chosen tok locked db c p limit lease now l = lease_lane tok p lease now l"
      using claim_lanes_props(2) [OF l(1)] imageI [OF l(1), of ln_t] by (simp add: lease_chosen_def chosen_def)
    then have "has_lane db' (cp_id x) c (LaneClaimed (cp_claim x) p (now + int lease))"
      using l claim_lanes_props(1,2) [OF l(1)] unfolding has_lane_def ans(3) ans(2) [OF x]
      by (metis lease_lane_key(1,2,3) imageI set_map)
    with claim_lanes_props [OF l(1)] l show ?thesis by blast
  qed
  moreover have "length cs = limit \<and> (\<forall>m \<in> set (ob_lanes db). ln_consumer m = c \<and> ln_t m \<in> cp_id ` set cs \<longrightarrow> ln_attempts m < ln_attempts l \<or> ln_attempts m = ln_attempts l \<and> ln_t m \<le> ln_t l)"
    if "l \<in> set (ob_lanes db)" "ln_consumer l = c" "claimable now (ln_state l)" "lane_deliverable db l" "\<not> locked (ln_t l)" "ln_t l \<notin> cp_id ` set cs" for l
  proof -
    have "l \<notin> set ?ls" using that(6) ids by blast
    from claim_lanes_behind [OF that(1-5) this] len lane_of_id [OF tab] show ?thesis unfolding ids by metis
  qed
  ultimately show ?thesis using dist len by (auto simp: claim_lanes_def)
qed

theorem claim_hands_out_the_oldest_witness:
  "outbox_ok demo_outbox \<and>
   (\<exists>cs db'. claim_publications (\<lambda>_. []) (\<lambda>_. 12) (\<lambda>_. False) demo_outbox (lit ''default'') (lit ''b'') 5 5000 2000 = (Inr cs, db') \<and>
     distinct (map cp_id cs) \<and> length cs \<le> 5)"
proof -
  obtain cs db' where eq: "claim_publications (\<lambda>_. []) (\<lambda>_. 12) (\<lambda>_. False) demo_outbox (lit ''default'') (lit ''b'') 5 5000 2000 = (Inr cs, db')"
    by (simp add: claim_publications_def MIN_CLAIM_LEASE_def Let_def claimed_from_row_def demo_outbox_def demo_lane_def demo_record_def
      leased_rows_def chosen_def claim_lanes_def lane_deliverable_def deliverable_def lease_lane_def)
  from claim_hands_out_the_oldest [OF demo_outbox_ok eq] eq demo_outbox_ok show ?thesis by blast
qed

end
