(* ===== verification/OutboxCapture.thy ===== *)
theory OutboxCapture
  imports Outbox
begin

text \<open>
  What captures may add to the outbox: the positions of \<open>next_series_position\<close> and the backlog ceiling of
  \<open>refuse_when_full\<close>, both in \<open>crates/storage-pg/src/verbs/publication_outbox.rs\<close>, the latter for any number of
  captures in flight.
\<close>

section \<open>Series positions\<close>

text \<open>The positions a run of admissions is given; one that is refused gets none.\<close>

fun positions :: "pg_messages \<Rightarrow> outbox \<Rightarrow> uuid list \<Rightarrow> subject_position list" where
  "positions pg db [] = []"
| "positions pg db (handle # handles) =
     (case next_series_position pg db handle of
        Inl _ \<Rightarrow> positions pg db handles
      | Inr (p, db') \<Rightarrow> p # positions pg db' handles)"

definition counter :: "outbox \<Rightarrow> uuid \<Rightarrow> nat" where
  "counter db handle = (case map_of (ob_counters db) handle of None \<Rightarrow> 0 | Some n \<Rightarrow> n)"

lemma next_series_position_Inr:
  assumes "next_series_position pg db handle = Inr (p, db')"
  shows "sp_subject p = handle" "unat (sp_sequence p) = Suc (counter db handle)"
    "counter db' h = (if h = handle then Suc (counter db handle) else counter db h)"
proof -
  define sq where "sq = Suc (counter db handle)"
  from assms have sq: "sq < 2 ^ 63" and p: "p = \<lparr>sp_subject = handle, sp_sequence = of_nat sq\<rparr>"
    and db': "db' = db\<lparr>ob_counters := AList.update handle sq (ob_counters db)\<rparr>"
    by (auto simp: next_series_position_def sq_def counter_def Let_def split: if_splits option.splits)
  from sq have "unat (of_nat sq :: u64) = sq" by (simp add: unat_of_nat)
  with p show "sp_subject p = handle" "unat (sp_sequence p) = Suc (counter db handle)" by (simp_all add: sq_def)
  show "counter db' h = (if h = handle then Suc (counter db handle) else counter db h)"
    by (simp add: db' counter_def update_conv' sq_def)
qed

lemma positions_above: "p \<in> set (positions pg db handles) \<Longrightarrow> counter db (sp_subject p) < unat (sp_sequence p)"
proof (induction handles arbitrary: db)
  case (Cons h hs)
  show ?case
  proof (cases "next_series_position pg db h")
    case (Inr r)
    obtain q db' where r: "r = (q, db')" by (cases r)
    note step = next_series_position_Inr [OF Inr [unfolded r]]
    from Cons.prems Inr r consider "p = q" | "p \<in> set (positions pg db' hs)" by auto
    then show ?thesis
    proof cases
      case 2
      from Cons.IH [OF this] step(3) [of "sp_subject p"] show ?thesis by (auto split: if_splits)
    qed (use step(1,2) in simp)
  qed (use Cons in simp)
qed simp

lemma positions_sorted: "sorted_wrt (<) (map sp_sequence (filter (\<lambda>p. sp_subject p = h) (positions pg db handles)))"
proof (induction handles arbitrary: db)
  case (Cons x xs)
  show ?case
  proof (cases "next_series_position pg db x")
    case (Inr r)
    obtain q db' where r: "r = (q, db')" by (cases r)
    note step = next_series_position_Inr [OF Inr [unfolded r]]
    have "sp_sequence q < sp_sequence p" if "p \<in> set (positions pg db' xs)" "sp_subject p = sp_subject q" for p
      using positions_above [OF that(1)] step that(2) by (simp add: word_less_nat_alt)
    then show ?thesis using Cons.IH [of db'] Inr r by auto
  qed (use Cons in simp)
qed simp

section \<open>Captures in flight\<close>

text \<open>
  Captures whose transactions overlap. A writer probes the committed outbox, with whatever estimate row it read just
  before, and stays in flight with what it saw until its transaction commits the capture or rolls back; every other
  operation of the outbox may run in between. At most \<open>n\<close> writers are in flight. \<open>cr_estimated\<close> counts the captures a
  fresh estimate admitted, which took no exact probe.
\<close>

record capture_run =
  cr_db :: outbox
  cr_probed :: "outbox list"
  cr_estimated :: nat

definition estimate_admits :: "outbox \<Rightarrow> publication_limits \<Rightarrow> system_time \<Rightarrow> bool" where
  "estimate_admits seen limits now \<longleftrightarrow> is_some_and (fresh_backlog_estimate seen now) (\<lambda>pending. pending < unat (max_pending limits))"

fun is_capture :: "outbox_op \<Rightarrow> bool" where
  "is_capture (OpCapture _ _ _ _ _ _ _) = True"
| "is_capture _ = False"

inductive capture_step :: "outbox_env \<Rightarrow> publication_limits \<Rightarrow> nat \<Rightarrow> capture_run \<Rightarrow> capture_run \<Rightarrow> bool" for e limits n where
  probe: "length (cr_probed s) < n \<Longrightarrow>
    capture_step e limits n s (s\<lparr>cr_probed := (cr_db s)\<lparr>ob_backlog := estimate\<rparr> # cr_probed s\<rparr>)"
| commit: "cr_probed s = xs @ seen # ys \<Longrightarrow> pp_limits plan = limits \<Longrightarrow>
    capture_publication (oe_pg e) (oe_hyph e) (oe_rfc3339 e) (oe_to_vec e) (oe_blake3 e) seen (cr_db s) owner t at plan pos now = Inr db' \<Longrightarrow>
    capture_step e limits n s (s\<lparr>cr_db := db', cr_probed := xs @ ys,
      cr_estimated := (if estimate_admits seen limits now then Suc (cr_estimated s) else cr_estimated s)\<rparr>)"
| rollback: "cr_probed s = xs @ seen # ys \<Longrightarrow> capture_step e limits n s (s\<lparr>cr_probed := xs @ ys\<rparr>)"
| other: "\<not> is_capture op \<Longrightarrow> capture_step e limits n s (s\<lparr>cr_db := run_op e (cr_db s) op\<rparr>)"

text \<open>What a passed probe says, and that only a capture makes the backlog longer.\<close>

lemma refuse_when_full_passes:
  "refuse_when_full db limits now = Inr () \<Longrightarrow> estimate_admits db limits now \<or> pending_count db < unat (max_pending limits)"
  by (auto simp: refuse_when_full_def estimate_admits_def pending_count_def Let_def unat_eq_0 split: if_splits)
    (metis Suc_pred le_imp_less_Suc unat_gt_0)

lemma length_filter_map_le:
  assumes "\<And>x. P (f x) \<Longrightarrow> P x"
  shows "length (filter P (map f xs)) \<le> length (filter P xs)"
  using assms by (induction xs) (auto intro: le_SucI)

lemma pending_settle: "pending_count (settle_records db ids now) \<le> pending_count db"
  unfolding pending_count_def settle_records_def by (simp del: filter_map length_filter_map) (rule length_filter_map_le, simp split: if_splits)

lemma pending_filter: "length (filter P (filter Q xs)) \<le> length (filter P xs)"
  by (induction xs) (auto intro: le_SucI)

lemma pending_run_op:
  assumes "\<not> is_capture op"
  shows "pending_count (run_op e db op) \<le> pending_count db"
proof (cases op)
  case (OpClaim tok locked c p limit lease now)
  then show ?thesis using claim_cases [of "oe_hyph e" tok locked db c p limit lease now] by (auto simp: pending_count_def)
next
  case (OpMark c claims now)
  have "pending_count (db\<lparr>ob_lanes := ls\<rparr>) = pending_count db" for ls by (simp add: pending_count_def)
  then show ?thesis using pending_settle by (metis OpMark mark_snd run_op.simps(3))
next
  case (OpRetire c now)
  have "pending_count (db\<lparr>ob_consumers := cs, ob_lanes := ls\<rparr>) = pending_count db" for cs ls by (simp add: pending_count_def)
  with pending_settle show ?thesis by (simp add: OpRetire retire_consumer_def Let_def) (metis (no_types))
next
  case (OpForget t now)
  have "pending_count (db\<lparr>ob_lanes := ls\<rparr>) = pending_count db" for ls by (simp add: pending_count_def)
  with pending_settle have "pending_count (settle_records (db\<lparr>ob_lanes := ls\<rparr>) ids now) \<le> pending_count db" for ls ids by metis
  moreover have "pending_count (db\<lparr>ob_lanes := ls, ob_records := filter Q (ob_records db)\<rparr>) \<le> pending_count db" for ls Q
    unfolding pending_count_def by (simp del: filter_filter) (rule pending_filter)
  ultimately show ?thesis by (simp add: OpForget cancel_undelivered_for_forget_def Let_def)
next
  case (OpPrune older limit now)
  then show ?thesis unfolding pending_count_def by (simp add: prune_published_def Let_def del: filter_filter) (rule pending_filter)
next
  case (OpErase t)
  then show ?thesis unfolding pending_count_def by (simp del: filter_filter) (rule pending_filter)
qed (use assms in \<open>auto simp: pending_count_def renew_claim_def release_claim_def register_consumer_def Let_def\<close>)

lemma capture_pending:
  assumes "capture_publication pg hyph rfc3339 to_vec blake3 seen db owner t at plan pos now = Inr db'"
  shows "pending_count db' \<le> Suc (pending_count db)"
    and "estimate_admits seen (pp_limits plan) now \<or> pending_count seen < unat (max_pending (pp_limits plan))"
proof -
  from assms show "pending_count db' \<le> Suc (pending_count db)" by (rule capture_Inr) (simp add: pending_count_def)
  from assms have "refuse_when_full seen (pp_limits plan) now = Inr ()" by (auto simp: capture_publication_def rbind_eq_Inr)
  then show "estimate_admits seen (pp_limits plan) now \<or> pending_count seen < unat (max_pending (pp_limits plan))"
    by (rule refuse_when_full_passes)
qed

text \<open>
  The invariant of overlapping captures: the backlog, plus the writers in flight that saw room below the ceiling,
  exceeds the ceiling by at most one writer less than may be in flight, and the captures admitted on an estimate.
\<close>

definition roomy :: "publication_limits \<Rightarrow> outbox list \<Rightarrow> nat" where
  "roomy limits probed = length (filter (\<lambda>seen. pending_count seen < unat (max_pending limits)) probed)"

lemma roomy_simps [simp]:
  "roomy limits [] = 0"
  "roomy limits (seen # ys) = (if pending_count seen < unat (max_pending limits) then Suc (roomy limits ys) else roomy limits ys)"
  "roomy limits (xs @ ys) = roomy limits xs + roomy limits ys"
  by (simp_all add: roomy_def)

lemma roomy_le: "roomy limits probed \<le> length probed"
  by (simp add: roomy_def)

definition ceiling_holds :: "publication_limits \<Rightarrow> nat \<Rightarrow> capture_run \<Rightarrow> bool" where
  "ceiling_holds limits n s \<longleftrightarrow> length (cr_probed s) \<le> n \<and>
     pending_count (cr_db s) + roomy limits (cr_probed s) \<le> unat (max_pending limits) + (n - 1) + cr_estimated s"

lemma capture_step_ceiling:
  assumes "ceiling_holds limits n s" "capture_step e limits n s s'"
  shows "ceiling_holds limits n s'"
  using assms(2)
proof cases
  case (probe estimate)
  have "pending_count ((cr_db s)\<lparr>ob_backlog := estimate\<rparr>) = pending_count (cr_db s)" by (simp add: pending_count_def)
  then show ?thesis using probe assms(1) roomy_le [of limits "cr_probed s"] by (auto simp: ceiling_holds_def)
next
  case (commit xs seen ys plan owner t at pos now db')
  from capture_pending [OF commit(4)] commit(3)
  have "pending_count db' \<le> Suc (pending_count (cr_db s))" "estimate_admits seen limits now \<or> pending_count seen < unat (max_pending limits)" by auto
  then show ?thesis using commit(1,2) assms(1) by (auto simp: ceiling_holds_def split: if_splits)
next
  case (rollback xs seen ys)
  then show ?thesis using assms(1) by (auto simp: ceiling_holds_def split: if_splits)
next
  case (other op)
  then show ?thesis using assms(1) pending_run_op [OF other(2), of e "cr_db s"] by (simp add: ceiling_holds_def)
qed

lemma capture_steps_ceiling: "(capture_step e limits n)\<^sup>*\<^sup>* s s' \<Longrightarrow> ceiling_holds limits n s \<Longrightarrow> ceiling_holds limits n s'"
  by (induction rule: rtranclp_induct) (auto intro: capture_step_ceiling)

section \<open>Properties\<close>

text \<open>
  C27. The positions of one series only grow: in any run of admissions over any series, the sequence attributes given to
  one series are strictly increasing as text, which is how a consumer compares them, and each exceeds the counter the run
  started from. No position is given twice.
\<close>

theorem series_positions_increase:
  "sorted_wrt str_less (map sequence_attribute (filter (\<lambda>p. sp_subject p = h) (positions pg db handles))) \<and>
   list_all (\<lambda>p. counter db (sp_subject p) < unat (sp_sequence p)) (positions pg db handles)"
proof
  have "sorted_wrt (\<lambda>p q. str_less (sequence_attribute p) (sequence_attribute q)) (filter (\<lambda>p. sp_subject p = h) (positions pg db handles))"
    using positions_sorted [of h pg db handles] by (simp add: sorted_wrt_map sequence_attribute_order)
  then show "sorted_wrt str_less (map sequence_attribute (filter (\<lambda>p. sp_subject p = h) (positions pg db handles)))" by (simp add: sorted_wrt_map)
  show "list_all (\<lambda>p. counter db (sp_subject p) < unat (sp_sequence p)) (positions pg db handles)"
    using positions_above by (auto simp: list_all_iff)
qed

text \<open>
  C26. The backlog ceiling, for every ceiling that fits a Postgres offset. The check itself is exact on what it sees: a
  capture passes exactly when a fresh estimate is below the ceiling or the number of undelivered records is. The ceiling is
  soft for the table: a probe locks nothing, so with at most \<open>n\<close> captures in flight, interleaved in any way with each
  other and with every other operation, a backlog that starts within the ceiling exceeds it by at most \<open>n - 1\<close> records,
  beside one for each capture that a fresh estimate admitted without a probe.
\<close>

theorem backlog_ceiling_under_writers:
  assumes "unat (max_pending limits) \<le> 2 ^ 63" "pending_count db \<le> unat (max_pending limits)"
    and "(capture_step e limits n)\<^sup>*\<^sup>* \<lparr>cr_db = db, cr_probed = [], cr_estimated = 0\<rparr> s"
  shows "(refuse_when_full seen limits now = Inr () \<longleftrightarrow>
      is_some_and (fresh_backlog_estimate seen now) (\<lambda>m. m < unat (max_pending limits)) \<or> pending_count seen < unat (max_pending limits)) \<and>
    pending_count (cr_db s) \<le> unat (max_pending limits) + (n - 1) + cr_estimated s"
proof
  have zero: "max_pending limits = 0 \<longleftrightarrow> unat (max_pending limits) = 0" by (simp add: unat_eq_0)
  show "refuse_when_full seen limits now = Inr () \<longleftrightarrow>
      is_some_and (fresh_backlog_estimate seen now) (\<lambda>m. m < unat (max_pending limits)) \<or> pending_count seen < unat (max_pending limits)"
    using assms(1) by (auto simp: refuse_when_full_def pending_count_def Let_def zero)
  have "ceiling_holds limits n \<lparr>cr_db = db, cr_probed = [], cr_estimated = 0\<rparr>" using assms(2) by (simp add: ceiling_holds_def)
  from capture_steps_ceiling [OF assms(3) this] show "pending_count (cr_db s) \<le> unat (max_pending limits) + (n - 1) + cr_estimated s"
    by (simp add: ceiling_holds_def)
qed

text \<open>
  Two writers under a ceiling of one: both probe the empty outbox, both commit, and the backlog is two, which is the bound
  for two writers in flight.
\<close>

definition pair_limits :: publication_limits where
  "pair_limits = \<lparr>max_pending = 1, max_payload_bytes = 100\<rparr>"

definition pair_plan :: publication_plan where
  "pair_plan = \<lparr>pp_draft = publication_draft_new (lit ''s'') 1 (PublicationSource (lit ''urn:x'')) (OwnerId 7) None [] JNull,
     pp_limits = pair_limits\<rparr>"

definition pair_env :: outbox_env where
  "pair_env = \<lparr>oe_pg = \<lparr>pg_unique = [], pg_foreign_key = [], pg_out_of_range = []\<rparr>, oe_hyph = (\<lambda>u. [unat u]), oe_rfc3339 = (\<lambda>_. Inr []),
     oe_to_vec = (\<lambda>_. Inr [1, 2]), oe_blake3 = (\<lambda>_. replicate 32 0)\<rparr>"

definition pair_db :: outbox where
  "pair_db = \<lparr>ob_records = [], ob_lanes = [], ob_consumers = [lit ''default''], ob_origins = [], ob_erased = [], ob_owners = [7],
     ob_backlog = (0, 0), ob_heads = [], ob_counters = [], ob_facts = [((1, 7), None), ((2, 7), None)]\<rparr>"

definition pair_capture :: "outbox \<Rightarrow> uuid \<Rightarrow> (storage_error, outbox) result" where
  "pair_capture db t = capture_publication (oe_pg pair_env) (oe_hyph pair_env) (oe_rfc3339 pair_env) (oe_to_vec pair_env) (oe_blake3 pair_env)
     pair_db db 7 t (Some 0) pair_plan \<lparr>sp_subject = 5, sp_sequence = 1\<rparr> 100000"

theorem backlog_ceiling_under_writers_witness:
  "\<exists>db1 db2. pair_capture pair_db 1 = Inr db1 \<and> pair_capture db1 2 = Inr db2 \<and>
     (capture_step pair_env pair_limits 2)\<^sup>*\<^sup>* \<lparr>cr_db = pair_db, cr_probed = [], cr_estimated = 0\<rparr> \<lparr>cr_db = db2, cr_probed = [], cr_estimated = 0\<rparr> \<and>
     pending_count db2 \<le> unat (max_pending pair_limits) + (2 - 1) \<and> pending_count db2 = 2"
proof -
  note defs = pair_capture_def capture_publication_def refuse_when_full_def fresh_backlog_estimate_def BACKLOG_ESTIMATE_VALID_FOR_def pair_env_def
    pair_plan_def pair_limits_def pair_db_def seal_def Let_def result_simps publication_draft_new_def outbox_row_def fan_out_def
  obtain db1 where db1: "pair_capture pair_db 1 = Inr db1" and r1: "map ox_t (ob_records db1) = [1]" "map ox_event_id (ob_records db1) = [[1]]"
    "fst ` set (ob_origins db1) = {1}" "ob_owners db1 = [7]" "ob_facts db1 = ob_facts pair_db"
    by (simp add: defs)
  obtain db2 where db2: "pair_capture db1 2 = Inr db2" and r2: "pending_count db2 = 2"
    using db1 by (auto simp: defs pending_count_def)
  have lim: "pp_limits pair_plan = pair_limits" by (simp add: pair_plan_def)
  have est: "\<not> estimate_admits pair_db pair_limits 100000"
    by (simp add: estimate_admits_def fresh_backlog_estimate_def pair_db_def BACKLOG_ESTIMATE_VALID_FOR_def)
  have idem: "pair_db\<lparr>ob_backlog := (0, 0)\<rparr> = pair_db" by (simp add: pair_db_def)
  let ?s = "\<lambda>db seen. \<lparr>cr_db = db, cr_probed = seen, cr_estimated = 0\<rparr>"
  have "capture_step pair_env pair_limits 2 (?s pair_db []) (?s pair_db [pair_db])"
    "capture_step pair_env pair_limits 2 (?s pair_db [pair_db]) (?s pair_db [pair_db, pair_db])"
    using capture_step.probe [of "?s pair_db []" 2 pair_env pair_limits "(0, 0)"]
      capture_step.probe [of "?s pair_db [pair_db]" 2 pair_env pair_limits "(0, 0)"] by (simp_all add: idem)
  moreover have commit: "capture_step pair_env pair_limits 2 (?s db (pair_db # xs)) (?s db' xs)" if "pair_capture db t = Inr db'" for db t db' xs
    using capture_step.commit [of "?s db (pair_db # xs)" "[]" pair_db xs pair_plan pair_limits pair_env 7 t "Some 0"
      "\<lparr>sp_subject = 5, sp_sequence = 1\<rparr>" 100000 db' 2] that lim est by (simp add: pair_capture_def)
  note commit [OF db1] commit [OF db2]
  ultimately have run: "(capture_step pair_env pair_limits 2)\<^sup>*\<^sup>* (?s pair_db []) (?s db2 [])"
    by (meson converse_rtranclp_into_rtranclp rtranclp.rtrancl_refl)
  have "unat (max_pending pair_limits) \<le> 2 ^ 63" "pending_count pair_db \<le> unat (max_pending pair_limits)"
    by (simp_all add: pair_limits_def pending_count_def pair_db_def)
  from backlog_ceiling_under_writers [OF this run] run db1 db2 r2 show ?thesis by (intro exI [of _ db1] exI [of _ db2]) simp
qed

end
