(* ===== verification/Intake.thy ===== *)
theory Intake
  imports Outbox
begin

text \<open>
  What a host receives: \<open>crates/core/src/publication/intake.rs\<close>. \<open>from_record\<close> reads a claimed record into a
  typed event and \<open>event_identity_of\<close> reads the event id. Splitting JSON bytes into the members of an object is
  \<open>serde_json\<close>'s work and a parameter, as are printing and parsing of UUIDs; filling the envelope from the members, which the
  struct's \<open>derive(Deserialize)\<close> and its attributes prescribe, is modelled. The theorems show that a captured and sealed event
  is always readable, attribute by attribute, and that deduplicating on the typed identity and on the id agree.
\<close>

record received_envelope =
  ce_specversion :: str
  ce_id :: str
  ce_source :: str
  ce_event_type :: str
  ce_datacontenttype :: "str option"
  ce_dataschema :: "str option"
  ce_time :: "str option"
  ce_subject :: "str option"
  ce_sequence :: "str option"
  ce_proxiimaowner :: "str option"
  ce_proxiimamodel :: "str option"
  ce_extensions :: "(str \<times> json) list"
  ce_data :: json

record received_event =
  re_id :: str
  re_owner :: owner_id
  re_delivered_count :: u64
  re_raw :: "byte list"
  re_envelope :: received_envelope
  re_position :: subject_position

datatype event_identity = FactIdentity uuid | Opaque str

text \<open>
  \<open>derive(Deserialize)\<close> of the envelope. The members are visited in order: a field the struct names is read at its type and may
  occur once; any other member is set aside for the flattened extensions, a \<open>BTreeMap\<close> in which a later member of the same
  name wins. Then the required known are looked up. Errors are \<open>serde_json::Error\<close>: the parser's own, one of the reader's,
  or one of the two custom ones; which of two errors is met first is not told apart from the parser's.
\<close>

datatype record_error =
    NotJson str
  | DuplicateField str
  | InvalidType str
  | MissingField str
  | MissingPosition
  | BadPosition subject_position_error

definition REQUIRED_FIELDS :: "str list" where
  "REQUIRED_FIELDS = [lit ''specversion'', lit ''id'', lit ''source'', lit ''type'']"

definition OPTIONAL_FIELDS :: "str list" where
  "OPTIONAL_FIELDS = [lit ''datacontenttype'', lit ''dataschema'', lit ''time'', lit ''subject'', lit ''sequence'',
     lit ''proxiimaowner'', lit ''proxiimamodel'']"

fun field_reads :: "str \<Rightarrow> json \<Rightarrow> bool" where
  "field_reads k (JString _) = True"
| "field_reads k JNull = (k \<notin> set REQUIRED_FIELDS)"
| "field_reads k _ = (k = lit ''data'')"

fun visit_members ::
  "(str \<times> json) list \<Rightarrow> (str \<times> json) list \<Rightarrow> (str \<times> json) list \<Rightarrow> (record_error, (str \<times> json) list \<times> (str \<times> json) list) result" where
  "visit_members [] known others = Inr (known, others)"
| "visit_members ((k, v) # ms) known others =
     (if k \<in> set REQUIRED_FIELDS \<or> k \<in> set OPTIONAL_FIELDS \<or> k = lit ''data''
      then if k \<in> fst ` set known then Inl (DuplicateField k)
        else if \<not> field_reads k v then Inl (InvalidType k)
        else visit_members ms ((k, v) # known) others
      else visit_members ms known (others @ [(k, v)]))"

definition required :: "(str \<times> json) list \<Rightarrow> str \<Rightarrow> (record_error, str) result" where
  "required known k = ok_or (MissingField k) (Option.bind (map_of known k) json_as_str)"

definition optional :: "(str \<times> json) list \<Rightarrow> str \<Rightarrow> str option" where
  "optional known k = Option.bind (map_of known k) json_as_str"

definition envelope_of_members :: "(str \<times> json) list \<Rightarrow> (record_error, received_envelope) result" where
  "envelope_of_members ms =
     rbind (visit_members ms [] []) (\<lambda>(known, others).
     rbind (required known (lit ''specversion'')) (\<lambda>specversion.
     rbind (required known (lit ''id'')) (\<lambda>event_id.
     rbind (required known (lit ''source'')) (\<lambda>src.
     rbind (required known (lit ''type'')) (\<lambda>event_type.
     rbind (ok_or (MissingField (lit ''data'')) (map_of known (lit ''data''))) (\<lambda>payload.
       Inr \<lparr>ce_specversion = specversion, ce_id = event_id, ce_source = src, ce_event_type = event_type,
         ce_datacontenttype = optional known (lit ''datacontenttype''), ce_dataschema = optional known (lit ''dataschema''),
         ce_time = optional known (lit ''time''), ce_subject = optional known (lit ''subject''),
         ce_sequence = optional known (lit ''sequence''), ce_proxiimaowner = optional known (lit ''proxiimaowner''),
         ce_proxiimamodel = optional known (lit ''proxiimamodel''),
         ce_extensions = foldl (\<lambda>m (k, v). bt_insert k v m) [] others, ce_data = payload\<rparr>))))))"

definition from_record ::
  "(uuid \<Rightarrow> str) \<Rightarrow> (str \<Rightarrow> uuid option) \<Rightarrow> (byte list \<Rightarrow> (str, (str \<times> json) list) result) \<Rightarrow>
   claimed_publication \<Rightarrow> (record_error, received_event) result" where
  "from_record hyph try_parse members record =
     rbind (map_err NotJson (members (cp_envelope record))) (\<lambda>ms.
     rbind (envelope_of_members ms) (\<lambda>envelope.
       (case (ce_subject envelope, ce_sequence envelope) of
          (Some subj, Some sq) \<Rightarrow>
            rbind (map_err BadPosition (subject_position_parse hyph try_parse subj sq)) (\<lambda>position.
              Inr \<lparr>re_id = cp_event_id record, re_owner = OwnerId (cp_owner record),
                re_delivered_count = ucast (cp_attempts record), re_raw = cp_envelope record,
                re_envelope = envelope, re_position = position\<rparr>)
        | _ \<Rightarrow> Inl MissingPosition)))"

definition event_identity_of :: "(uuid \<Rightarrow> str) \<Rightarrow> (str \<Rightarrow> uuid option) \<Rightarrow> received_event \<Rightarrow> event_identity" where
  "event_identity_of hyph parse_str event =
     (case parse_str (re_id event) of
        Some uuid \<Rightarrow> if hyph uuid = re_id event then FactIdentity uuid else Opaque (re_id event)
      | None \<Rightarrow> Opaque (re_id event))"

section \<open>What JSON text gives back\<close>

text \<open>
  What is relied on of \<open>serde_json\<close>: the members of an object it wrote are read back under their names, in order, and a value
  comes back as it was when it holds no floating-point number, whose digits may round, and keeps its objects as
  \<open>serde_json::Map\<close> does, in name order. The reader refuses input nested 128 levels or deeper.
\<close>

fun json_depth :: "json \<Rightarrow> nat" where
  "json_depth (JArray xs) = Suc (foldr max (map json_depth xs) 0)"
| "json_depth (JObject ms) = Suc (foldr max (map (\<lambda>m. json_depth (snd m)) ms) 0)"
| "json_depth _ = 0"

fun plain :: "json \<Rightarrow> bool" where
  "plain (JNumber (NumFloat _)) = False"
| "plain (JNumber (NumInt i)) = (- (2 ^ 63) \<le> i \<and> i < 2 ^ 64)"
| "plain (JArray xs) = list_all plain xs"
| "plain (JObject ms) = (bt_sorted ms \<and> list_all (\<lambda>m. plain (snd m)) ms)"
| "plain _ = True"

definition member_kept :: "str \<times> json \<Rightarrow> str \<times> json \<Rightarrow> bool" where
  "member_kept written got \<longleftrightarrow> fst got = fst written \<and> (plain (snd written) \<longrightarrow> snd got = snd written)"

definition members_read_back :: "(json \<Rightarrow> (str, byte list) result) \<Rightarrow> (byte list \<Rightarrow> (str, (str \<times> json) list) result) \<Rightarrow> bool" where
  "members_read_back to_vec members \<longleftrightarrow>
     (\<forall>ms bytes. to_vec (JObject ms) = Inr bytes \<and> json_depth (JObject ms) < 128 \<longrightarrow>
       (\<exists>got. members bytes = Inr got \<and> list_all2 member_kept ms got))"

section \<open>Reading the envelope\<close>

lemma extension_plain: "plain (extension_json v)" "json_depth (extension_json v) = 0"
proof -
  have "- (2 ^ 63) \<le> sint i \<and> sint i < 2 ^ 64" for i :: "32 word"
    using sint_greater_eq [of i] sint_less [of i] by simp
  then show "plain (extension_json v)" by (cases v) simp_all
  show "json_depth (extension_json v) = 0" by (cases v) simp_all
qed

lemma extension_name_free:
  assumes "extensions_ok m" "k \<in> fst ` set m"
  shows "k \<notin> set REQUIRED_FIELDS" "k \<notin> set OPTIONAL_FIELDS" "k \<noteq> lit ''data''"
proof -
  from assms obtain v where "extension_ok k v" by (auto simp: extensions_ok_def)
  then have "validate_extension_name k = Inr ()" by (simp add: extension_ok_def)
  note free = validate_extension_name_ok [OF this]
  show "k \<notin> set REQUIRED_FIELDS" "k \<noteq> lit ''data''"
    using free(2) unfolding REQUIRED_FIELDS_def CLOUDEVENTS_CORE_ATTRIBUTES_def by auto
  have "k \<noteq> lit ''proxiimaowner''" "k \<noteq> lit ''proxiimamodel''" using free(4) by (auto simp: PROXIIMA_EXTENSION_PREFIX_def)
  then show "k \<notin> set OPTIONAL_FIELDS"
    using free(2,3) unfolding OPTIONAL_FIELDS_def CLOUDEVENTS_CORE_ATTRIBUTES_def SUBSTRATE_EXTENSION_ATTRIBUTES_def by auto
qed

lemma visit_others:
  "(\<And>k. k \<in> fst ` set es \<Longrightarrow> k \<notin> set REQUIRED_FIELDS \<and> k \<notin> set OPTIONAL_FIELDS \<and> k \<noteq> lit ''data'') \<Longrightarrow>
   visit_members (es @ ms) known others = visit_members ms known (others @ es)"
  by (induction es arbitrary: others) auto

lemma bt_insert_last: "\<forall>k' \<in> fst ` set m. str_less k' k \<Longrightarrow> bt_insert k v m = m @ [(k, v)]"
  by (induction k v m rule: bt_insert.induct) (auto simp: str_less_def dest: order.asym)

lemma bt_collect:
  "bt_sorted (acc @ es) \<Longrightarrow> foldl (\<lambda>m (k, v). bt_insert k v m) acc es = acc @ es"
proof (induction es arbitrary: acc)
  case (Cons e es)
  have "bt_insert (fst e) (snd e) acc = acc @ [e]"
    using Cons.prems by (subst bt_insert_last) (auto simp: bt_sorted_def sorted_wrt_append)
  then show ?case using Cons.IH [of "acc @ [e]"] Cons.prems by (simp add: case_prod_beta')
qed simp

text \<open>The members of a sealed envelope, read back with some payload, give the envelope of the draft.\<close>

definition envelope_of_draft :: "(uuid \<Rightarrow> str) \<Rightarrow> publication_draft \<Rightarrow> uuid \<Rightarrow> str \<Rightarrow> subject_position \<Rightarrow> json \<Rightarrow> received_envelope" where
  "envelope_of_draft hyph d t tm p payload =
     \<lparr>ce_specversion = lit ''1.0'', ce_id = hyph t, ce_source = source_str (pd_source d), ce_event_type = pd_event_type d,
      ce_datacontenttype = Some (lit ''application/json''), ce_dataschema = Some (pd_data_schema d), ce_time = Some tm,
      ce_subject = Some (subject_attribute hyph p), ce_sequence = Some (sequence_attribute p),
      ce_proxiimaowner = Some (hyph (owner_uuid (pd_owner d))), ce_proxiimamodel = pd_model_id d,
      ce_extensions = map (\<lambda>(name, v). (name, extension_json v)) (pd_extensions d), ce_data = payload\<rparr>"

lemma envelope_read:
  assumes "extensions_ok (pd_extensions d)"
  shows "envelope_of_members (cloud_event_envelope hyph (d\<lparr>pd_data := payload\<rparr>) t tm p) = Inr (envelope_of_draft hyph d t tm p payload)"
proof -
  let ?es = "map (\<lambda>(name, v). (name, extension_json v)) (pd_extensions d)"
  have keys: "map fst ?es = map fst (pd_extensions d)" by (simp add: comp_def case_prod_beta')
  have "k \<notin> set REQUIRED_FIELDS \<and> k \<notin> set OPTIONAL_FIELDS \<and> k \<noteq> lit ''data''" if "k \<in> fst ` set ?es" for k
    using extension_name_free [OF assms, of k] that by (metis keys set_map)
  note others = visit_others [OF this]
  have "bt_sorted ?es" using assms unfolding extensions_ok_def bt_sorted_def by (simp add: sorted_wrt_map case_prod_beta')
  then have collect: "foldl (\<lambda>m (k, v). bt_insert k v m) [] ?es = ?es" using bt_collect [of "[]" ?es] by simp
  define core where "core = [(lit ''specversion'', JString (lit ''1.0'')), (lit ''id'', JString (hyph t)), (lit ''source'', JString (source_str (pd_source d))),
      (lit ''type'', JString (pd_event_type d)), (lit ''datacontenttype'', JString (lit ''application/json'')), (lit ''dataschema'', JString (pd_data_schema d)),
      (lit ''time'', JString tm), (lit ''subject'', JString (subject_attribute hyph p)), (lit ''sequence'', JString (sequence_attribute p)),
      (lit ''proxiimaowner'', JString (hyph (owner_uuid (pd_owner d))))] @ (case pd_model_id d of None \<Rightarrow> [] | Some m \<Rightarrow> [(lit ''proxiimamodel'', JString m)])"
  have parts: "cloud_event_envelope hyph (d\<lparr>pd_data := payload\<rparr>) t tm p = core @ ?es @ [(lit ''data'', payload)]"
    by (simp add: cloud_event_envelope_def core_def)
  have "visit_members (core @ ms) [] [] = visit_members ms (rev core) []" for ms
    by (cases "pd_model_id d") (simp_all add: core_def REQUIRED_FIELDS_def OPTIONAL_FIELDS_def)
  moreover have "lit ''data'' \<notin> fst ` set core" by (cases "pd_model_id d") (simp_all add: core_def)
  ultimately have "visit_members (core @ ?es @ [(lit ''data'', payload)]) [] [] = Inr ((lit ''data'', payload) # rev core, ?es)"
    by (simp only: others) (cases payload, simp_all add: REQUIRED_FIELDS_def)
  then show ?thesis unfolding envelope_of_members_def parts
    by (cases "pd_model_id d") (simp_all add: collect envelope_of_draft_def required_def optional_def core_def ok_or_def)
qed

lemma envelope_got:
  assumes "list_all2 member_kept (cloud_event_envelope hyph d t tm p) got"
  obtains payload where "got = cloud_event_envelope hyph (d\<lparr>pd_data := payload\<rparr>) t tm p" "plain (pd_data d) \<longrightarrow> payload = pd_data d"
proof -
  define front where "front = butlast (cloud_event_envelope hyph d t tm p)"
  have split: "cloud_event_envelope hyph (d\<lparr>pd_data := v\<rparr>) t tm p = front @ [(lit ''data'', v)]" for v
    by (simp add: front_def cloud_event_envelope_def butlast_append)
  have parts: "cloud_event_envelope hyph d t tm p = front @ [(lit ''data'', pd_data d)]" using split [of "pd_data d"] by simp
  have plain: "plain (snd m)" if "m \<in> set front" for m
    using that by (auto simp: front_def cloud_event_envelope_def butlast_append extension_plain split: option.splits)
  from assms obtain got1 k v where got: "got = got1 @ [(k, v)]" "list_all2 member_kept front got1" "member_kept (lit ''data'', pd_data d) (k, v)"
    unfolding parts by (auto simp: list_all2_append1 list_all2_Cons1)
  from got(2) plain have "got1 = front"
    by (auto simp: list_eq_iff_nth_eq list_all2_conv_all_nth member_kept_def prod_eq_iff)
  with got split [of v] that [of v] show thesis by (simp add: member_kept_def)
qed

lemma envelope_depth: "json_depth (JObject (cloud_event_envelope hyph d t tm p)) = Suc (json_depth (pd_data d))"
proof -
  have scalar: "foldr max (map ((\<lambda>m. json_depth (snd m)) \<circ> (\<lambda>(name, v). (name, extension_json v))) es) n = n" for es n
    by (induction es) (auto simp: extension_plain)
  show ?thesis by (simp add: cloud_event_envelope_def scalar split: option.split)
qed

section \<open>Properties\<close>

text \<open>
  C19. What was captured is what a host receives. When an event with valid extensions was sealed and stored as an outbox row,
  and a claim hands the row out, reading the claimed record succeeds. The event has the id, owner, number of claims so far,
  sealed bytes and position the record was given, its identity is the captured Fact, and every attribute of the envelope is
  the one captured: source, type, schema, time, owner, model and each extension; the payload too, unless it holds a
  floating-point number. This rests on UUIDs parsing back from their own print and on \<open>serde_json\<close> reading the members of an
  object it wrote.
\<close>

theorem captured_event_is_received:
  assumes uuid: "\<forall>u. try_parse (hyph u) = Some u"
    and serde: "members_read_back to_vec members"
    and ext: "extensions_ok (pd_extensions (pp_draft plan))"
    and depth: "json_depth (pd_data (pp_draft plan)) < 127"
    and nonzero: "sp_sequence position \<noteq> 0"
    and seal: "seal hyph rfc3339 to_vec blake3 plan t at position = Inr sealed"
    and row: "claimed_from_row hyph (outbox_row owner sealed published) attempts token lease = Inr record"
    and attempts: "attempts \<le> MAX_ATTEMPTS"
  shows "\<exists>event tm payload. from_record hyph try_parse members record = Inr event \<and> re_position event = position \<and>
    re_raw event = sl_bytes sealed \<and> re_owner event = OwnerId owner \<and> unat (re_delivered_count event) = attempts \<and>
    re_id event = hyph t \<and> event_identity_of hyph try_parse event = FactIdentity t \<and>
    rfc3339 at = Inr tm \<and> re_envelope event = envelope_of_draft hyph (pp_draft plan) t tm position payload \<and>
    (plain (pd_data (pp_draft plan)) \<longrightarrow> payload = pd_data (pp_draft plan))"
proof -
  let ?d = "pp_draft plan"
  from seal obtain tm where tm: "rfc3339 at = Inr tm" and bytes: "to_vec (JObject (cloud_event_envelope hyph ?d t tm position)) = Inr (sl_bytes sealed)"
    by (auto simp: seal_def Let_def result_simps split: if_splits)
  have "json_depth (JObject (cloud_event_envelope hyph ?d t tm position)) < 128" using depth by (simp only: envelope_depth)
  with serde bytes obtain got where got: "members (sl_bytes sealed) = Inr got" "list_all2 member_kept (cloud_event_envelope hyph ?d t tm position) got"
    unfolding members_read_back_def by blast
  from got(2) obtain payload where payload: "got = cloud_event_envelope hyph (?d\<lparr>pd_data := payload\<rparr>) t tm position"
    "plain (pd_data ?d) \<longrightarrow> payload = pd_data ?d" by (rule envelope_got)
  note read = envelope_read [OF ext, of hyph payload t tm position, folded payload(1)]
  have pos: "subject_position_parse hyph try_parse (subject_attribute hyph position) (sequence_attribute position) = Inr position"
    using subject_position_roundtrip [OF uuid nonzero] by blast
  have count: "unat (ucast (of_nat attempts :: u32) :: u64) = attempts"
  proof -
    have "attempts < 2 ^ 32" using attempts by (simp add: MAX_ATTEMPTS_def)
    then have "unat (of_nat attempts :: u32) = attempts" by (simp add: unat_of_nat)
    then show ?thesis using \<open>attempts < 2 ^ 32\<close> by (simp add: unsigned_ucast_eq take_bit_nat_eq_self)
  qed
  from row seal_id [OF seal] have kept: "cp_envelope record = sl_bytes sealed" "cp_event_id record = hyph t" "cp_owner record = owner"
    "cp_attempts record = of_nat attempts" by (auto simp: claimed_from_row_def outbox_row_def split: if_splits)
  show ?thesis using tm payload(2) uuid
    by (simp add: from_record_def event_identity_of_def kept got(1) read envelope_of_draft_def pos count)
qed

text \<open>
  A small codec for objects whose members are strings and nulls, for the witness: names and strings end with a zero byte,
  and a tag byte tells the kinds apart.
\<close>

definition flat_char :: "nat \<Rightarrow> bool" where "flat_char c \<longleftrightarrow> 0 < c \<and> c < 256"

fun flat_member :: "str \<times> json \<Rightarrow> bool" where
  "flat_member (k, JString s) = (list_all flat_char k \<and> list_all flat_char s)"
| "flat_member (k, JNull) = list_all flat_char k"
| "flat_member _ = False"

fun flat_bytes :: "str \<times> json \<Rightarrow> byte list" where
  "flat_bytes (k, JString s) = map of_nat k @ 0 # 2 # map of_nat s @ [0]"
| "flat_bytes (k, _) = map of_nat k @ [0, 3, 0]"

fun flat_to_vec :: "json \<Rightarrow> (str, byte list) result" where
  "flat_to_vec (JObject ms) = (if list_all flat_member ms then Inr (concat (map flat_bytes ms)) else Inl (lit ''nested''))"
| "flat_to_vec _ = Inl (lit ''not an object'')"

fun until_zero :: "byte list \<Rightarrow> (byte list \<times> byte list) option" where
  "until_zero [] = None"
| "until_zero (b # bs) = (if b = 0 then Some ([], bs) else map_option (\<lambda>(xs, rest). (b # xs, rest)) (until_zero bs))"

lemma until_zero_length: "until_zero bs = Some (xs, rest) \<Longrightarrow> length rest < length bs"
  by (induction bs arbitrary: xs) (auto split: if_splits)

function flat_members :: "byte list \<Rightarrow> (str, (str \<times> json) list) result" where
  "flat_members [] = Inr []"
| "flat_members (b # bs) =
     (case until_zero (b # bs) of
        Some (k, tag # bs1) \<Rightarrow>
          (case until_zero bs1 of
             Some (v, bs2) \<Rightarrow> rbind (flat_members bs2) (\<lambda>ms. Inr ((map unat k, if tag = 3 then JNull else JString (map unat v)) # ms))
           | None \<Rightarrow> Inl (lit ''eof''))
      | _ \<Rightarrow> Inl (lit ''eof''))"
  by pat_completeness auto
termination
  by (relation "measure length") (auto dest!: until_zero_length simp del: until_zero.simps)

lemma until_zero_flat: "list_all flat_char s \<Longrightarrow> until_zero (map of_nat s @ 0 # bs) = Some (map of_nat s, bs)"
  by (induction s) (auto simp: flat_char_def word_unat_eq_iff unat_of_nat)

lemma flat_char_map: "list_all flat_char s \<Longrightarrow> map unat (map of_nat s :: byte list) = s"
  by (induction s) (auto simp: flat_char_def unat_of_nat)

lemma flat_members_step: "flat_member m \<Longrightarrow> flat_members (flat_bytes m @ bs) = rbind (flat_members bs) (\<lambda>ms. Inr (m # ms))"
proof (induction m rule: flat_member.induct)
  case (1 k s)
  obtain c cs where c: "map of_nat k @ 0 # 2 # map of_nat s @ 0 # bs = c # cs" by (cases k) auto
  have "until_zero (c # cs) = Some (map of_nat k, 2 # map of_nat s @ 0 # bs)" using 1 until_zero_flat by (simp flip: c)
  then show ?case using 1 flat_char_map [of k] flat_char_map [of s] until_zero_flat [of s bs] by (simp add: c)
next
  case (2 k)
  obtain c cs where c: "map of_nat k @ 0 # 3 # 0 # bs = c # cs" by (cases k) auto
  have "until_zero (c # cs) = Some (map of_nat k, 3 # 0 # bs)" using 2 until_zero_flat by (simp flip: c)
  then show ?case using 2 flat_char_map [of k] by (simp add: c)
qed simp_all

lemma flat_read_back: "members_read_back flat_to_vec flat_members"
proof -
  have "flat_members (concat (map flat_bytes ms)) = Inr ms" if "list_all flat_member ms" for ms
    using that by (induction ms) (simp_all add: flat_members_step)
  moreover have "list_all2 member_kept ms ms" for ms by (rule list_all2_refl) (simp add: member_kept_def)
  ultimately show ?thesis by (auto simp: members_read_back_def split: if_splits)
qed

definition flat_plan :: publication_plan where
  "flat_plan = \<lparr>pp_draft = publication_draft_new (lit ''s'') 1 (PublicationSource (lit ''urn:x'')) (OwnerId 1) None [(lit ''run'', EString (lit ''r1''))] JNull,
     pp_limits = default_publication_limits\<rparr>"

theorem captured_event_is_received_witness:
  "\<exists>sealed record event.
     seal (\<lambda>u. [unat u]) (\<lambda>_. Inr []) flat_to_vec (\<lambda>_. replicate 32 0) flat_plan 7 0 \<lparr>sp_subject = 5, sp_sequence = 7\<rparr> = Inr sealed \<and>
     claimed_from_row (\<lambda>u. [unat u]) (outbox_row 1 sealed None) 2 9 100 = Inr record \<and>
     from_record (\<lambda>u. [unat u]) (\<lambda>s. Some (of_nat (hd s))) flat_members record = Inr event \<and>
     re_position event = \<lparr>sp_subject = 5, sp_sequence = 7\<rparr> \<and> unat (re_delivered_count event) = 2 \<and>
     ce_extensions (re_envelope event) = [(lit ''run'', JString (lit ''r1''))] \<and> ce_data (re_envelope event) = JNull"
proof -
  let ?hyph = "\<lambda>u :: uuid. [unat u]" and ?parse = "\<lambda>s :: str. Some (of_nat (hd s)) :: uuid option"
    and ?pos = "\<lparr>sp_subject = 5, sp_sequence = 7\<rparr> :: subject_position"
  have u: "\<forall>u. ?parse (?hyph u) = Some u" by simp
  have ext: "extensions_ok (pd_extensions (pp_draft flat_plan))"
    by (simp add: flat_plan_def publication_draft_new_def extensions_ok_def extension_ok_def validate_extension_name_def
        MAX_PUBLICATION_EXTENSIONS_def ascii_defs str_len_def utf8_char_def MAX_EXTENSION_NAME_CHARS_def CLOUDEVENTS_CORE_ATTRIBUTES_def
        SUBSTRATE_EXTENSION_ATTRIBUTES_def strip_prefix_def PROXIIMA_EXTENSION_PREFIX_def MAX_EXTENSION_VALUE_BYTES_def is_control_def)
  have depth: "json_depth (pd_data (pp_draft flat_plan)) < 127" by (simp add: flat_plan_def publication_draft_new_def)
  let ?env = "cloud_event_envelope ?hyph (pp_draft flat_plan) 7 [] ?pos"
  note defs = flat_plan_def publication_draft_new_def data_schema_uri_def cloud_event_envelope_def subject_attribute_def
  have one: "display_nat (Suc 0) = [49]" by code_simp
  have "list_all flat_char (sequence_attribute ?pos)"
    using sequence_attribute_digits [of ?pos] by (auto simp: list_all_iff flat_char_def is_ascii_digit_def)
  then have flat: "list_all flat_member ?env" by (simp add: defs one flat_char_def)
  have "length (concat (map flat_bytes ?env)) \<le> 524288" by (simp add: defs one length_sequence_attribute)
  with flat obtain sealed where sl: "seal ?hyph (\<lambda>_. Inr []) flat_to_vec (\<lambda>_. replicate 32 0) flat_plan 7 0 ?pos = Inr sealed"
    by (simp add: seal_def default_publication_limits_def flat_plan_def Let_def)
  then have "length (sl_digest sealed) = 32" by (auto simp: seal_def Let_def result_simps split: if_splits)
  then obtain rec where row: "claimed_from_row ?hyph (outbox_row 1 sealed None) 2 9 100 = Inr rec"
    by (simp add: claimed_from_row_def outbox_row_def)
  have "\<exists>event tm payload. from_record ?hyph ?parse flat_members rec = Inr event \<and> re_position event = ?pos \<and>
    re_raw event = sl_bytes sealed \<and> re_owner event = OwnerId 1 \<and> unat (re_delivered_count event) = 2 \<and>
    re_id event = ?hyph 7 \<and> event_identity_of ?hyph ?parse event = FactIdentity 7 \<and> (\<lambda>_. Inr []) (0 :: system_time) = (Inr tm :: (str, str) result) \<and>
    re_envelope event = envelope_of_draft ?hyph (pp_draft flat_plan) 7 tm ?pos payload \<and>
    (plain (pd_data (pp_draft flat_plan)) \<longrightarrow> payload = pd_data (pp_draft flat_plan))"
    by (rule captured_event_is_received [OF u flat_read_back ext depth _ sl row]) (simp_all add: MAX_ATTEMPTS_def)
  then obtain event tm payload where event: "from_record ?hyph ?parse flat_members rec = Inr event" "re_position event = ?pos"
    "unat (re_delivered_count event) = 2" and env: "re_envelope event = envelope_of_draft ?hyph (pp_draft flat_plan) 7 tm ?pos payload"
      "plain (pd_data (pp_draft flat_plan)) \<longrightarrow> payload = pd_data (pp_draft flat_plan)" by blast
  from env have "ce_extensions (re_envelope event) = [(lit ''run'', JString (lit ''r1''))]" "ce_data (re_envelope event) = JNull"
    by (simp_all add: envelope_of_draft_def flat_plan_def publication_draft_new_def)
  with sl row event show ?thesis by blast
qed

text \<open>
  Deduplicating on the typed identity and on the id agree: two events have the same identity exactly when their ids
  are the same text, and an id is read as a Fact only when it is that Fact's own print.
\<close>

theorem identity_is_the_id:
  "(event_identity_of hyph parse_str a = event_identity_of hyph parse_str b \<longleftrightarrow> re_id a = re_id b) \<and>
   (event_identity_of hyph parse_str a = FactIdentity t \<longleftrightarrow> parse_str (re_id a) = Some t \<and> hyph t = re_id a)"
  by (auto simp: event_identity_of_def split: option.splits)

end
