(* ===== verification/Drain.thy ===== *)
theory Drain
  imports OutboxFence Intake
begin

text \<open>
  The in-process drain of the publication outbox: \<open>crates/proxiima/src/in_process_outbox.rs\<close>. A pass claims a batch,
  renews each claim, hands the record to the host's intake, and marks, releases or leaves it. The outbox is a port;
  what the drain observes between calls (a closing gate, a cancellation, the intake's answer, the clock) is a record per
  delivered record, and the calls it makes are kept in a log. Durations and clock readings are in milliseconds. The
  interface to the outbox is a locale, interpreted on the Postgres outbox shared with other processes.
\<close>

section \<open>Settings\<close>

definition DURATION_MAX :: nat where "DURATION_MAX = 18446744073709551615999"
definition MAX_BACKOFF :: nat where "MAX_BACKOFF = 30000"

record settings =
  st_publisher_id :: str
  st_batch :: nat
  st_lease :: nat
  st_poll_interval :: nat
  st_idle_poll_max :: nat
  st_accept_timeout :: nat

text \<open>\<open>None\<close> is the panic of \<open>expect\<close>. \<open>test\<close> is \<open>cfg!(test)\<close>.\<close>

definition settings_new :: "bool \<Rightarrow> u32 \<Rightarrow> settings option" where
  "settings_new test pid =
     (case publisher_id_new (lit ''proxiima:'' @ display_nat (unat pid)) of
        Inl _ \<Rightarrow> None
      | Inr publisher \<Rightarrow> Some \<lparr>st_publisher_id = publisher, st_batch = 64, st_lease = 30000,
          st_poll_interval = (if test then 50 else 500), st_idle_poll_max = MAX_BACKOFF, st_accept_timeout = 5000\<rparr>)"

definition next_backoff :: "nat \<Rightarrow> nat \<Rightarrow> nat \<Rightarrow> nat" where
  "next_backoff current floor ceiling = max (min (min (current * 2) DURATION_MAX) ceiling) floor"

section \<open>One pass\<close>

datatype failure = FStorage | FMalformed | FIntake | FTimedOut
datatype flow = FlowAccepted | FlowStale | FlowAbort | FlowHandBack
datatype intake = IntakeAccepted | IntakeRejected str

text \<open>The outcome of racing \<open>accept\<close> against its timeout and the cancellation.\<close>

datatype accept_answer = AcceptCancelled | AcceptDecided intake | AcceptFailed str | AcceptTimedOut

record accepted =
  ac_records :: "claimed_publication list"
  ac_since :: "nat option"

definition accepted_push :: "nat \<Rightarrow> claimed_publication \<Rightarrow> accepted \<Rightarrow> accepted" where
  "accepted_push now r a =
     a\<lparr>ac_since := (case ac_since a of None \<Rightarrow> Some now | Some t \<Rightarrow> Some t), ac_records := ac_records a @ [r]\<rparr>"

definition accepted_age :: "nat \<Rightarrow> accepted \<Rightarrow> nat" where
  "accepted_age now a = (case ac_since a of None \<Rightarrow> 0 | Some since \<Rightarrow> now - since)"

definition accepted_take :: "accepted \<Rightarrow> claimed_publication list \<times> accepted" where
  "accepted_take a = (ac_records a, a\<lparr>ac_since := None, ac_records := []\<rparr>)"

record 's outbox_port =
  port_claim :: "str \<Rightarrow> str \<Rightarrow> nat \<Rightarrow> nat \<Rightarrow> 's \<Rightarrow> (storage_error, claimed_publication list) result \<times> 's"
  port_mark :: "str \<Rightarrow> (uuid \<times> uuid) list \<Rightarrow> 's \<Rightarrow> (storage_error, ack_outcome list) result \<times> 's"
  port_renew :: "str \<Rightarrow> uuid \<Rightarrow> uuid \<Rightarrow> nat \<Rightarrow> 's \<Rightarrow> (storage_error, bool) result \<times> 's"
  port_release :: "str \<Rightarrow> uuid \<Rightarrow> uuid \<Rightarrow> 's \<Rightarrow> (storage_error, release_outcome) result \<times> 's"

record drain =
  dr_consumer :: str
  dr_settings :: settings
  dr_from_record :: "claimed_publication \<Rightarrow> (record_error, received_event) result"

record observed =
  sees_closing :: bool
  sees_cancelled :: bool
  sees_accept :: "received_event \<Rightarrow> accept_answer"
  sees_break :: bool
  sees_pushed_at :: nat
  sees_checked_at :: nat

datatype drain_call =
    CallRenew uuid uuid "(storage_error, bool) result"
  | CallAccept uuid accept_answer
  | CallMark "(uuid \<times> uuid) list" "(storage_error, ack_outcome list) result"
  | CallRelease uuid uuid

record pass_state =
  ps_accepted :: accepted
  ps_delivered :: nat
  ps_first_failure :: "failure option"

definition get_or_insert :: "'a \<Rightarrow> 'a option \<Rightarrow> 'a option" where
  "get_or_insert x m = (case m of None \<Rightarrow> Some x | Some y \<Rightarrow> Some y)"

definition deliver ::
  "drain \<Rightarrow> 's outbox_port \<Rightarrow> observed \<Rightarrow> claimed_publication \<Rightarrow> 's \<Rightarrow> (failure, flow) result \<times> 's \<times> drain_call list" where
  "deliver d port ob r s =
     (if sees_cancelled ob then (Inr FlowHandBack, s, [])
      else case dr_from_record d r of
        Inl _ \<Rightarrow> (Inl FMalformed, s, [])
      | Inr event \<Rightarrow>
          (let (ours, s') = port_renew port (dr_consumer d) (cp_id r) (cp_claim r) (st_lease (dr_settings d)) s;
               renewed = CallRenew (cp_id r) (cp_claim r) ours in
           case ours of
             Inl _ \<Rightarrow> (Inl FStorage, s', [renewed])
           | Inr still_ours \<Rightarrow>
               if \<not> still_ours then (Inr FlowStale, s', [renewed])
               else (let answer = sees_accept ob event in
                 (case answer of
                    AcceptCancelled \<Rightarrow> Inr FlowHandBack
                  | AcceptDecided _ \<Rightarrow> if sees_break ob then Inr FlowAbort else Inr FlowAccepted
                  | AcceptFailed _ \<Rightarrow> Inl FIntake
                  | AcceptTimedOut \<Rightarrow> Inl FTimedOut, s', [renewed, CallAccept (cp_id r) answer]))))"

definition delivered_outcome :: "ack_outcome \<Rightarrow> bool" where
  "delivered_outcome a \<longleftrightarrow> a = AckPublished \<or> a = AckAlreadyPublished"

definition claim_of :: "claimed_publication \<Rightarrow> uuid \<times> uuid" where
  "claim_of r = (cp_id r, cp_claim r)"

definition mark :: "drain \<Rightarrow> 's outbox_port \<Rightarrow> pass_state \<Rightarrow> 's \<Rightarrow> pass_state \<times> 's \<times> drain_call list" where
  "mark d port ps s =
     (let (records, empty) = accepted_take (ps_accepted ps) in
      if records = [] then (ps\<lparr>ps_accepted := empty\<rparr>, s, [])
      else let claims = map claim_of records; (answer, s') = port_mark port (dr_consumer d) claims s in
        (case answer of
           Inr outcomes \<Rightarrow> ps\<lparr>ps_accepted := empty,
             ps_delivered := ps_delivered ps + length (filter (\<lambda>(_, a). delivered_outcome a) (zip records outcomes))\<rparr>
         | Inl _ \<Rightarrow> ps\<lparr>ps_accepted := empty, ps_first_failure := get_or_insert FStorage (ps_first_failure ps)\<rparr>,
         s', [CallMark claims answer]))"

definition release :: "drain \<Rightarrow> 's outbox_port \<Rightarrow> claimed_publication \<Rightarrow> 's \<Rightarrow> 's \<times> drain_call list" where
  "release d port r s = (snd (port_release port (dr_consumer d) (cp_id r) (cp_claim r) s), [CallRelease (cp_id r) (cp_claim r)])"

fun release_all :: "drain \<Rightarrow> 's outbox_port \<Rightarrow> claimed_publication list \<Rightarrow> 's \<Rightarrow> 's \<times> drain_call list" where
  "release_all d port [] s = (s, [])"
| "release_all d port (r # rs) s =
     (let (s', log) = release d port r s; (s'', log') = release_all d port rs s' in (s'', log @ log'))"

definition start_flow ::
  "drain \<Rightarrow> 's outbox_port \<Rightarrow> observed \<Rightarrow> claimed_publication \<Rightarrow> 's \<Rightarrow> (failure, flow) result \<times> 's \<times> drain_call list" where
  "start_flow d port ob r s = (if sees_closing ob then (Inr FlowHandBack, s, []) else deliver d port ob r s)"

fun pass_loop ::
  "drain \<Rightarrow> 's outbox_port \<Rightarrow> (claimed_publication \<Rightarrow> observed) \<Rightarrow> nat \<Rightarrow> claimed_publication list \<Rightarrow> pass_state \<Rightarrow> 's \<Rightarrow>
   (failure, nat) result \<times> 's \<times> drain_call list" where
  "pass_loop d port sees cnt [] ps s =
     (let (ps', s', log) = mark d port ps s in
      (case ps_first_failure ps' of Some f \<Rightarrow> if ps_delivered ps' = 0 then Inl f else Inr cnt | None \<Rightarrow> Inr cnt, s', log))"
| "pass_loop d port sees cnt (r # rest) ps s =
     (let (flow, s1, log1) = start_flow d port (sees r) r s in
      case flow of
        Inr FlowAccepted \<Rightarrow>
          (let ps1 = ps\<lparr>ps_accepted := accepted_push (sees_pushed_at (sees r)) r (ps_accepted ps)\<rparr>;
               (ps2, s2, log2) = (if accepted_age (sees_checked_at (sees r)) (ps_accepted ps1) \<ge> st_lease (dr_settings d) div 2
                 then mark d port ps1 s1 else (ps1, s1, []));
               (res, s3, log3) = pass_loop d port sees cnt rest ps2 s2 in (res, s3, log1 @ log2 @ log3))
      | Inr FlowStale \<Rightarrow> (let (res, s3, log3) = pass_loop d port sees cnt rest ps s1 in (res, s3, log1 @ log3))
      | Inr FlowAbort \<Rightarrow> (Inr cnt, s1, log1)
      | Inr FlowHandBack \<Rightarrow>
          (let (ps2, s2, log2) = mark d port ps s1; (s3, log3) = release_all d port (r # rest) s2 in
           (Inr cnt, s3, log1 @ log2 @ log3))
      | Inl f \<Rightarrow>
          (let (s2, log2) = release d port r s1;
               (res, s3, log3) = pass_loop d port sees cnt rest (ps\<lparr>ps_first_failure := get_or_insert f (ps_first_failure ps)\<rparr>) s2 in
           (res, s3, log1 @ log2 @ log3)))"

definition pass_start :: pass_state where
  "pass_start = \<lparr>ps_accepted = \<lparr>ac_records = [], ac_since = None\<rparr>, ps_delivered = 0, ps_first_failure = None\<rparr>"

definition pass_once ::
  "drain \<Rightarrow> 's outbox_port \<Rightarrow> (claimed_publication \<Rightarrow> observed) \<Rightarrow> 's \<Rightarrow> (failure, nat) result \<times> 's \<times> drain_call list" where
  "pass_once d port sees s =
     (let st = dr_settings d in
      case port_claim port (dr_consumer d) (st_publisher_id st) (st_batch st) (st_lease st) s of
        (Inl _, s') \<Rightarrow> (Inl FStorage, s', [])
      | (Inr claimed, s') \<Rightarrow> pass_loop d port sees (length claimed) claimed pass_start s')"

section \<open>The loop\<close>

text \<open>Which branch of the \<open>select!\<close> ended a wait. A wait after a failed pass does not listen for writes.\<close>

datatype wake = WokeCancelled | WokeGate | WokeWrite | WokeSlept

record waits =
  w_idle :: nat
  w_failure :: nat

definition run_turn :: "settings \<Rightarrow> waits \<Rightarrow> (failure, nat) result \<Rightarrow> wake \<Rightarrow> waits \<times> nat option \<times> bool" where
  "run_turn st w outcome wk =
     (let floor = st_poll_interval st in
      case outcome of
        Inr claimed \<Rightarrow>
          if claimed > 0 then (\<lparr>w_idle = floor, w_failure = floor\<rparr>, None, False)
          else (let idle = next_backoff (w_idle w) floor (st_idle_poll_max st) in
            (\<lparr>w_idle = (if wk = WokeWrite then floor else idle), w_failure = floor\<rparr>, Some (w_idle w), wk = WokeCancelled))
      | Inl _ \<Rightarrow>
          (let failure = next_backoff (w_failure w) floor MAX_BACKOFF in
            (\<lparr>w_idle = floor, w_failure = failure\<rparr>, Some failure, wk = WokeCancelled)))"

text \<open>
  The sleeps of a run, one input per turn: whether the checkpoint came back cancelled, the outcome of the pass and what
  ended the wait. The loop returns at a cancellation.
\<close>

fun run_loop :: "settings \<Rightarrow> waits \<Rightarrow> (bool \<times> (failure, nat) result \<times> wake) list \<Rightarrow> nat option list" where
  "run_loop st w [] = []"
| "run_loop st w ((cancelled, outcome, wk) # turns) =
     (if cancelled then []
      else case run_turn st w outcome wk of (w', slept, stop) \<Rightarrow> slept # (if stop then [] else run_loop st w' turns))"

definition run_start :: "settings \<Rightarrow> waits" where
  "run_start st = \<lparr>w_idle = st_poll_interval st, w_failure = st_poll_interval st\<rparr>"

section \<open>Reading the log\<close>

fun marked_claims :: "drain_call list \<Rightarrow> (uuid \<times> uuid) list" where
  "marked_claims [] = []"
| "marked_claims (CallMark cs _ # log) = cs @ marked_claims log"
| "marked_claims (_ # log) = marked_claims log"

fun released_claims :: "drain_call list \<Rightarrow> (uuid \<times> uuid) list" where
  "released_claims [] = []"
| "released_claims (CallRelease i k # log) = (i, k) # released_claims log"
| "released_claims (_ # log) = released_claims log"

fun stale_claims :: "drain_call list \<Rightarrow> (uuid \<times> uuid) list" where
  "stale_claims [] = []"
| "stale_claims (CallRenew i k a # log) = (if a = Inr False then [(i, k)] else []) @ stale_claims log"
| "stale_claims (_ # log) = stale_claims log"

text \<open>Every mark names only claims the intake durably decided before, after a renewal that still held.\<close>

definition handed_over :: "drain_call list \<Rightarrow> uuid \<times> uuid \<Rightarrow> bool" where
  "handed_over log ik \<longleftrightarrow> CallRenew (fst ik) (snd ik) (Inr True) \<in> set log \<and> (\<exists>x. CallAccept (fst ik) (AcceptDecided x) \<in> set log)"

fun marks_justified :: "drain_call list \<Rightarrow> drain_call list \<Rightarrow> bool" where
  "marks_justified before [] = True"
| "marks_justified before (CallMark cs a # log) = (list_all (handed_over before) cs \<and> marks_justified (before @ [CallMark cs a]) log)"
| "marks_justified before (c # log) = marks_justified (before @ [c]) log"

lemma log_append [simp]:
  "marked_claims (xs @ ys) = marked_claims xs @ marked_claims ys"
  "released_claims (xs @ ys) = released_claims xs @ released_claims ys"
  "stale_claims (xs @ ys) = stale_claims xs @ stale_claims ys"
  by (induction xs rule: marked_claims.induct) simp_all

lemma marks_justified_append [simp]:
  "marks_justified before (xs @ ys) = (marks_justified before xs \<and> marks_justified (before @ xs) ys)"
  by (induction before xs rule: marks_justified.induct) simp_all

lemma handed_over_mono: "handed_over log ik \<Longrightarrow> handed_over (log @ log') ik"
  by (auto simp: handed_over_def)

section \<open>What each step contributes\<close>

lemma deliver_log:
  assumes "start_flow d port ob r s = (flow, s', log)"
  shows "marked_claims log = []" "released_claims log = []"
    "stale_claims log = (if flow = Inr FlowStale then [claim_of r] else [])" "marks_justified before log"
    "flow = Inr FlowAccepted \<Longrightarrow> handed_over log (claim_of r)" "\<not> sees_break ob \<Longrightarrow> flow \<noteq> Inr FlowAbort"
  using assms
  by (auto simp: start_flow_def deliver_def claim_of_def handed_over_def Let_def
      split: if_splits sum.splits prod.splits accept_answer.splits bool.splits)

lemma mark_log:
  assumes "mark d port ps s = (ps', s', log)"
  shows "marked_claims log = map claim_of (ac_records (ps_accepted ps))" "released_claims log = []" "stale_claims log = []"
    "ac_records (ps_accepted ps') = []"
    "list_all (\<lambda>r. handed_over before (claim_of r)) (ac_records (ps_accepted ps)) \<Longrightarrow> marks_justified before log"
  using assms by (auto simp: mark_def accepted_take_def Let_def list_all_iff split: if_splits sum.splits prod.splits)

lemma release_all_log:
  assumes "release_all d port rs s = (s', log)"
  shows "marked_claims log = [] \<and> released_claims log = map claim_of rs \<and> stale_claims log = [] \<and> marks_justified before log"
  using assms
proof (induction rs arbitrary: s s' log before)
  case (Cons r rs)
  from Cons.prems obtain s1 log1 where rest: "release_all d port rs s1 = (s', log1)" and log: "log = CallRelease (cp_id r) (cp_claim r) # log1"
    by (auto simp: release_def split: prod.splits)
  from Cons.IH [OF rest] log show ?case by (simp add: claim_of_def)
qed simp

text \<open>The five ways a turn of the loop ends.\<close>

lemma pass_loop_Cons:
  assumes "pass_loop d port sees cnt (r # rest) ps s = (res, s', log)"
  obtains (accepted) s1 log1 ps2 s2 log2 log3 where "start_flow d port (sees r) r s = (Inr FlowAccepted, s1, log1)"
      "(ps2, s2, log2) = mark d port (ps\<lparr>ps_accepted := accepted_push (sees_pushed_at (sees r)) r (ps_accepted ps)\<rparr>) s1 \<or>
        (ps2, s2, log2) = (ps\<lparr>ps_accepted := accepted_push (sees_pushed_at (sees r)) r (ps_accepted ps)\<rparr>, s1, [])"
      "pass_loop d port sees cnt rest ps2 s2 = (res, s', log3)" "log = log1 @ log2 @ log3"
  | (stale) s1 log1 log3 where "start_flow d port (sees r) r s = (Inr FlowStale, s1, log1)"
      "pass_loop d port sees cnt rest ps s1 = (res, s', log3)" "log = log1 @ log3"
  | (abort) "start_flow d port (sees r) r s = (Inr FlowAbort, s', log)" "res = Inr cnt"
  | (hand_back) s1 log1 ps2 s2 log2 log3 where "start_flow d port (sees r) r s = (Inr FlowHandBack, s1, log1)"
      "mark d port ps s1 = (ps2, s2, log2)" "release_all d port (r # rest) s2 = (s', log3)" "log = log1 @ log2 @ log3" "res = Inr cnt"
  | (failed) f s1 log1 s2 log3 where "start_flow d port (sees r) r s = (Inl f, s1, log1)"
      "s2 = snd (port_release port (dr_consumer d) (cp_id r) (cp_claim r) s1)"
      "pass_loop d port sees cnt rest (ps\<lparr>ps_first_failure := get_or_insert f (ps_first_failure ps)\<rparr>) s2 = (res, s', log3)"
      "log = log1 @ [CallRelease (cp_id r) (cp_claim r)] @ log3"
proof -
  obtain flow s1 log1 where st: "start_flow d port (sees r) r s = (flow, s1, log1)" by (cases "start_flow d port (sees r) r s") auto
  show thesis
  proof (cases flow)
    case (Inl f)
    then show thesis using assms st failed [of f s1 log1] by (auto simp: release_def split: prod.splits)
  next
    case (Inr fl)
    show thesis
    proof (cases fl)
      case FlowAccepted
      then show thesis using assms st Inr accepted [of s1 log1] by (auto simp: Let_def split: prod.splits if_splits)
    next
      case FlowStale
      then show thesis using assms st Inr stale [of s1 log1] by (auto split: prod.splits)
    next
      case FlowAbort
      then show thesis using assms st Inr by (intro abort) auto
    next
      case FlowHandBack
      then show thesis using assms st Inr hand_back [of s1 log1] by (auto split: prod.splits)
    qed
  qed
qed

lemma accepted_push_records [simp]: "ac_records (accepted_push now r a) = ac_records a @ [r]"
  by (simp add: accepted_push_def)

lemma pass_loop_accounts:
  assumes "pass_loop d port sees cnt rs ps s = (res, s', log)" "list_all (\<lambda>r. \<not> sees_break (sees r)) rs"
  shows "mset (marked_claims log) + mset (released_claims log) + mset (stale_claims log) =
    mset (map claim_of (ac_records (ps_accepted ps))) + mset (map claim_of rs)"
  using assms
proof (induction rs arbitrary: ps s res log)
  case Nil
  obtain ps1 s1 log1 where m: "mark d port ps s = (ps1, s1, log1)" by (cases "mark d port ps s") auto
  with Nil have "log = log1" by (simp add: Let_def)
  with mark_log(1-3) [OF m] show ?case by simp
next
  case (Cons r rest)
  from Cons.prems(1) show ?case
  proof (cases rule: pass_loop_Cons)
    case (accepted s1 log1 ps2 s2 log2 log3)
    let ?ps = "ps\<lparr>ps_accepted := accepted_push (sees_pushed_at (sees r)) r (ps_accepted ps)\<rparr>"
    from accepted(2) have "mset (marked_claims log2) + mset (map claim_of (ac_records (ps_accepted ps2))) = mset (map claim_of (ac_records (ps_accepted ps) @ [r]))
        \<and> released_claims log2 = [] \<and> stale_claims log2 = []"
      using mark_log(1-4) [of d port ?ps s1 ps2 s2 log2] by auto
    with Cons.IH [OF accepted(3)] Cons.prems(2) deliver_log(1-3) [OF accepted(1)] accepted(4) show ?thesis
      by (simp add: add_ac)
  next
    case (stale s1 log1 log3)
    with Cons.IH [OF stale(2)] Cons.prems(2) deliver_log(1-3) [OF stale(1)] show ?thesis by simp
  next
    case abort
    with deliver_log(6) [OF abort(1)] Cons.prems(2) show ?thesis by simp
  next
    case (hand_back s1 log1 ps2 s2 log2 log3)
    with deliver_log(1-3) [OF hand_back(1)] mark_log(1-3) [OF hand_back(2)] release_all_log [OF hand_back(3)] show ?thesis by simp
  next
    case (failed f s1 log1 s2 log3)
    with Cons.IH [OF failed(3)] Cons.prems(2) deliver_log(1-3) [OF failed(1)] show ?thesis by (simp add: claim_of_def)
  qed
qed

lemma pass_loop_justified:
  assumes "pass_loop d port sees cnt rs ps s = (res, s', log)"
    "list_all (\<lambda>r. handed_over before (claim_of r)) (ac_records (ps_accepted ps))"
  shows "marks_justified before log"
  using assms
proof (induction rs arbitrary: ps s res log before)
  case Nil
  obtain ps1 s1 log1 where m: "mark d port ps s = (ps1, s1, log1)" by (cases "mark d port ps s") auto
  with Nil have "log = log1" by (simp add: Let_def)
  with mark_log(5) [OF m Nil.prems(2)] show ?case by simp
next
  case (Cons r rest)
  have later: "list_all (\<lambda>r. handed_over (before @ x) (claim_of r)) (ac_records (ps_accepted ps))" for x
    using Cons.prems(2) handed_over_mono by (auto simp: list_all_iff)
  from Cons.prems(1) show ?case
  proof (cases rule: pass_loop_Cons)
    case (accepted s1 log1 ps2 s2 log2 log3)
    let ?ps = "ps\<lparr>ps_accepted := accepted_push (sees_pushed_at (sees r)) r (ps_accepted ps)\<rparr>"
    have "handed_over (before @ log1) (claim_of r)" using deliver_log(5) [OF accepted(1)] by (auto simp: handed_over_def)
    with later [of log1] have all: "list_all (\<lambda>r. handed_over (before @ log1) (claim_of r)) (ac_records (ps_accepted ?ps))" by simp
    from accepted(2) have 2: "marks_justified (before @ log1) log2 \<and> list_all (\<lambda>r. handed_over (before @ log1 @ log2) (claim_of r)) (ac_records (ps_accepted ps2))"
    proof
      assume m: "(ps2, s2, log2) = mark d port ?ps s1"
      show ?thesis using mark_log(4,5) [OF m [symmetric]] all by simp
    next
      assume "(ps2, s2, log2) = (?ps, s1, [])"
      with all show ?thesis by simp
    qed
    from Cons.IH [OF accepted(3)] 2 deliver_log(4) [OF accepted(1)] accepted(4) show ?thesis by simp
  next
    case (stale s1 log1 log3)
    with Cons.IH [OF stale(2) later [of log1]] deliver_log(4) [OF stale(1)] show ?thesis by simp
  next
    case abort
    with deliver_log(4) [OF abort(1)] show ?thesis by simp
  next
    case (hand_back s1 log1 ps2 s2 log2 log3)
    with deliver_log(4) [OF hand_back(1)] mark_log(5) [OF hand_back(2) later [of log1]] release_all_log [OF hand_back(3)] show ?thesis by simp
  next
    case (failed f s1 log1 s2 log3)
    have "marks_justified (before @ log1 @ [CallRelease (cp_id r) (cp_claim r)]) log3"
      by (rule Cons.IH [OF failed(3)]) (use later [of "log1 @ [CallRelease (cp_id r) (cp_claim r)]"] in simp)
    with failed(4) deliver_log(4) [OF failed(1)] show ?thesis by simp
  qed
qed

section \<open>The outbox as an interface\<close>

text \<open>What the drain relies on: every call keeps the store's invariant, and a batch of marks gives one answer per claim.\<close>

locale drain_port =
  fixes port :: "'s outbox_port" and inv :: "'s \<Rightarrow> bool"
  assumes claim_inv: "inv s \<Longrightarrow> inv (snd (port_claim port c p n l s))"
    and mark_inv: "inv s \<Longrightarrow> inv (snd (port_mark port c claims s))"
    and renew_inv: "inv s \<Longrightarrow> inv (snd (port_renew port c i k l s))"
    and release_inv: "inv s \<Longrightarrow> inv (snd (port_release port c i k s))"
    and mark_answers: "fst (port_mark port c claims s) = Inr outs \<Longrightarrow> length outs = length claims"
begin

lemma start_flow_inv: "start_flow d port ob r s = (flow, s', log) \<Longrightarrow> inv s \<Longrightarrow> inv s'"
  using renew_inv [of s "dr_consumer d" "cp_id r" "cp_claim r" "st_lease (dr_settings d)"]
  by (auto simp: start_flow_def deliver_def Let_def split: if_splits sum.splits prod.splits)

lemma drain_mark_inv: "mark d port ps s = (ps', s', log) \<Longrightarrow> inv s \<Longrightarrow> inv s'"
  using mark_inv [of s "dr_consumer d" "map claim_of (ac_records (ps_accepted ps))"]
  by (auto simp: mark_def accepted_take_def Let_def split: if_splits sum.splits prod.splits)

lemma release_all_inv: "release_all d port rs s = (s', log) \<Longrightarrow> inv s \<Longrightarrow> inv s'"
proof (induction rs arbitrary: s log)
  case (Cons r rs)
  from Cons.prems(1) obtain log1 where "release_all d port rs (snd (port_release port (dr_consumer d) (cp_id r) (cp_claim r) s)) = (s', log1)"
    by (auto simp: release_def split: prod.splits)
  from Cons.IH [OF this] release_inv Cons.prems(2) show ?case by blast
qed simp

lemma pass_loop_inv: "pass_loop d port sees cnt rs ps s = (res, s', log) \<Longrightarrow> inv s \<Longrightarrow> inv s'"
proof (induction rs arbitrary: ps s res log)
  case Nil
  then show ?case using drain_mark_inv [of d ps s] by (auto simp: Let_def split: prod.splits)
next
  case (Cons r rest)
  from Cons.prems(1) show ?case
  proof (cases rule: pass_loop_Cons)
    case (accepted s1 log1 ps2 s2 log2 log3)
    then show ?thesis using Cons.IH [OF accepted(3)] start_flow_inv [OF accepted(1) Cons.prems(2)] by (metis drain_mark_inv Pair_inject)
  next
    case (stale s1 log1 log3)
    then show ?thesis using Cons.IH [OF stale(2)] start_flow_inv [OF stale(1) Cons.prems(2)] by blast
  next
    case abort
    then show ?thesis using start_flow_inv Cons.prems(2) by blast
  next
    case (hand_back s1 log1 ps2 s2 log2 log3)
    then show ?thesis using start_flow_inv [OF hand_back(1) Cons.prems(2)] drain_mark_inv [OF hand_back(2)] release_all_inv by blast
  next
    case (failed f s1 log1 s2 log3)
    then show ?thesis using Cons.IH [OF failed(3)] start_flow_inv [OF failed(1) Cons.prems(2)] release_inv by blast
  qed
qed

lemma pass_inv: "pass_once d port sees s = (res, s', log) \<Longrightarrow> inv s \<Longrightarrow> inv s'"
  using claim_inv [of s "dr_consumer d" "st_publisher_id (dr_settings d)" "st_batch (dr_settings d)" "st_lease (dr_settings d)"]
  by (auto simp: pass_once_def Let_def split: prod.splits sum.splits dest: pass_loop_inv)

lemma zip_none_delivered:
  "length outs = length rs \<Longrightarrow> filter (\<lambda>(_, a). delivered_outcome a) (zip rs outs) = [] \<Longrightarrow> \<not> list_ex delivered_outcome outs"
  by (induction rs outs rule: list_induct2') (auto split: if_splits)

lemma mark_counts:
  assumes "mark d port ps s = (ps', s', log)" "ps_delivered ps' = 0"
  shows "ps_delivered ps = 0 \<and> (CallMark cs (Inr outs) \<in> set log \<longrightarrow> \<not> list_ex delivered_outcome outs)"
  using assms zip_none_delivered [of outs "ac_records (ps_accepted ps)"] mark_answers [of "dr_consumer d" "map claim_of (ac_records (ps_accepted ps))" s outs]
  by (auto simp: mark_def accepted_take_def Let_def split: if_splits sum.splits prod.splits)

lemma start_flow_no_mark: "start_flow d port ob r s = (flow, s', log) \<Longrightarrow> CallMark cs a \<notin> set log"
  by (auto simp: start_flow_def deliver_def Let_def split: if_splits sum.splits prod.splits)

lemma pass_loop_error:
  assumes "pass_loop d port sees cnt rs ps s = (Inl f, s', log)"
  shows "ps_delivered ps = 0 \<and> (CallMark cs (Inr outs) \<in> set log \<longrightarrow> \<not> list_ex delivered_outcome outs)"
  using assms
proof (induction rs arbitrary: ps s log)
  case Nil
  obtain ps1 s1 log1 where m: "mark d port ps s = (ps1, s1, log1)" by (cases "mark d port ps s") auto
  with Nil have "log = log1" "ps_delivered ps1 = 0" by (auto simp: Let_def split: option.splits if_splits)
  with mark_counts [OF m, of cs outs] show ?case by simp
next
  case (Cons r rest)
  from Cons.prems show ?case
  proof (cases rule: pass_loop_Cons)
    case (accepted s1 log1 ps2 s2 log2 log3)
    let ?ps = "ps\<lparr>ps_accepted := accepted_push (sees_pushed_at (sees r)) r (ps_accepted ps)\<rparr>"
    note ih = Cons.IH [OF accepted(3)]
    have "ps_delivered ?ps = 0 \<and> (CallMark cs (Inr outs) \<in> set log2 \<longrightarrow> \<not> list_ex delivered_outcome outs)"
      using accepted(2) ih mark_counts [of d ?ps s1 ps2 s2 log2 cs outs] by auto
    with ih accepted(4) start_flow_no_mark [OF accepted(1)] show ?thesis by auto
  next
    case (stale s1 log1 log3)
    with Cons.IH [OF stale(2)] start_flow_no_mark [OF stale(1)] show ?thesis by auto
  next
    case (failed f' s1 log1 s2 log3)
    with Cons.IH [OF failed(3)] start_flow_no_mark [OF failed(1)] show ?thesis by auto
  qed simp_all
qed

end

section \<open>The Postgres outbox behind the port\<close>

text \<open>
  Before each call of the drain, other processes may have run any operations; the database clock, the tokens it mints and the
  rows other transactions hold locked come with the turn. A fault rolls the transaction back.
\<close>

record pg_turn =
  pt_others :: "outbox_op list"
  pt_now :: system_time
  pt_fault :: "storage_error option"
  pt_tok :: "uuid \<Rightarrow> uuid"
  pt_locked :: "uuid \<Rightarrow> bool"

record pg_world =
  pw_db :: outbox
  pw_turn :: nat

definition pg_call ::
  "outbox_env \<Rightarrow> (nat \<Rightarrow> pg_turn) \<Rightarrow> (pg_turn \<Rightarrow> outbox \<Rightarrow> (storage_error, 'a) result \<times> outbox) \<Rightarrow> pg_world \<Rightarrow>
   (storage_error, 'a) result \<times> pg_world" where
  "pg_call e turns call w =
     (let tn = turns (pw_turn w); db = run_ops e (pw_db w) (pt_others tn);
          (answer, db') = (case pt_fault tn of Some err \<Rightarrow> (Inl err, db) | None \<Rightarrow> call tn db) in
      (answer, \<lparr>pw_db = db', pw_turn = Suc (pw_turn w)\<rparr>))"

definition pg_port :: "outbox_env \<Rightarrow> (nat \<Rightarrow> pg_turn) \<Rightarrow> pg_world outbox_port" where
  "pg_port e turns =
     \<lparr>port_claim = (\<lambda>c p limit lease. pg_call e turns (\<lambda>tn db.
        claim_publications (oe_hyph e) (pt_tok tn) (pt_locked tn) db c p limit lease (pt_now tn))),
      port_mark = (\<lambda>c claims. pg_call e turns (\<lambda>tn db. case mark_published_batch db c claims (pt_now tn) of (outs, db') \<Rightarrow> (Inr outs, db'))),
      port_renew = (\<lambda>c t token lease. pg_call e turns (\<lambda>tn db. renew_claim db c t token lease (pt_now tn))),
      port_release = (\<lambda>c t token. pg_call e turns (\<lambda>tn db. case release_claim db c t token of (out, db') \<Rightarrow> (Inr out, db')))\<rparr>"

lemma pg_call_inv:
  assumes "outbox_ok (pw_db w)" "\<And>tn db. outbox_ok db \<Longrightarrow> outbox_ok (snd (call tn db))"
  shows "outbox_ok (pw_db (snd (pg_call e turns call w)))"
  using run_ops_ok [OF assms(1), of e "pt_others (turns (pw_turn w))"]
    assms(2) [of "run_ops e (pw_db w) (pt_others (turns (pw_turn w)))" "turns (pw_turn w)"]
  by (simp add: pg_call_def Let_def split: prod.split option.split) (metis snd_conv)

interpretation pg: drain_port "pg_port e turns" "\<lambda>w. outbox_ok (pw_db w)" for e turns
proof
  fix w :: pg_world and c p n l
  assume "outbox_ok (pw_db w)"
  then show "outbox_ok (pw_db (snd (port_claim (pg_port e turns) c p n l w)))" unfolding pg_port_def
    by (simp add: pg_call_inv claim_ok)
next
  fix w :: pg_world and c claims
  assume "outbox_ok (pw_db w)"
  then show "outbox_ok (pw_db (snd (port_mark (pg_port e turns) c claims w)))" unfolding pg_port_def
    by (simp add: pg_call_inv mark_ok split_beta)
next
  fix w :: pg_world and c i k l
  assume "outbox_ok (pw_db w)"
  then show "outbox_ok (pw_db (snd (port_renew (pg_port e turns) c i k l w)))" unfolding pg_port_def
    by (simp add: pg_call_inv renew_ok)
next
  fix w :: pg_world and c i k
  assume "outbox_ok (pw_db w)"
  then show "outbox_ok (pw_db (snd (port_release (pg_port e turns) c i k w)))" unfolding pg_port_def
    by (simp add: pg_call_inv release_ok split_beta)
next
  fix w :: pg_world and c claims outs
  assume "fst (port_mark (pg_port e turns) c claims w) = Inr outs"
  then show "length outs = length claims"
    by (auto simp: pg_port_def pg_call_def Let_def split_beta mark_fst_map split: option.splits)
qed

section \<open>The shipped settings\<close>

text \<open>\<open>Settings::new\<close> never panics, for any process id, and its lease is one the storage port accepts.\<close>

lemma publisher_label_ok: "publisher_id_new (lit ''proxiima:'' @ display_nat (unat (pid :: u32))) = Inr (lit ''proxiima:'' @ display_nat (unat pid))"
proof -
  let ?s = "lit ''proxiima:'' @ display_nat (unat pid)"
  have "c < 128 \<and> \<not> is_control c \<and> \<not> is_whitespace c" if "c \<in> set (display_nat (unat pid))" for c
    using display_nat_digits [OF that] by (auto simp: is_ascii_digit_def is_control_def is_whitespace_def)
  moreover have "\<forall>c \<in> set (lit ''proxiima:''). c < 128 \<and> \<not> is_control c \<and> \<not> is_whitespace c"
    by (simp add: is_control_def is_whitespace_def)
  ultimately have "\<forall>c \<in> set ?s. c < 128 \<and> \<not> is_control c \<and> \<not> is_whitespace c" unfolding set_append by blast
  then have ch: "\<forall>c \<in> set ?s. c < 128" "\<not> list_ex is_control ?s" "\<forall>c \<in> set ?s. \<not> is_whitespace c" by (auto simp: list_ex_iff)
  have "unat pid < 10 ^ Suc 9" using unsigned_less [of pid, where ?'a = nat] by simp
  from length_display_nat [OF this] have "str_len ?s \<le> 128" using str_len_ascii [OF ch(1)] by simp
  moreover have "trim ?s \<noteq> []" using ch(3) by (simp add: trim_def)
  ultimately show ?thesis using ch(2) unfolding publisher_id_new_def by simp
qed

lemma settings_new_total:
  obtains st where "settings_new test pid = Some st" "MIN_CLAIM_LEASE \<le> st_lease st" "0 < st_batch st"
    "st_poll_interval st \<le> DURATION_MAX" "st_idle_poll_max st \<le> DURATION_MAX"
proof
  show "settings_new test pid = Some \<lparr>st_publisher_id = lit ''proxiima:'' @ display_nat (unat pid), st_batch = 64, st_lease = 30000,
      st_poll_interval = (if test then 50 else 500), st_idle_poll_max = MAX_BACKOFF, st_accept_timeout = 5000\<rparr>"
    unfolding settings_new_def publisher_label_ok by (rule sum.case)
qed (simp_all add: MIN_CLAIM_LEASE_def DURATION_MAX_def MAX_BACKOFF_def)

section \<open>Waits\<close>

lemma backoff_step:
  "lo \<le> x \<Longrightarrow> lo \<le> DURATION_MAX \<Longrightarrow> hi \<le> DURATION_MAX \<Longrightarrow> next_backoff (max lo (min hi x)) lo hi = max lo (min hi (2 * x))"
  by (auto simp: next_backoff_def max_def min_def)

lemma backoff_iterate:
  assumes "lo \<le> DURATION_MAX" "hi \<le> DURATION_MAX"
  shows "((\<lambda>w. next_backoff w lo hi) ^^ k) lo = max lo (min hi (2 ^ k * lo))"
proof (induction k)
  case (Suc k)
  have "lo \<le> 2 ^ k * lo" by simp
  from backoff_step [OF this assms] show ?case by (simp add: Suc.IH)
qed simp

lemma next_backoff_bounds: "lo \<le> next_backoff w lo hi" "next_backoff w lo hi \<le> max lo hi"
  by (simp_all add: next_backoff_def)

definition waits_ok :: "settings \<Rightarrow> waits \<Rightarrow> bool" where
  "waits_ok st w \<longleftrightarrow> st_poll_interval st \<le> w_idle w \<and> w_idle w \<le> max (st_poll_interval st) (st_idle_poll_max st) \<and>
     st_poll_interval st \<le> w_failure w \<and> w_failure w \<le> max (st_poll_interval st) MAX_BACKOFF"

lemma run_turn_ok:
  assumes "waits_ok st w" "run_turn st w outcome wk = (w', slept, stop)"
  shows "waits_ok st w'" "slept = Some t \<Longrightarrow> st_poll_interval st \<le> t \<and> t \<le> max (st_poll_interval st) (max (st_idle_poll_max st) MAX_BACKOFF)"
proof -
  let ?lo = "st_poll_interval st" and ?hi = "max (st_poll_interval st) (max (st_idle_poll_max st) MAX_BACKOFF)"
  note idle = next_backoff_bounds [where lo = ?lo and w = "w_idle w" and hi = "st_idle_poll_max st"]
  note fail = next_backoff_bounds [where lo = ?lo and w = "w_failure w" and hi = MAX_BACKOFF]
  have hi: "max ?lo (st_idle_poll_max st) \<le> ?hi" "max ?lo MAX_BACKOFF \<le> ?hi" by simp_all
  have "waits_ok st w' \<and> (slept = Some t \<longrightarrow> ?lo \<le> t \<and> t \<le> ?hi)"
  proof (cases outcome)
    case (Inl f)
    with assms(2) have "w' = \<lparr>w_idle = ?lo, w_failure = next_backoff (w_failure w) ?lo MAX_BACKOFF\<rparr>"
      "slept = Some (next_backoff (w_failure w) ?lo MAX_BACKOFF)" by (simp_all add: run_turn_def Let_def)
    with fail order_trans [OF fail(2) hi(2)] show ?thesis by (simp add: waits_ok_def)
  next
    case (Inr n)
    show ?thesis
    proof (cases "n = 0")
      case True
      with Inr assms(2) have w: "w' = \<lparr>w_idle = (if wk = WokeWrite then ?lo else next_backoff (w_idle w) ?lo (st_idle_poll_max st)), w_failure = ?lo\<rparr>"
        "slept = Some (w_idle w)" by (simp_all add: run_turn_def Let_def)
      have "?lo \<le> w_idle w" "w_idle w \<le> max ?lo (st_idle_poll_max st)" using assms(1) by (simp_all add: waits_ok_def)
      with w idle order_trans [OF this(2) hi(1)] show ?thesis by (simp add: waits_ok_def)
    next
      case False
      with Inr assms(2) show ?thesis by (auto simp: run_turn_def waits_ok_def Let_def)
    qed
  qed
  then show "waits_ok st w'" "slept = Some t \<Longrightarrow> ?lo \<le> t \<and> t \<le> ?hi" by blast+
qed

lemma run_loop_ok:
  assumes "waits_ok st w" "Some t \<in> set (run_loop st w turns)"
  shows "st_poll_interval st \<le> t \<and> t \<le> max (st_poll_interval st) (max (st_idle_poll_max st) MAX_BACKOFF)"
  using assms
proof (induction st w turns rule: run_loop.induct)
  case (2 st w cancelled outcome wk turns)
  obtain w' slept stop where turn: "run_turn st w outcome wk = (w', slept, stop)" by (cases "run_turn st w outcome wk") auto
  show ?case using 2 run_turn_ok [OF 2(2) turn] turn by (auto split: if_splits)
qed simp

lemma failures_iterate:
  "run_loop st w (map (\<lambda>f. (False, Inl f, WokeSlept)) fs) =
     map (\<lambda>k. Some (((\<lambda>x. next_backoff x (st_poll_interval st) MAX_BACKOFF) ^^ Suc k) (w_failure w))) [0..<length fs]"
proof (induction fs arbitrary: w)
  case (Cons f fs)
  show ?case by (simp add: run_turn_def Let_def Cons.IH map_upt_Suc
      funpow_swap1 [of "\<lambda>x. next_backoff x (st_poll_interval st) MAX_BACKOFF"] del: upt_Suc)
qed simp

lemma empties_iterate:
  "run_loop st w (replicate n (False, Inr 0, WokeSlept)) =
     map (\<lambda>k. Some (((\<lambda>x. next_backoff x (st_poll_interval st) (st_idle_poll_max st)) ^^ k) (w_idle w))) [0..<n]"
proof (induction n arbitrary: w)
  case (Suc n)
  show ?case by (simp add: run_turn_def Let_def Suc.IH map_upt_Suc
      funpow_swap1 [of "\<lambda>x. next_backoff x (st_poll_interval st) (st_idle_poll_max st)"] del: upt_Suc)
qed simp

section \<open>Properties\<close>

text \<open>A drain over the small outbox, at a time its lease has run out, with an intake that accepts.\<close>

definition demo_received :: received_envelope where
  "demo_received = \<lparr>ce_specversion = lit ''1.0'', ce_id = [7], ce_source = lit ''urn:x'', ce_event_type = lit ''s'', ce_datacontenttype = None,
     ce_dataschema = None, ce_time = None, ce_subject = Some [5], ce_sequence = Some (sequence_attribute \<lparr>sp_subject = 5, sp_sequence = 7\<rparr>),
     ce_proxiimaowner = None, ce_proxiimamodel = None, ce_extensions = [], ce_data = JNull\<rparr>"

definition demo_event :: received_event where
  "demo_event = \<lparr>re_id = lit ''1'', re_owner = OwnerId 7, re_delivered_count = 2, re_raw = [], re_envelope = demo_received,
     re_position = \<lparr>sp_subject = 5, sp_sequence = 7\<rparr>\<rparr>"

definition demo_drain :: drain where
  "demo_drain = \<lparr>dr_consumer = lit ''default'', dr_settings = \<lparr>st_publisher_id = lit ''b'', st_batch = 64, st_lease = 5000, st_poll_interval = 500,
     st_idle_poll_max = 30000, st_accept_timeout = 5000\<rparr>, dr_from_record = (\<lambda>_. Inr demo_event)\<rparr>"

definition demo_sees :: "claimed_publication \<Rightarrow> observed" where
  "demo_sees r = \<lparr>sees_closing = False, sees_cancelled = False, sees_accept = (\<lambda>_. AcceptDecided IntakeAccepted), sees_break = False,
     sees_pushed_at = 0, sees_checked_at = 1\<rparr>"

definition demo_turns :: "nat \<Rightarrow> pg_turn" where
  "demo_turns n = \<lparr>pt_others = [], pt_now = 2000, pt_fault = None, pt_tok = (\<lambda>_. 12), pt_locked = (\<lambda>_. False)\<rparr>"

definition demo_world :: pg_world where
  "demo_world = \<lparr>pw_db = demo_outbox, pw_turn = 0\<rparr>"

lemma demo_claim:
  obtains claimed w where "port_claim (pg_port demo_outbox_env demo_turns) (dr_consumer demo_drain) (st_publisher_id (dr_settings demo_drain))
    (st_batch (dr_settings demo_drain)) (st_lease (dr_settings demo_drain)) demo_world = (Inr claimed, w)" "map claim_of claimed = [(1, 12)]"
  by (simp add: pg_port_def pg_call_def demo_world_def demo_turns_def demo_drain_def demo_outbox_env_def run_ops_def claim_publications_def MIN_CLAIM_LEASE_def
      Let_def claimed_from_row_def demo_outbox_def demo_lane_def demo_record_def leased_rows_def chosen_def claim_lanes_def lane_deliverable_def
      deliverable_def lease_lane_def claim_of_def)

definition demo_claimed :: claimed_publication where
  "demo_claimed = \<lparr>cp_id = 1, cp_event_id = lit ''1'', cp_owner = 7, cp_schema_id = lit ''note'', cp_schema_version = 1, cp_event_type = lit ''note.created'',
     cp_envelope = [], cp_digest = [], cp_attempts = 2, cp_claim = 12, cp_lease_expires_at = 7000\<rparr>"

text \<open>A port that hands out one record and answers every call.\<close>

definition demo_port :: "unit outbox_port" where
  "demo_port = \<lparr>port_claim = (\<lambda>_ _ _ _ s. (Inr [demo_claimed], s)), port_mark = (\<lambda>_ claims s. (Inr (map (\<lambda>_. AckPublished) claims), s)),
     port_renew = (\<lambda>_ _ _ _ s. (Inr True, s)), port_release = (\<lambda>_ _ _ s. (Inr Released, s))\<rparr>"

lemma demo_pass:
  "pass_once demo_drain demo_port demo_sees () =
     (Inr 1, (), [CallRenew 1 12 (Inr True), CallAccept 1 (AcceptDecided IntakeAccepted)] @ CallMark [(1, 12)] (Inr [AckPublished]) # [])"
  by (simp add: pass_once_def demo_port_def demo_drain_def demo_sees_def demo_claimed_def start_flow_def deliver_def mark_def accepted_take_def
      accepted_push_def accepted_age_def pass_start_def claim_of_def delivered_outcome_def Let_def)

text \<open>
  C15. The drain marks only what the intake decided: every claim in a mark was renewed with success and its event was
  answered with a durable decision earlier in the same pass. A record whose accept failed, timed out or was cancelled,
  or whose claim had moved on, is never marked.
\<close>

theorem marks_follow_accepts:
  assumes "pass_once d port sees s = (res, s', before @ CallMark claims answer # later)" "ik \<in> set claims"
  shows "CallRenew (fst ik) (snd ik) (Inr True) \<in> set before \<and> (\<exists>decision. CallAccept (fst ik) (AcceptDecided decision) \<in> set before)"
proof -
  from assms(1) obtain cnt rs s1 where "pass_loop d port sees cnt rs pass_start s1 = (res, s', before @ CallMark claims answer # later)"
    by (auto simp: pass_once_def Let_def split: prod.splits sum.splits)
  from pass_loop_justified [OF this, of "[]"] have "list_all (handed_over before) claims" by (simp add: pass_start_def)
  with assms(2) show ?thesis by (auto simp: list_all_iff handed_over_def)
qed

theorem marks_follow_accepts_witness:
  "CallRenew 1 12 (Inr True) \<in> set [CallRenew 1 12 (Inr True), CallAccept 1 (AcceptDecided IntakeAccepted)] \<and>
   (\<exists>decision. CallAccept 1 (AcceptDecided decision) \<in> set [CallRenew 1 12 (Inr True), CallAccept 1 (AcceptDecided IntakeAccepted)])"
  using marks_follow_accepts [OF demo_pass, of "(1, 12)"] by simp

text \<open>
  C14. No claim is dropped. Unless the pass stops as though the process died, every record it claimed is accounted for
  exactly once: its claim is in a mark, or is released, or was found to have moved on. This holds for every outbox,
  every interleaving of closing gates and cancellations, and every mix of failing and accepted records.
\<close>

theorem pass_accounts_for_every_claim:
  assumes "port_claim port (dr_consumer d) (st_publisher_id (dr_settings d)) (st_batch (dr_settings d)) (st_lease (dr_settings d)) s = (Inr claimed, s1)"
    and "pass_once d port sees s = (res, s', log)" and "list_all (\<lambda>r. \<not> sees_break (sees r)) claimed"
  shows "mset (map claim_of claimed) = mset (marked_claims log) + mset (released_claims log) + mset (stale_claims log)"
proof -
  have "pass_loop d port sees (length claimed) claimed pass_start s1 = (res, s', log)" using assms(1,2) by (simp add: pass_once_def Let_def)
  from pass_loop_accounts [OF this assms(3)] show ?thesis by (simp add: pass_start_def)
qed

theorem pass_accounts_for_every_claim_witness:
  "\<exists>log. pass_once demo_drain demo_port demo_sees () = (Inr 1, (), log) \<and>
     mset (map claim_of [demo_claimed]) = mset (marked_claims log) + mset (released_claims log) + mset (stale_claims log)"
proof -
  have "port_claim demo_port (dr_consumer demo_drain) (st_publisher_id (dr_settings demo_drain)) (st_batch (dr_settings demo_drain))
      (st_lease (dr_settings demo_drain)) () = (Inr [demo_claimed], ())" by (simp add: demo_port_def)
  from pass_accounts_for_every_claim [OF this demo_pass] demo_pass show ?thesis by (auto simp: demo_sees_def)
qed

text \<open>
  C21. Over the Postgres outbox, with any operations of other processes between the calls of the drain, a pass leaves the tables
  consistent, and a pass that reports a failure delivered nothing: no mark of it was answered published or already
  published. One bad envelope among good ones is never reported as an outage.
\<close>

theorem failed_pass_delivered_nothing:
  assumes "outbox_ok (pw_db w)" "pass_once d (pg_port e turns) sees w = (res, w', log)"
  shows "outbox_ok (pw_db w') \<and> (\<forall>f claims outs. res = Inl f \<and> CallMark claims (Inr outs) \<in> set log \<longrightarrow> \<not> list_ex delivered_outcome outs)"
proof (intro conjI allI impI)
  show "outbox_ok (pw_db w')" by (rule pg.pass_inv [OF assms(2,1)])
  fix f claims outs assume err: "res = Inl f \<and> CallMark claims (Inr outs) \<in> set log"
  with assms(2) obtain cnt rs w1 where "pass_loop d (pg_port e turns) sees cnt rs pass_start w1 = (Inl f, w', log)"
    by (auto simp: pass_once_def Let_def split: prod.splits sum.splits)
  from pg.pass_loop_error [OF this] err show "\<not> list_ex delivered_outcome outs" by blast
qed

theorem failed_pass_delivered_nothing_witness:
  "outbox_ok (pw_db demo_world) \<and>
   (\<exists>res w' log. pass_once demo_drain (pg_port demo_outbox_env demo_turns) demo_sees demo_world = (res, w', log) \<and> outbox_ok (pw_db w'))"
proof -
  obtain res w' log where p: "pass_once demo_drain (pg_port demo_outbox_env demo_turns) demo_sees demo_world = (res, w', log)"
    by (cases "pass_once demo_drain (pg_port demo_outbox_env demo_turns) demo_sees demo_world") auto
  have ok: "outbox_ok (pw_db demo_world)" using demo_outbox_ok by (simp add: demo_world_def)
  from failed_pass_delivered_nothing [OF ok p] ok p show ?thesis by blast
qed

text \<open>
  C29. How long the drain sleeps, for every setting whose times fit the clock: the n-th empty claim in a row waits the poll
  interval doubled n-1 times, the n-th failed pass in a row waits it doubled n times, each capped by its ceiling and
  never below the poll interval; and in any run whatsoever each sleep lies between the poll interval and the larger of it and the ceilings.
\<close>

theorem drain_waits_exact:
  assumes "st_poll_interval st \<le> DURATION_MAX" "st_idle_poll_max st \<le> DURATION_MAX"
  shows "run_loop st (run_start st) (replicate n (False, Inr 0, WokeSlept)) =
      map (\<lambda>k. Some (max (st_poll_interval st) (min (st_idle_poll_max st) (2 ^ k * st_poll_interval st)))) [0..<n] \<and>
    run_loop st (run_start st) (map (\<lambda>f. (False, Inl f, WokeSlept)) fs) =
      map (\<lambda>k. Some (max (st_poll_interval st) (min MAX_BACKOFF (2 ^ Suc k * st_poll_interval st)))) [0..<length fs] \<and>
    (\<forall>turns t. Some t \<in> set (run_loop st (run_start st) turns) \<longrightarrow>
      st_poll_interval st \<le> t \<and> t \<le> max (st_poll_interval st) (max (st_idle_poll_max st) MAX_BACKOFF))"
proof -
  have mb: "MAX_BACKOFF \<le> DURATION_MAX" by (simp add: MAX_BACKOFF_def DURATION_MAX_def)
  have "waits_ok st (run_start st)" by (simp add: waits_ok_def run_start_def)
  then have "\<forall>turns t. Some t \<in> set (run_loop st (run_start st) turns) \<longrightarrow>
      st_poll_interval st \<le> t \<and> t \<le> max (st_poll_interval st) (max (st_idle_poll_max st) MAX_BACKOFF)"
    using run_loop_ok by blast
  moreover have "run_loop st (run_start st) (map (\<lambda>f. (False, Inl f, WokeSlept)) fs) =
      map (\<lambda>k. Some (max (st_poll_interval st) (min MAX_BACKOFF (2 ^ Suc k * st_poll_interval st)))) [0..<length fs]"
    unfolding failures_iterate by (simp only: run_start_def waits.select_convs backoff_iterate [OF assms(1) mb])
  moreover have "run_loop st (run_start st) (replicate n (False, Inr 0, WokeSlept)) =
      map (\<lambda>k. Some (max (st_poll_interval st) (min (st_idle_poll_max st) (2 ^ k * st_poll_interval st)))) [0..<n]"
    unfolding empties_iterate by (simp only: run_start_def waits.select_convs backoff_iterate [OF assms])
  ultimately show ?thesis by blast
qed

theorem drain_waits_exact_witness:
  "st_poll_interval (dr_settings demo_drain) \<le> DURATION_MAX \<and> st_idle_poll_max (dr_settings demo_drain) \<le> DURATION_MAX \<and>
   run_loop (dr_settings demo_drain) (run_start (dr_settings demo_drain)) (map (\<lambda>f. (False, Inl f, WokeSlept)) [FIntake, FIntake]) =
     [Some 1000, Some 2000]"
proof -
  have b: "st_poll_interval (dr_settings demo_drain) \<le> DURATION_MAX" "st_idle_poll_max (dr_settings demo_drain) \<le> DURATION_MAX"
    by (simp_all add: demo_drain_def DURATION_MAX_def)
  have "run_loop (dr_settings demo_drain) (run_start (dr_settings demo_drain)) (map (\<lambda>f. (False, Inl f, WokeSlept)) [FIntake, FIntake]) =
      map (\<lambda>k. Some (max (st_poll_interval (dr_settings demo_drain)) (min MAX_BACKOFF (2 ^ Suc k * st_poll_interval (dr_settings demo_drain)))))
        [0..<length [FIntake, FIntake]]"
    using drain_waits_exact [OF b, of 0 "[FIntake, FIntake]"] by blast
  also have "\<dots> = [Some 1000, Some 2000]" by (simp add: demo_drain_def MAX_BACKOFF_def)
  finally show ?thesis using b by blast
qed

end
