(* ===== verification/DrainDelivery.thy ===== *)
theory DrainDelivery
  imports Drain
begin

text \<open>
  The drain over the Postgres outbox when nothing stands in its way: no other process touches the outbox during the pass,
  the database answers, the clock stays within the lease and the intake decides every event. Then one pass publishes
  everything it claimed, whenever it chose to mark.
\<close>

section \<open>Claims held and records delivered\<close>

definition holds_until :: "outbox \<Rightarrow> str \<Rightarrow> system_time \<Rightarrow> claimed_publication \<Rightarrow> bool" where
  "holds_until db c until r \<longleftrightarrow> (\<exists>l \<in> set (ob_lanes db). ln_t l = cp_id r \<and> ln_consumer l = c \<and> lane_deliverable db l \<and>
     (\<exists>p lease. ln_state l = LaneClaimed (cp_claim r) p lease \<and> until \<le> lease))"

definition delivered_to :: "outbox \<Rightarrow> str \<Rightarrow> claimed_publication \<Rightarrow> bool" where
  "delivered_to db c r \<longleftrightarrow> (\<exists>at. has_lane db (cp_id r) c (LanePublished at))"

definition renew_lane :: "outbox \<Rightarrow> str \<Rightarrow> uuid \<Rightarrow> uuid \<Rightarrow> nat \<Rightarrow> system_time \<Rightarrow> lane \<Rightarrow> lane" where
  "renew_lane db c t token lease now l =
     (if ln_t l = t \<and> ln_consumer l = c \<and> claim_live now token (ln_state l) \<and> lane_deliverable db l
      then l\<lparr>ln_state := LaneClaimed token (lc_by (ln_state l)) (now + int lease)\<rparr> else l)"

lemma renew_lane_key [simp]: "ln_t (renew_lane db c t token lease now l) = ln_t l" "ln_consumer (renew_lane db c t token lease now l) = ln_consumer l"
  by (simp_all add: renew_lane_def)

lemma renew_snd:
  assumes "MIN_CLAIM_LEASE \<le> lease"
  shows "snd (renew_claim db c t token lease now) = db\<lparr>ob_lanes := map (renew_lane db c t token lease now) (ob_lanes db)\<rparr>"
proof -
  have "renew_lane db c t token lease now = (\<lambda>l. if ln_t l = t \<and> ln_consumer l = c \<and> claim_live now token (ln_state l) \<and> lane_deliverable db l
      then l\<lparr>ln_state := LaneClaimed token (lc_by (ln_state l)) (now + int lease)\<rparr> else l)"
    by (rule ext) (simp add: renew_lane_def)
  with assms show ?thesis by (simp add: renew_claim_def Let_def)
qed

lemma lane_deliverable_lanes [simp]: "lane_deliverable (db\<lparr>ob_lanes := ls\<rparr>) l = lane_deliverable db l"
  by (simp add: lane_deliverable_def deliverable_def)

lemma lane_deliverable_key: "ln_t l = ln_t m \<Longrightarrow> lane_deliverable db l = lane_deliverable db m"
  by (simp add: lane_deliverable_def)

lemma renew_keeps_held:
  assumes "MIN_CLAIM_LEASE \<le> lease" "until \<le> now + int lease" "holds_until db c until r"
  shows "holds_until (snd (renew_claim db c t token lease now)) c until r"
proof -
  from assms(3) obtain l p x where l: "l \<in> set (ob_lanes db)" "ln_t l = cp_id r" "ln_consumer l = c" "lane_deliverable db l"
    "ln_state l = LaneClaimed (cp_claim r) p x" "until \<le> x" by (auto simp: holds_until_def)
  let ?l = "renew_lane db c t token lease now l"
  have "\<exists>p x. ln_state ?l = LaneClaimed (cp_claim r) p x \<and> until \<le> x"
    using l(5,6) assms(2) by (auto simp: renew_lane_def)
  with l show ?thesis unfolding holds_until_def renew_snd [OF assms(1)] using lane_deliverable_key [of ?l l db]
    by (auto intro!: bexI [of _ l])
qed

lemma renew_keeps_delivered:
  assumes "MIN_CLAIM_LEASE \<le> lease" "delivered_to db c' r"
  shows "delivered_to (snd (renew_claim db c t token lease now)) c' r"
proof -
  from assms(2) obtain l at where "l \<in> set (ob_lanes db)" "ln_t l = cp_id r" "ln_consumer l = c'" "ln_state l = LanePublished at"
    by (auto simp: delivered_to_def has_lane_def)
  then show ?thesis unfolding delivered_to_def has_lane_def renew_snd [OF assms(1)]
    by (intro exI [of _ at]) (auto simp: renew_lane_def intro!: bexI [of _ l])
qed

lemma renew_held_answers:
  assumes "tables_ok db" "MIN_CLAIM_LEASE \<le> lease" "holds_until db c until r" "now < until"
  shows "fst (renew_claim db c (cp_id r) (cp_claim r) lease now) = Inr True"
proof -
  let ?hit = "\<lambda>l. ln_t l = cp_id r \<and> ln_consumer l = c \<and> claim_live now (cp_claim r) (ln_state l) \<and> lane_deliverable db l"
  from assms(3,4) obtain l where l: "l \<in> set (ob_lanes db)" "?hit l" by (auto simp: holds_until_def)
  have d: "distinct (map (\<lambda>l. (ln_t l, ln_consumer l)) (ob_lanes db))" using assms(1) by (simp add: tables_ok_def)
  have "filter ?hit (ob_lanes db) = filter (\<lambda>m. (ln_t m, ln_consumer m) = (ln_t l, ln_consumer l) \<and>
      (claim_live now (cp_claim r) (ln_state m) \<and> lane_deliverable db m)) (ob_lanes db)"
    by (rule filter_cong [OF refl]) (use l(2) in auto)
  also have "\<dots> = [l]" by (rule filter_key_singleton [OF d l(1)]) (use l(2) in blast)
  finally have "filter ?hit (ob_lanes db) = [l]" .
  with assms(2) show ?thesis by (simp add: renew_claim_def Let_def)
qed

lemma held_marks:
  assumes "holds_until db c until r" "now < until" "claim_of r \<in> set claims"
  obtains l where "l \<in> set (ob_lanes db)" "ln_t l = cp_id r" "ln_consumer l = c" "marks db c claims now l"
proof -
  from assms(1) obtain l p x where l: "l \<in> set (ob_lanes db)" "ln_t l = cp_id r" "ln_consumer l = c" "lane_deliverable db l"
    "ln_state l = LaneClaimed (cp_claim r) p x" "until \<le> x" by (auto simp: holds_until_def)
  then have "marks db c claims now l" using assms(2,3) by (auto simp: marks_def list_ex_iff claim_of_def intro!: bexI [of _ "claim_of r"])
  with l(1-3) show thesis by (rule that)
qed

lemma mark_delivers:
  assumes "holds_until db c until r" "now < until" "claim_of r \<in> set claims"
  shows "delivered_to (snd (mark_published_batch db c claims now)) c r"
proof -
  from held_marks [OF assms] obtain l where l: "l \<in> set (ob_lanes db)" "ln_t l = cp_id r" "ln_consumer l = c" "marks db c claims now l" .
  then have mem: "mark_lane db c claims now l \<in> set (ob_lanes (snd (mark_published_batch db c claims now)))" by (simp add: mark_snd_map)
  show ?thesis unfolding delivered_to_def has_lane_def
    by (rule exI [of _ now], rule bexI [OF _ mem]) (use l(2-4) in \<open>simp add: mark_lane_def\<close>)
qed

lemma mark_keeps_delivered:
  assumes "delivered_to db c' r"
  shows "delivered_to (snd (mark_published_batch db c claims now)) c' r"
proof -
  from assms obtain l at where l: "l \<in> set (ob_lanes db)" "ln_t l = cp_id r" "ln_consumer l = c'" "ln_state l = LanePublished at"
    by (auto simp: delivered_to_def has_lane_def)
  then have "\<not> marks db c claims now l" using marks_not_published [of db c claims now l] by auto
  with l show ?thesis unfolding delivered_to_def has_lane_def mark_snd_map
    by (intro exI [of _ at]) (auto simp: mark_lane_def intro!: bexI [of _ l])
qed

lemma mark_keeps_held:
  assumes "holds_until db c until r" "cp_id r \<notin> fst ` set claims"
  shows "holds_until (snd (mark_published_batch db c claims now)) c until r"
proof -
  from assms(1) obtain l p x where l: "l \<in> set (ob_lanes db)" "ln_t l = cp_id r" "ln_consumer l = c" "lane_deliverable db l"
    "ln_state l = LaneClaimed (cp_claim r) p x" "until \<le> x" by (auto simp: holds_until_def)
  with assms(2) have "mark_lane db c claims now l = l" using marks_fresh [of l claims db c now] by (simp add: mark_lane_def)
  with l show ?thesis unfolding holds_until_def lane_deliverable_marked
    by (auto simp: mark_snd_map intro!: bexI [of _ l])
qed

section \<open>A pass with nothing in its way\<close>

definition calm_turns :: "(nat \<Rightarrow> pg_turn) \<Rightarrow> system_time \<Rightarrow> nat \<Rightarrow> bool" where
  "calm_turns turns start lease \<longleftrightarrow> (\<forall>n. pt_others (turns n) = [] \<and> pt_fault (turns n) = None \<and>
     start \<le> pt_now (turns n) \<and> pt_now (turns n) < start + int lease)"

definition calm_record :: "drain \<Rightarrow> (claimed_publication \<Rightarrow> observed) \<Rightarrow> claimed_publication \<Rightarrow> bool" where
  "calm_record d sees r \<longleftrightarrow> \<not> sees_closing (sees r) \<and> \<not> sees_cancelled (sees r) \<and> \<not> sees_break (sees r) \<and>
     (case dr_from_record d r of Inl _ \<Rightarrow> False
      | Inr event \<Rightarrow> (case sees_accept (sees r) event of AcceptDecided _ \<Rightarrow> True | _ \<Rightarrow> False))"

lemma pg_call_calm:
  assumes "calm_turns turns start lease"
  shows "pg_call e turns call w =
    (fst (call (turns (pw_turn w)) (pw_db w)), \<lparr>pw_db = snd (call (turns (pw_turn w)) (pw_db w)), pw_turn = Suc (pw_turn w)\<rparr>)"
  using assms by (simp add: pg_call_def calm_turns_def run_ops_def Let_def split_beta)

lemma calm_start_flow:
  assumes calm: "calm_turns turns start (st_lease (dr_settings d))" "calm_record d sees r"
    and lease: "MIN_CLAIM_LEASE \<le> st_lease (dr_settings d)"
    and h: "outbox_ok (pw_db w)" "holds_until (pw_db w) (dr_consumer d) (start + int (st_lease (dr_settings d))) r"
  obtains log where "start_flow d (pg_port e turns) (sees r) r w = (Inr FlowAccepted,
    \<lparr>pw_db = snd (renew_claim (pw_db w) (dr_consumer d) (cp_id r) (cp_claim r) (st_lease (dr_settings d)) (pt_now (turns (pw_turn w)))),
     pw_turn = Suc (pw_turn w)\<rparr>, log)"
proof -
  have "pt_now (turns (pw_turn w)) < start + int (st_lease (dr_settings d))" using calm(1) by (simp add: calm_turns_def)
  with renew_held_answers [OF _ lease h(2)] h(1)
  have "fst (renew_claim (pw_db w) (dr_consumer d) (cp_id r) (cp_claim r) (st_lease (dr_settings d)) (pt_now (turns (pw_turn w)))) = Inr True"
    by (simp add: outbox_ok_def)
  moreover obtain event x where "dr_from_record d r = Inr event" "sees_accept (sees r) event = AcceptDecided x"
    using calm(2) by (auto simp: calm_record_def split: sum.splits accept_answer.splits)
  ultimately show thesis using calm(2)
    by (intro that) (simp add: start_flow_def deliver_def calm_record_def pg_port_def pg_call_calm [OF calm(1)] Let_def)
qed

lemma calm_mark:
  assumes calm: "calm_turns turns start (st_lease (dr_settings d))" and ff: "ps_first_failure ps = None"
  obtains ps' log n where "mark d (pg_port e turns) ps w =
      (ps', \<lparr>pw_db = snd (mark_published_batch (pw_db w) (dr_consumer d) (map claim_of (ac_records (ps_accepted ps))) (pt_now (turns (pw_turn w)))), pw_turn = n\<rparr>, log)"
    "ps_first_failure ps' = None" "ac_records (ps_accepted ps') = []"
proof (cases "ac_records (ps_accepted ps) = []")
  case True
  then show thesis using ff by (intro that [of "ps\<lparr>ps_accepted := \<lparr>ac_records = [], ac_since = None\<rparr>\<rparr>" "pw_turn w" "[]"]) (simp_all add: mark_def accepted_take_def Let_def mark_published_batch_def)
next
  case False
  obtain ps' s log where m: "mark d (pg_port e turns) ps w = (ps', s, log)" by (cases "mark d (pg_port e turns) ps w") auto
  with False ff have eqs: "s = \<lparr>pw_db = snd (mark_published_batch (pw_db w) (dr_consumer d) (map claim_of (ac_records (ps_accepted ps))) (pt_now (turns (pw_turn w)))),
      pw_turn = Suc (pw_turn w)\<rparr>" "ps_first_failure ps' = None" "ac_records (ps_accepted ps') = []"
    by (auto simp: mark_def accepted_take_def Let_def pg_port_def pg_call_calm [OF calm] split_beta)
  from m eqs(2,3) show thesis unfolding eqs(1) by (rule that)
qed

lemma calm_loop:
  assumes calm: "calm_turns turns start (st_lease (dr_settings d))" and lease: "MIN_CLAIM_LEASE \<le> st_lease (dr_settings d)"
    and "list_all (calm_record d sees) rs" "outbox_ok (pw_db w)" "ps_first_failure ps = None"
    and "distinct (map cp_id (ac_records (ps_accepted ps) @ rs))"
    and "\<forall>r \<in> set (ac_records (ps_accepted ps) @ rs). holds_until (pw_db w) (dr_consumer d) (start + int (st_lease (dr_settings d))) r"
    and "pass_loop d (pg_port e turns) sees cnt rs ps w = (res, w', log)"
  shows "res = Inr cnt \<and> (\<forall>r \<in> set (ac_records (ps_accepted ps) @ rs). delivered_to (pw_db w') (dr_consumer d) r) \<and>
    (\<forall>r. delivered_to (pw_db w) (dr_consumer d) r \<longrightarrow> delivered_to (pw_db w') (dr_consumer d) r)"
  using assms(3-)
proof (induction rs arbitrary: ps w log)
  case Nil
  have now: "pt_now (turns (pw_turn w)) < start + int (st_lease (dr_settings d))" using calm by (simp add: calm_turns_def)
  from calm_mark [OF calm Nil.prems(3), of e w] obtain ps' lg n where m: "mark d (pg_port e turns) ps w =
      (ps', \<lparr>pw_db = snd (mark_published_batch (pw_db w) (dr_consumer d) (map claim_of (ac_records (ps_accepted ps))) (pt_now (turns (pw_turn w)))), pw_turn = n\<rparr>, lg)"
    "ps_first_failure ps' = None" by blast
  with Nil.prems(6) have "res = Inr cnt" and w': "pw_db w' = snd (mark_published_batch (pw_db w) (dr_consumer d) (map claim_of (ac_records (ps_accepted ps))) (pt_now (turns (pw_turn w))))"
    by auto
  moreover have "delivered_to (pw_db w') (dr_consumer d) r" if "r \<in> set (ac_records (ps_accepted ps))" for r
    unfolding w' by (rule mark_delivers [OF _ now]) (use Nil.prems(5) that in auto)
  ultimately show ?case using mark_keeps_delivered by auto
next
  case (Cons r rest)
  let ?c = "dr_consumer d" and ?u = "start + int (st_lease (dr_settings d))" and ?ps = "ps\<lparr>ps_accepted := accepted_push (sees_pushed_at (sees r)) r (ps_accepted ps)\<rparr>"
  have "holds_until (pw_db w) ?c ?u r" "calm_record d sees r" using Cons.prems by simp_all
  from calm_start_flow [OF calm this(2) lease Cons.prems(2) this(1), of e] obtain log1
    where fl: "start_flow d (pg_port e turns) (sees r) r w = (Inr FlowAccepted,
      \<lparr>pw_db = snd (renew_claim (pw_db w) ?c (cp_id r) (cp_claim r) (st_lease (dr_settings d)) (pt_now (turns (pw_turn w)))), pw_turn = Suc (pw_turn w)\<rparr>, log1)"
    (is "_ = (_, ?w1, _)") by blast
  have until: "?u \<le> pt_now (turns (pw_turn w)) + int (st_lease (dr_settings d))" using calm by (simp add: calm_turns_def)
  have ok1: "outbox_ok (pw_db ?w1)" using renew_ok [OF Cons.prems(2)] by simp
  have held1: "\<forall>x \<in> set (ac_records (ps_accepted ?ps) @ rest). holds_until (pw_db ?w1) ?c ?u x"
    using Cons.prems(5) renew_keeps_held [OF lease until] by auto
  have keep1: "delivered_to (pw_db w) ?c x \<Longrightarrow> delivered_to (pw_db ?w1) ?c x" for x using renew_keeps_delivered [OF lease] by simp
  from Cons.prems(6) show ?case
  proof (cases rule: pass_loop_Cons)
    case (accepted s1 log1' ps2 s2 log2 log3)
    with fl have s1: "s1 = ?w1" by simp
    from accepted(2) show ?thesis
    proof
      assume m: "(ps2, s2, log2) = mark d (pg_port e turns) ?ps s1"
      let ?acc = "ac_records (ps_accepted ?ps)" and ?db = "pw_db s2" and ?now = "pt_now (turns (pw_turn ?w1))"
      have ff: "ps_first_failure ?ps = None" using Cons.prems(3) by simp
      from calm_mark [OF calm ff, of e ?w1] m s1
      have db: "?db = snd (mark_published_batch (pw_db ?w1) ?c (map claim_of ?acc) ?now)"
        and ps2: "ps_first_failure ps2 = None" "ac_records (ps_accepted ps2) = []" by (metis Pair_inject pg_world.select_convs(1))+
      have now: "?now < ?u" using calm by (simp add: calm_turns_def)
      have acc: "delivered_to ?db ?c x" if "x \<in> set ?acc" for x
        unfolding db by (rule mark_delivers [OF _ now]) (use held1 that in auto)
      have fresh: "cp_id x \<notin> fst ` set (map claim_of ?acc)" if "x \<in> set rest" for x
        using Cons.prems(4) that by (auto simp: claim_of_def disjoint_iff image_iff)
      have "res = Inr cnt \<and> (\<forall>x \<in> set (ac_records (ps_accepted ps2) @ rest). delivered_to (pw_db w') ?c x) \<and>
        (\<forall>x. delivered_to ?db ?c x \<longrightarrow> delivered_to (pw_db w') ?c x)"
      proof (rule Cons.IH [OF _ _ ps2(1) _ _ accepted(3)])
        show "list_all (calm_record d sees) rest" using Cons.prems(1) by simp
        show "outbox_ok ?db" unfolding db by (rule mark_ok [OF ok1])
        show "distinct (map cp_id (ac_records (ps_accepted ps2) @ rest))" using Cons.prems(4) ps2 by simp
        show "\<forall>x \<in> set (ac_records (ps_accepted ps2) @ rest). holds_until ?db ?c ?u x"
        proof
          fix x assume "x \<in> set (ac_records (ps_accepted ps2) @ rest)"
          with ps2 have x: "x \<in> set rest" by simp
          with held1 have "holds_until (pw_db ?w1) ?c ?u x" by simp
          from mark_keeps_held [OF this fresh [OF x]] show "holds_until ?db ?c ?u x" unfolding db .
        qed
      qed
      with acc ps2 keep1 mark_keeps_delivered [of "pw_db ?w1" ?c] show ?thesis unfolding db by auto
    next
      assume eq: "(ps2, s2, log2) = (?ps, s1, [])"
      have "res = Inr cnt \<and> (\<forall>x \<in> set (ac_records (ps_accepted ?ps) @ rest). delivered_to (pw_db w') ?c x) \<and>
        (\<forall>x. delivered_to (pw_db ?w1) ?c x \<longrightarrow> delivered_to (pw_db w') ?c x)"
        by (rule Cons.IH [of ?w1 ?ps log3]) (use Cons.prems(1,3,4) ok1 held1 accepted(3) eq s1 in auto)
      with keep1 show ?thesis by auto
    qed
  qed (use fl in simp_all)
qed

lemma claim_held:
  assumes "outbox_ok db" "claim_publications hyph tok locked db c p limit lease now = (Inr cs, db')" "r \<in> set cs"
  shows "holds_until db' c (now + int lease) r"
proof -
  have tab: "tables_ok db" using assms(1) by (simp add: outbox_ok_def)
  let ?ls = "claim_lanes db locked c limit now"
  note ans = claim_answers [OF tab assms(2)]
  have "cp_id ` set cs = ln_t ` set ?ls" using ans(1) by (metis set_map set_mset_mset)
  with assms(3) obtain l where l: "l \<in> set ?ls" "ln_t l = cp_id r" by (metis imageE imageI)
  note props = claim_lanes_props [OF l(1)]
  have leased: "lease_chosen tok locked db c p limit lease now l = lease_lane tok p lease now l"
    using props(2) imageI [OF l(1), of ln_t] by (simp add: lease_chosen_def chosen_def)
  have "lane_deliverable db' m = lane_deliverable db m" for m
    using assms(2) by (auto simp: claim_publications_def Let_def lane_deliverable_def deliverable_def split: if_splits sum.splits)
  moreover have "lease_lane tok p lease now l \<in> set (ob_lanes db')" unfolding ans(3) using props(1) leased by (metis imageI set_map)
  ultimately show "holds_until db' c (now + int lease) r" unfolding holds_until_def using l(2) props ans(2) [OF assms(3)]
    by (intro bexI [of _ "lease_lane tok p lease now l"]) auto
qed

section \<open>Properties\<close>

text \<open>
  C12. A pass with nothing in its way delivers what it claims. When the claim answers with records, no other process acts
  during the pass, no storage call faults, the database clock stays within the lease from the claim on, and every
  record is readable and decided by the intake, then the pass reports success and every claimed record is published for
  this consumer at its end, however many marks the pass split into.
\<close>

theorem calm_pass_delivers:
  assumes "calm_turns turns (pt_now (turns (pw_turn w))) (st_lease (dr_settings d))" "MIN_CLAIM_LEASE \<le> st_lease (dr_settings d)"
    and "outbox_ok (pw_db w)"
    and "port_claim (pg_port e turns) (dr_consumer d) (st_publisher_id (dr_settings d)) (st_batch (dr_settings d)) (st_lease (dr_settings d)) w = (Inr claimed, w1)"
    and "list_all (calm_record d sees) claimed"
  shows "\<exists>w' log. pass_once d (pg_port e turns) sees w = (Inr (length claimed), w', log) \<and>
    (\<forall>r \<in> set claimed. delivered_to (pw_db w') (dr_consumer d) r)"
proof -
  obtain res w' log where p: "pass_loop d (pg_port e turns) sees (length claimed) claimed pass_start w1 = (res, w', log)"
    by (cases "pass_loop d (pg_port e turns) sees (length claimed) claimed pass_start w1") auto
  let ?tn = "turns (pw_turn w)"
  from assms(4) have cl: "claim_publications (oe_hyph e) (pt_tok ?tn) (pt_locked ?tn) (pw_db w) (dr_consumer d) (st_publisher_id (dr_settings d))
      (st_batch (dr_settings d)) (st_lease (dr_settings d)) (pt_now ?tn) = (Inr claimed, pw_db w1)"
    by (auto simp: pg_port_def pg_call_calm [OF assms(1)] prod_eq_iff)
  have "outbox_ok (pw_db w1)" using claim_ok [OF assms(3)] cl by (metis snd_conv)
  moreover have "distinct (map cp_id claimed)" using claim_ids_distinct [OF _ cl] assms(3) by (simp add: outbox_ok_def)
  ultimately have "res = Inr (length claimed) \<and> (\<forall>r \<in> set claimed. delivered_to (pw_db w') (dr_consumer d) r)"
    using calm_loop [OF assms(1,2,5) _ _ _ _ p] claim_held [OF assms(3) cl] by (simp add: pass_start_def)
  moreover have "pass_once d (pg_port e turns) sees w = (res, w', log)" using assms(4) p by (simp add: pass_once_def Let_def)
  ultimately show ?thesis by blast
qed

theorem calm_pass_delivers_witness:
  "\<exists>claimed w' log. map claim_of claimed = [(1, 12)] \<and>
     pass_once demo_drain (pg_port demo_outbox_env demo_turns) demo_sees demo_world = (Inr (length claimed), w', log) \<and>
     (\<forall>r \<in> set claimed. delivered_to (pw_db w') (dr_consumer demo_drain) r)"
proof -
  obtain claimed w where cl: "port_claim (pg_port demo_outbox_env demo_turns) (dr_consumer demo_drain) (st_publisher_id (dr_settings demo_drain))
    (st_batch (dr_settings demo_drain)) (st_lease (dr_settings demo_drain)) demo_world = (Inr claimed, w)" "map claim_of claimed = [(1, 12)]"
    by (rule demo_claim)
  have "list_all (calm_record demo_drain demo_sees) claimed"
    by (simp add: calm_record_def demo_drain_def demo_sees_def list_all_iff)
  moreover have "calm_turns demo_turns (pt_now (demo_turns (pw_turn demo_world))) (st_lease (dr_settings demo_drain))"
    "MIN_CLAIM_LEASE \<le> st_lease (dr_settings demo_drain)" "outbox_ok (pw_db demo_world)"
    using demo_outbox_ok by (simp_all add: calm_turns_def demo_turns_def demo_drain_def demo_world_def MIN_CLAIM_LEASE_def)
  ultimately have "\<exists>w' log. pass_once demo_drain (pg_port demo_outbox_env demo_turns) demo_sees demo_world = (Inr (length claimed), w', log) \<and>
      (\<forall>r \<in> set claimed. delivered_to (pw_db w') (dr_consumer demo_drain) r)" by (intro calm_pass_delivers [OF _ _ _ cl(1)])
  then obtain w' log where "pass_once demo_drain (pg_port demo_outbox_env demo_turns) demo_sees demo_world = (Inr (length claimed), w', log)"
      "\<forall>r \<in> set claimed. delivered_to (pw_db w') (dr_consumer demo_drain) r" by (elim exE conjE)
  with cl(2) show ?thesis by (intro exI [of _ claimed] exI [of _ w'] exI [of _ log] conjI)
qed

end
