(* ===== verification/Spec2Isabelle.thy ===== *)
theory Spec2Isabelle
  imports Prelude Access ScopeKey Capability Publication OwnerScope Errors Authz Revalidation Pipeline Surfaces Delegation Quiesce Framing PayloadKey
    CanonicalJson Idempotency RequestContent RequestLedger Outbox OutboxFence OutboxCapture Intake Drain DrainDelivery
begin

text \<open>
  Verification of the Proxiima memory substrate: who may do what to which owner, how repeated requests are recognised, and
  how captured facts reach the consumers that are owed them. All paths below are under \<open>src/\<close>.

  \<^bold>\<open>The program.\<close> A request arrives with an identity and becomes an authorization context
  (\<open>crates/core/src/authz.rs\<close>), narrowed by tokens, forwarded actors and delegated grants. The engine's gates
  (\<open>engine/pipeline.rs\<close>) check the context, run veto hooks and mint permits, without which storage accepts nothing. Writes
  carry an idempotency key that the request ledger judges, and a content fingerprint. A listenable fact is sealed into an
  event and stored in the outbox in the transaction that admits it; each registered consumer owns a lane; drains claim
  lanes under a lease, hand events to the host's intake and mark them published. Workers pause through a quiesce gate.

  \<^bold>\<open>Theories.\<close>
  \<^item> \<open>Prelude\<close>: results, strings as lists of code points with UTF-8, machine integers, JSON values, generic lemmas.
  \<^item> \<open>Access\<close>, \<open>OwnerScope\<close>: owners, roles and role maps of \<open>core/src/access.rs\<close>, \<open>owner.rs\<close>; sealed scopes of \<open>owner_scope.rs\<close>.
  \<^item> \<open>ScopeKey\<close>, \<open>Capability\<close>: scope keys and their text (\<open>authz/scope_key.rs\<close>, \<open>mcp/names.rs\<close>); capabilities, descriptors and
    the manifest (\<open>mcp/tool.rs\<close>, \<open>mcp/manifest.rs\<close>).
  \<^item> \<open>Authz\<close>: the context and every builder and narrowing of \<open>authz.rs\<close>, with an invariant over all reachable contexts. \<open>Revalidation\<close>: the streams
    at the end of that file, one poll at a time.
  \<^item> \<open>Pipeline\<close>: gates, entry reads, hooks and permits; exactness of each gate and that denied reads disclose nothing.
  \<^item> \<open>Delegation\<close>: issue, redeem and revoke (\<open>storage_ports/delegated_authority.rs\<close>) over the Postgres store.
  \<^item> \<open>Errors\<close>, \<open>Surfaces\<close>: engine and storage errors and their JSON-RPC and REST forms.
  \<^item> \<open>Framing\<close>, \<open>PayloadKey\<close>, \<open>CanonicalJson\<close>, \<open>Idempotency\<close>, \<open>RequestLedger\<close>: byte framing (one locale for injective framing), payload keys,
    canonical JSON, fingerprints, and the ledger with its refinement to a map from keys to first claims. \<open>RequestContent\<close>: the
    requests that carry a fingerprint (notes, utterances, derived memories, forks, Goal work) and when two of them share one.
  \<^item> \<open>Publication\<close>: drafts, extensions, envelopes, sealing (\<open>publication.rs\<close>).
  \<^item> \<open>Outbox\<close>: the tables and every statement of \<open>storage-pg/src/verbs/publication_outbox.rs\<close>, and the names of
    \<open>storage_ports/publication.rs\<close>; the table invariant and the fate of undelivered lanes under any interleaving.
    A capture's backlog probe takes no lock, so a capture is given the outbox its probe saw beside the one it writes to.
    \<open>OutboxFence\<close>: dead tokens, batches of marks, what a claim hands out. \<open>OutboxCapture\<close>: series positions, and how far
    captures in flight can exceed the backlog ceiling.
  \<^item> \<open>Intake\<close>: \<open>publication/intake.rs\<close>; a captured event is read back attribute by attribute. \<open>Drain\<close>: \<open>proxiima/src/in_process_outbox.rs\<close>; the
    locale \<open>drain_port\<close> is the outbox as the drain uses it, interpreted on the Postgres outbox with other processes acting between calls.
    \<open>DrainDelivery\<close>: an undisturbed pass publishes all it claimed.
  \<^item> \<open>Quiesce\<close>: the gate of \<open>quiesce.rs\<close> and its workers' checkpoints.
  \<^item> This theory imports all of them and holds the property that spans delegation, gates and permits.

  \<^bold>\<open>Conventions.\<close> Structs are records whose fields carry a prefix, enums are datatypes, fallible code returns a sum with the
  error on the left, and a panic is \<open>None\<close>. UUIDs, counters and bytes are words of their width; times are integers and durations
  natural numbers, in milliseconds. SQL statements are functions on the tables they name; a transaction that fails leaves the
  tables unchanged. Loops are structural recursions over the batch or the list of turns; the checkpoint loop of \<open>Quiesce\<close>
  runs the worker's own steps until none is enabled and terminates by a measure on the gate. No definition carries fuel.

  \<^bold>\<open>Parameters.\<close> BLAKE3, hex and UUID text, RFC 3339 printing, the JSON writer and the splitting of JSON text into members, the owner-access port, hooks and the
  intake are arguments; a theorem that relies on them names what it needs (UUID text parses back, the members of a written object are read back, a
  hash does not collide on the inputs at hand). The quiesce gate rests on the documented behaviour of the tokio watch
  channel: a receiver sees the latest value and is woken when it changes. The drain's observations between calls (closing
  gate, cancellation, the intake's answer, clock readings) are arbitrary.

  \<^bold>\<open>Not modelled.\<close> Vector search, sketches and embeddings are floating-point work inside Postgres and model services. The remaining
  SQL of the storage crate (ingest, goals, search, forgetting beyond the outbox) is outside the statements modelled here. HTTP, MCP
  and stdio transports, configuration and migrations, S3, OIDC and LLM clients are I/O over third-party libraries. JSON schema
  generation rewrites the output of a third-party crate. Logging, metrics, task spawning and test support are left out.
  Of \<open>mcp/tool.rs\<close> the argument validation is left out. Database faults are errors of a call without effect; deadlocks and serialization failures are not distinguished.
\<close>

text \<open>
  C8. A delegated write stays inside its grant, from the stored grant to the storage permit. Whatever owner a
  redeemed phase asks to write, through whatever resolver and hooks, a permit it gets is for the granted owner, for a
  kind the recorded ceiling writes, minted by the runtime that redeemed it; storage accepts the permit exactly on
  that runtime and strictly before the grant expires.
\<close>

theorem delegated_write_confined:
  assumes "redeem_phase D (pg_load atxt) now s i w c = Inr ph"
    and "fst (authorize_write E t (FromPhase ph) v k) = Inr p"
  shows "\<exists>g. pg_load atxt s i w = Inr (Some g) \<and> gr_revoked_at g = None \<and> wp_owner p = w \<and> wp_access_kind p = k \<and>
    role_may_write (gr_role_ceiling g) k \<and> t < gr_expires_at g \<and> ds_runtime_binding D = eng_delegation_binding E \<and>
    (\<forall>t' b. is_ok (validate_for_engine t' p b) \<longleftrightarrow> b = ds_runtime_binding D \<and> t' < gr_expires_at g)"
proof -
  from assms(1) obtain g r scope where g: "pg_load atxt s i w = Inr (Some g)" "gr_revoked_at g = None"
    and dom: "role_dominates r (gr_role_ceiling g)"
    and ph: "ph = \<lparr>ph_authz = sealed_phase D g w (role_meet r (gr_role_ceiling g)) scope,
      ph_expires_at = gr_expires_at g, ph_runtime_binding = ds_runtime_binding D\<rparr>"
    by (rule redeem_phase_Inr)
  from assms(2) have "fst (write_permit E t (FromPhase ph) v (OpWrite k)) = Inr p" by (simp add: authorize_write_def)
  from write_permit_Inr [OF this] obtain au where au: "operation_authority E t (FromPhase ph) = Inr au"
    and gate: "fst (gate E (eo_authz au) v (OpWrite k) (eo_redeemed_phase au)) = Inr (wp_owner p)"
    and kind: "wp_access_kind p = k"
    and bound: "eo_redeemed_phase au \<Longrightarrow> \<exists>ex. ac_expires_at (eo_authz au) = Some ex \<and> wp_delegated p = Some (eng_delegation_binding E, ex)"
    unfolding op_write_kind.simps by blast
  from au have eo: "eo_authz au = ph_authz ph" "eo_redeemed_phase au" and now: "t < ph_expires_at ph"
    and binding: "ph_runtime_binding ph = eng_delegation_binding E" by (auto simp: operation_authority_Inr)
  from gate have "ac_may_write (ph_authz ph) (wp_owner p) k" by (simp add: gate_Inr eo)
  then have may: "wp_owner p = w" "role_may_write (gr_role_ceiling g) k"
    by (simp_all add: ph dominates_meet(2) [OF dom] del: role_may_meet)
  have "wp_delegated p = Some (eng_delegation_binding E, gr_expires_at g)" using bound [OF eo(2)] by (simp add: eo ph)
  then show ?thesis using g may kind now binding by (auto simp: ph validate_for_engine_def not_le)
qed

theorem delegated_write_confined_witness:
  "\<exists>s ph p. redeem_phase demo_service (pg_load (\<lambda>_. [])) 50 s (DelegationId 5) (OwnerId 2) demo_command = Inr ph \<and>
     fst (authorize_write demo_engine 60 (FromPhase ph) (OwnerId 2) KFact) = Inr p \<and> wp_owner p = OwnerId 2"
proof -
  obtain s g r key where r: "role_dominates r role_editor"
    and ph: "redeem_phase demo_service (pg_load (\<lambda>_. [])) 50 s (DelegationId 5) (OwnerId 2) demo_command =
      Inr \<lparr>ph_authz = sealed_phase demo_service g (OwnerId 2) (role_meet r role_editor) (ScopePalette [key]), ph_expires_at = 100,
        ph_runtime_binding = ds_runtime_binding demo_service\<rparr>" (is "_ = Inr ?ph")
    by (rule demo_editor_phase)
  have "role_may_write role_editor KFact" by code_simp
  then have "ac_may_write (ph_authz ?ph) (OwnerId 2) KFact" by (simp add: dominates_meet(2) [OF r] del: role_may_meet)
  moreover have au: "operation_authority demo_engine 60 (FromPhase ?ph) =
      Inr \<lparr>eo_authz = ph_authz ?ph, eo_redeemed_phase = True, eo_runtime_binding = Some 8\<rparr>"
    by (simp add: operation_authority_Inr demo_service_def)
  ultimately have "fst (gate demo_engine (ph_authz ?ph) (OwnerId 2) (OpWrite KFact) True) = Inr (OwnerId 2)"
    by (simp add: gate_Inr)
  then have "\<exists>p. fst (authorize_write demo_engine 60 (FromPhase ?ph) (OwnerId 2) KFact) = Inr p"
    using au by (auto simp: authorize_write_def write_permit_def Let_def split: prod.split)
  then obtain p where p: "fst (authorize_write demo_engine 60 (FromPhase ?ph) (OwnerId 2) KFact) = Inr p" ..
  from delegated_write_confined [OF ph p] ph p show ?thesis by blast
qed

end
